(* ===== verification/Mk1_Prelude.thy ===== *)
theory Mk1_Prelude
  imports Main "HOL-Library.Word" "HOL-Library.Multiset"
begin

text \<open>
  What every component theory shares: the names of the machine integers, the arithmetic of the
  Rust standard library on them (saturating operations and the rounding operations the code
  calls), the automation collections, and the generic lemmas on words and lists that the
  component proofs use.

  Conventions. A fixed-width integer of the code is a word of that width, so the operators
  \<open>+\<close>, \<open>-\<close> and \<open>*\<close> wrap around as they do in the release build of the program (the workspace
  builds with the default release profile, where overflow checks are off). A \<open>usize\<close> that counts
  elements or bytes held in memory is a \<open>nat\<close>. A \<open>Result\<close> is a sum with the error on the left, an
  \<open>Option\<close> is an \<open>option\<close>, and a panic is the value \<open>None\<close> of a function that returns an option.
\<close>

section \<open>Machine integers\<close>

type_synonym u8 = "8 word"
type_synonym u16 = "16 word"
type_synonym u32 = "32 word"
type_synonym u64 = "64 word"
type_synonym u128 = "128 word"
type_synonym u256 = "256 word"
type_synonym address = "160 word"
type_synonym b256 = "256 word"
type_synonym bytes = "u8 list"
type_synonym usize = nat

named_theorems word_nat \<open>reading word arithmetic as natural numbers\<close>

section \<open>Saturating and rounding arithmetic of the standard library\<close>

definition sat_sub :: "'a::len word \<Rightarrow> 'a word \<Rightarrow> 'a word" where
  "sat_sub a b = (if a \<le> b then 0 else a - b)"

definition sat_add :: "'a::len word \<Rightarrow> 'a word \<Rightarrow> 'a word" where
  "sat_add a b = (if 2 ^ LENGTH('a) \<le> unat a + unat b then - 1 else a + b)"

definition sat_mul :: "'a::len word \<Rightarrow> 'a word \<Rightarrow> 'a word" where
  "sat_mul a b = (if 2 ^ LENGTH('a) \<le> unat a * unat b then - 1 else a * b)"

definition div_ceil :: "'a::len word \<Rightarrow> 'a word \<Rightarrow> 'a word" where
  "div_ceil a b = (let d = a div b; r = a mod b in if r > 0 then d + 1 else d)"

definition next_multiple_of :: "'a::len word \<Rightarrow> 'a word \<Rightarrow> 'a word" where
  "next_multiple_of a b = (let r = a mod b in if r = 0 then a else a + (b - r))"

lemma unat_lt_power: "unat (a :: 'a::len word) < 2 ^ LENGTH('a)"
  by (rule unsigned_less)

lemma unat_sat_sub [word_nat, simp]: "unat (sat_sub a b) = unat a - unat b"
  by (auto simp: sat_sub_def word_le_nat_alt unat_sub)

lemma unat_minus_one_word: "unat (- 1 :: 'a::len word) = 2 ^ LENGTH('a) - 1"
  by (rule unsigned_minus_1_eq_mask [unfolded mask_eq_exp_minus_1])

lemma unat_sat_add [word_nat]:
  "unat (sat_add a b) = min (unat a + unat b) (2 ^ LENGTH('a) - 1)" for a b :: "'a::len word"
proof (cases "2 ^ LENGTH('a) \<le> unat a + unat b")
  case True
  then show ?thesis by (simp add: sat_add_def unat_minus_one_word)
next
  case False
  then have "unat (a + b) = unat a + unat b"
    by (simp add: unat_add_lem [THEN iffD1])
  with False show ?thesis by (simp add: sat_add_def)
qed

lemma unat_sat_mul [word_nat]:
  "unat (sat_mul a b) = min (unat a * unat b) (2 ^ LENGTH('a) - 1)" for a b :: "'a::len word"
proof (cases "2 ^ LENGTH('a) \<le> unat a * unat b")
  case True
  then show ?thesis by (simp add: sat_mul_def unat_minus_one_word)
next
  case False
  then have "unat (a * b) = unat a * unat b"
    by (simp add: unat_mult_lem [THEN iffD1])
  with False show ?thesis by (simp add: sat_mul_def)
qed

lemma unat_add_no_wrap: "unat a + unat b < 2 ^ LENGTH('a) \<Longrightarrow> unat (a + b) = unat a + unat b"
  for a b :: "'a::len word"
  by (rule unat_add_lem [THEN iffD1])

lemma unat_mul_no_wrap: "unat a * unat b < 2 ^ LENGTH('a) \<Longrightarrow> unat (a * b) = unat a * unat b"
  for a b :: "'a::len word"
  by (rule unat_mult_lem [THEN iffD1])

lemma unat_sub_no_wrap: "b \<le> a \<Longrightarrow> unat (a - b) = unat a - unat b" for a b :: "'a::len word"
  by (rule unat_sub)

lemma unat_inj: "unat a = unat b \<Longrightarrow> a = b" for a b :: "'a::len word"
  by (simp add: word_unat_eq_iff)

lemma sat_sub_zero [simp]: "sat_sub a 0 = a"
  by (rule unat_inj) simp

lemma sat_sub_le: "sat_sub a b \<le> a"
  by (simp add: word_le_nat_alt)

lemma sat_sub_mono_left: "a \<le> a' \<Longrightarrow> sat_sub a b \<le> sat_sub a' b"
  by (simp add: word_le_nat_alt)

lemma sat_sub_antimono_right: "b \<le> b' \<Longrightarrow> sat_sub a b' \<le> sat_sub a b"
  by (simp add: word_le_nat_alt)

lemmas word_nat_cmp = word_le_nat_alt word_less_nat_alt word_unat_eq_iff

section \<open>Results that can also panic\<close>

text \<open>
  A function that returns a \<open>Result\<close> and whose body can also panic (an index out of range, a failed
  \<open>assert!\<close>, an \<open>expect\<close>) has one of three outcomes. \<open>and_then\<close> is the \<open>?\<close> operator.
\<close>

datatype ('e, 'a) outcome = Panic | Err 'e | Ok 'a

fun and_then :: "('e, 'a) outcome \<Rightarrow> ('a \<Rightarrow> ('e, 'b) outcome) \<Rightarrow> ('e, 'b) outcome" where
  "and_then Panic f = Panic"
| "and_then (Err e) f = Err e"
| "and_then (Ok x) f = f x"

fun or_panic :: "'a option \<Rightarrow> ('e, 'a) outcome" where
  "or_panic None = Panic"
| "or_panic (Some x) = Ok x"

lemma and_then_eq_Ok [simp]: "and_then m f = Ok y \<longleftrightarrow> (\<exists>x. m = Ok x \<and> f x = Ok y)"
  by (cases m) auto

lemma or_panic_eq_Ok [simp]: "or_panic m = Ok x \<longleftrightarrow> m = Some x"
  by (cases m) auto

section \<open>Slices\<close>

text \<open>Indexing and slicing of the source: every access outside the slice panics.\<close>

definition index_get :: "'a list \<Rightarrow> nat \<Rightarrow> 'a option" where
  "index_get xs i = (if i < length xs then Some (xs ! i) else None)"

definition index_set :: "'a list \<Rightarrow> nat \<Rightarrow> 'a \<Rightarrow> 'a list option" where
  "index_set xs i v = (if i < length xs then Some (xs[i := v]) else None)"

definition slice_get :: "'a list \<Rightarrow> nat \<Rightarrow> nat \<Rightarrow> 'a list option" where
  "slice_get xs a b = (if a \<le> b \<and> b \<le> length xs then Some (take (b - a) (drop a xs)) else None)"

definition copy_from_slice :: "'a list \<Rightarrow> nat \<Rightarrow> nat \<Rightarrow> 'a list \<Rightarrow> 'a list option" where
  "copy_from_slice xs a b src =
     (if a \<le> b \<and> b \<le> length xs \<and> b - a = length src
      then Some (take a xs @ src @ drop b xs) else None)"

lemma index_set_append [simp]:
  "length P = i \<Longrightarrow> index_set (P @ x # R) i v = Some (P @ v # R)"
  by (auto simp: index_set_def)

lemma copy_from_slice_append [simp]:
  "length P = a \<Longrightarrow> b = a + length src \<Longrightarrow> length X = length src \<Longrightarrow>
   copy_from_slice (P @ X @ R) a b src = Some (P @ src @ R)"
  by (auto simp: copy_from_slice_def)

section \<open>Generic lemmas on lists\<close>

lemma nth_map_upt_offset: "i < n \<Longrightarrow> map f [b..<b + n] ! i = f (b + i)"
  by simp

lemma take_map_upt: "k \<le> n \<Longrightarrow> take k (map f [b..<b + n]) = map f [b..<b + k]"
  by (simp add: take_map take_upt)

lemma drop_map_upt: "drop k (map f [b..<b + n]) = map f [b + k..<b + n]"
  by (simp add: drop_map)

lemma upt_split: "a \<le> b \<Longrightarrow> b \<le> c \<Longrightarrow> [a..<c] = [a..<b] @ [b..<c]"
  by (metis le_Suc_ex upt_add_eq_append)

end
