(* ===== verification/Chain_Time.thy ===== *)
theory Chain_Time
  imports Mk1_Prelude "HOL-Library.Monad_Syntax"
begin

text \<open>
  Slots, epochs and timestamps (\<open>crates/primitives/src/lib.rs\<close>, \<open>crates/primitives/src/time.rs\<close>)
  and the tick source of the driver, \<open>SlotClock\<close>. \<open>EPOCH_SLOTS\<close> and \<open>SLOT_DURATION_SECS\<close> are the
  constants of the Ethereum consensus layer that the code imports: 32 slots in an epoch and 12
  seconds in a slot. A division whose divisor is a configuration value panics when that value is
  zero, so it returns an option.
\<close>

definition EPOCH_SLOTS :: u64 where "EPOCH_SLOTS = 32"
definition SLOT_DURATION_SECS :: u64 where "SLOT_DURATION_SECS = 12"

section \<open>Slots and epochs\<close>

definition to_epoch :: "u64 \<Rightarrow> u64" where
  "to_epoch slot = slot div EPOCH_SLOTS"

definition to_slot :: "u64 \<Rightarrow> u64" where
  "to_slot epoch = epoch * EPOCH_SLOTS"

definition beginning_of_epoch :: "u64 \<Rightarrow> u64" where
  "beginning_of_epoch slot = to_slot (to_epoch slot)"

text \<open>A half-open \<open>Range\<close> is the pair of its ends.\<close>

definition to_slot_range :: "u64 \<Rightarrow> u64 \<times> u64" where
  "to_slot_range epoch = (let start = to_slot epoch in (start, sat_add start EPOCH_SLOTS))"

definition range_contains :: "u64 \<times> u64 \<Rightarrow> u64 \<Rightarrow> bool" where
  "range_contains r x = (fst r \<le> x \<and> x < snd r)"

section \<open>Timestamps\<close>

definition checked_div :: "'a::len word \<Rightarrow> 'a word \<Rightarrow> 'a word option" where
  "checked_div a b = (if b = 0 then None else Some (a div b))"

definition timestamp_to_l1_slot :: "u64 \<Rightarrow> u64 \<Rightarrow> u64 \<Rightarrow> u64 option" where
  "timestamp_to_l1_slot timestamp genesis_timestamp block_time =
     checked_div (sat_sub timestamp genesis_timestamp) block_time"

definition slot_to_timestamp :: "u64 \<Rightarrow> u64 \<Rightarrow> u64 \<Rightarrow> u64" where
  "slot_to_timestamp slot genesis_timestamp block_time = genesis_timestamp + slot * block_time"

text \<open>\<open>now\<close> is what \<open>current_timestamp_seconds\<close> reads from the system clock.\<close>

definition next_l1_slot_timestamp :: "u64 \<Rightarrow> u64 \<Rightarrow> u64 \<Rightarrow> u64 option" where
  "next_l1_slot_timestamp now genesis_timestamp block_time = do {
     slot \<leftarrow> timestamp_to_l1_slot now genesis_timestamp block_time;
     let next_slot = slot + 1;
     Some (genesis_timestamp + next_slot * block_time)
   }"

section \<open>The slot clock\<close>

datatype slot_tick = L1_Tick u64 | L2_Tick u64

record slot_clock = clock_cache :: "slot_tick option"

text \<open>
  One call of \<open>poll_next\<close>. The two \<open>tokio\<close> intervals are the environment: \<open>l1_ready\<close> and
  \<open>l2_ready\<close> say whether \<open>poll_tick\<close> of the interval returns \<open>Ready\<close> in this call, \<open>t1\<close> and
  \<open>t2\<close> are what the system clock reads. The result is \<open>None\<close> for \<open>Poll::Pending\<close>. The third
  component says whether the intervals were polled at all, i.e.\ whether a tick was taken out
  of them.
\<close>

fun clock_poll_next ::
  "slot_clock \<Rightarrow> bool \<Rightarrow> bool \<Rightarrow> u64 \<Rightarrow> u64 \<Rightarrow> slot_clock \<times> slot_tick option \<times> bool" where
  "clock_poll_next c l1_ready l2_ready t1 t2 =
     (case clock_cache c of
        Some tick \<Rightarrow> (c\<lparr>clock_cache := None\<rparr>, Some tick, False)
      | None \<Rightarrow>
          if l1_ready then
            (if l2_ready then c\<lparr>clock_cache := Some (L2_Tick t2)\<rparr> else c, Some (L1_Tick t1), True)
          else if l2_ready then (c, Some (L2_Tick t2), True)
          else (c, None, True))"

record clock_input =
  in_l1_ready :: bool
  in_l2_ready :: bool
  in_t1 :: u64
  in_t2 :: u64

text \<open>
  A run of polls: what was emitted, in order, and the ticks that the intervals gave up. An
  input whose poll is answered from the cache takes nothing out of the intervals.
\<close>

definition clock_taken :: "clock_input \<Rightarrow> bool \<Rightarrow> slot_tick list" where
  "clock_taken i polled =
     (if polled then (if in_l1_ready i then [L1_Tick (in_t1 i)] else []) @
                     (if in_l2_ready i then [L2_Tick (in_t2 i)] else [])
      else [])"

fun clock_run :: "slot_clock \<Rightarrow> clock_input list \<Rightarrow> slot_clock \<times> slot_tick list \<times> slot_tick list" where
  "clock_run c [] = (c, [], [])"
| "clock_run c (i # is) =
     (case clock_poll_next c (in_l1_ready i) (in_l2_ready i) (in_t1 i) (in_t2 i) of
        (c', out, polled) \<Rightarrow>
          (case clock_run c' is of
             (c'', outs, takens) \<Rightarrow>
               (c'', (case out of None \<Rightarrow> outs | Some t \<Rightarrow> t # outs),
                clock_taken i polled @ takens)))"

definition clock_pending :: "slot_clock \<Rightarrow> slot_tick list" where
  "clock_pending c = (case clock_cache c of None \<Rightarrow> [] | Some t \<Rightarrow> [t])"

section \<open>Lemmas\<close>

lemma unat_EPOCH_SLOTS [simp]: "unat EPOCH_SLOTS = 32"
  by (simp add: EPOCH_SLOTS_def)

lemma unat_SLOT_DURATION_SECS [simp]: "unat SLOT_DURATION_SECS = 12"
  by (simp add: SLOT_DURATION_SECS_def)

lemma unat_to_epoch [word_nat, simp]: "unat (to_epoch s) = unat s div 32"
  by (simp add: to_epoch_def unat_div)

lemma unat_to_slot: "unat e * 32 < 2 ^ 64 \<Longrightarrow> unat (to_slot e) = unat e * 32"
  by (simp add: to_slot_def unat_mul_no_wrap)

lemma unat_u64_bound: "unat (s :: u64) < 2 ^ 64"
  using unat_lt_power [of s] by simp

lemma unat_to_slot_to_epoch [simp]: "unat (to_slot (to_epoch s)) = unat s div 32 * 32"
  using unat_u64_bound [of s] by (subst unat_to_slot) (simp_all, linarith?)

lemma beginning_of_epoch_le: "beginning_of_epoch s \<le> s"
  by (simp add: beginning_of_epoch_def word_le_nat_alt)

lemma clock_poll_next_order:
  "clock_poll_next c (in_l1_ready i) (in_l2_ready i) (in_t1 i) (in_t2 i) = (c', out, polled) \<Longrightarrow>
   (case out of None \<Rightarrow> [] | Some t \<Rightarrow> [t]) @ clock_pending c' = clock_pending c @ clock_taken i polled"
  by (auto simp: clock_pending_def clock_taken_def split: option.splits if_splits)

lemma clock_run_order:
  "clock_run c is = (c', outs, takens) \<Longrightarrow> outs @ clock_pending c' = clock_pending c @ takens"
proof (induction "is" arbitrary: c c' outs takens)
  case Nil
  then show ?case by simp
next
  case (Cons i "is")
  obtain c1 out polled where
    p: "clock_poll_next c (in_l1_ready i) (in_l2_ready i) (in_t1 i) (in_t2 i) = (c1, out, polled)"
    by (metis prod_cases3)
  obtain c2 outs1 takens1 where r: "clock_run c1 is = (c2, outs1, takens1)"
    by (metis prod_cases3)
  from Cons.prems have e: "c' = c2" "outs = (case out of None \<Rightarrow> [] | Some t \<Rightarrow> [t]) @ outs1"
      "takens = clock_taken i polled @ takens1"
    unfolding clock_run.simps p prod.case r by (auto split: option.splits)
  have "outs1 @ clock_pending c2 = clock_pending c1 @ takens1"
    using r by (rule Cons.IH)
  with clock_poll_next_order [OF p] show ?case
    by (simp add: e del: clock_poll_next.simps)
qed


section \<open>Properties\<close>

text \<open>
  A new slot clock loses, duplicates and reorders no tick: what a run of polls emits, followed
  by the one tick the cache may still hold, is exactly the sequence of the ticks that became ready,
  the L1 tick before the L2 tick whenever both are ready in the same poll.
\<close>

theorem slot_clock_emits_every_tick_in_order:
  "case clock_run \<lparr>clock_cache = None\<rparr> is of (c', outs, takens) \<Rightarrow>
     outs @ clock_pending c' = takens \<and> length takens \<le> length outs + 1"
proof -
  obtain c' outs takens where r: "clock_run \<lparr>clock_cache = None\<rparr> is = (c', outs, takens)"
    by (metis prod_cases3)
  from clock_run_order [OF r] have "takens = outs @ clock_pending c'"
    by (simp add: clock_pending_def)
  moreover have "length (clock_pending c') \<le> 1"
    by (simp add: clock_pending_def split: option.split)
  ultimately show ?thesis by (simp add: r)
qed

end
