(* ===== verification/Chain_Types.thy ===== *)
theory Chain_Types
  imports Chain_Time
begin

text \<open>
  The data that the components exchange: block headers and blocks as the RPC clients return them,
  transactions, and the preconfirmed blocks of \<open>crates/primitives/src/taiko/batch.rs\<close>.

  A header carries the fields the program reads. A \<open>TxEnvelope\<close> is represented by its EIP-2718
  encoding, a recovered transaction by the pair of its signer and that encoding.
\<close>

record header =
  number :: u64
  timestamp :: u64
  beneficiary :: address
  block_hash :: b256
  parent_hash :: b256
  state_root :: b256
  gas_used :: u64
  gas_limit :: u64
  base_fee_per_gas :: "u64 option"
  extra_data :: bytes

type_synonym tx_envelope = bytes
type_synonym recovered_tx = "address \<times> tx_envelope"

definition eip2718_encoded_length :: "tx_envelope \<Rightarrow> usize" where
  "eip2718_encoded_length tx = length tx"

text \<open>A block comes with its transactions or with their hashes only.\<close>

datatype block_transactions = Full_Txs "recovered_tx list" | Hashes_Only "b256 list" | Uncle_Block

record rpc_block =
  block_header :: header
  transactions :: block_transactions

fun into_transactions :: "block_transactions \<Rightarrow> recovered_tx list" where
  "into_transactions (Full_Txs txs) = txs"
| "into_transactions (Hashes_Only hs) = []"
| "into_transactions Uncle_Block = []"

section \<open>Constants of the Taiko chain\<close>

definition TAIKO_GOLDEN_TOUCH_ACCOUNT :: address where
  "TAIKO_GOLDEN_TOUCH_ACCOUNT = 0x0000777735367b36bC9B61C50022d9D0700dB4Ec"

definition TAIKO_ANCHOR_V3_GAS_LIMIT :: u64 where "TAIKO_ANCHOR_V3_GAS_LIMIT = 1000000"
definition MAX_TIMESHIFT_SECS :: u64 where "MAX_TIMESHIFT_SECS = 255"
definition TIMESHIFT_BUFFER_SECS :: u64 where "TIMESHIFT_BUFFER_SECS = MAX_TIMESHIFT_SECS - 4"

section \<open>Preconfirmed blocks\<close>

record preconfirmed_block =
  pb_timestamp :: u64
  pb_number :: u64
  pb_coinbase :: address
  tx_list :: "tx_envelope list"

definition preconfirmed_new :: "header \<Rightarrow> tx_envelope list \<Rightarrow> preconfirmed_block" where
  "preconfirmed_new h txs =
     \<lparr>pb_timestamp = timestamp h, pb_number = number h, pb_coinbase = beneficiary h, tx_list = txs\<rparr>"

definition block_raw_size :: "preconfirmed_block \<Rightarrow> usize" where
  "block_raw_size b = sum_list (map eip2718_encoded_length (tx_list b))"

definition from_block :: "rpc_block \<Rightarrow> preconfirmed_block" where
  "from_block v =
     \<lparr>pb_timestamp = timestamp (block_header v),
      pb_number = number (block_header v),
      pb_coinbase = beneficiary (block_header v),
      tx_list = map snd (filter (\<lambda>tx. fst tx \<noteq> TAIKO_GOLDEN_TOUCH_ACCOUNT)
                            (into_transactions (transactions v)))\<rparr>"

lemma from_block_sel [simp]:
  "pb_number (from_block v) = number (block_header v)"
  "pb_timestamp (from_block v) = timestamp (block_header v)"
  "pb_coinbase (from_block v) = beneficiary (block_header v)"
  by (simp_all add: from_block_def)

text \<open>A list of blocks in strictly increasing order of their numbers.\<close>

definition increasing :: "preconfirmed_block list \<Rightarrow> bool" where
  "increasing bs = sorted_wrt (\<lambda>a b. pb_number a < pb_number b) bs"

lemma increasing_Nil [simp]: "increasing []"
  by (simp add: increasing_def)

lemma increasing_Cons [simp]:
  "increasing (b # bs) \<longleftrightarrow> (\<forall>c \<in> set bs. pb_number b < pb_number c) \<and> increasing bs"
  by (simp add: increasing_def)

lemma increasing_append:
  "increasing (bs @ cs) \<longleftrightarrow>
     increasing bs \<and> increasing cs \<and> (\<forall>b \<in> set bs. \<forall>c \<in> set cs. pb_number b < pb_number c)"
  by (auto simp: increasing_def sorted_wrt_append)

lemma increasing_filter: "increasing bs \<Longrightarrow> increasing (filter P bs)"
  by (simp add: increasing_def sorted_wrt_filter)

lemma increasing_retain_snoc:
  "increasing bs \<Longrightarrow> increasing (filter (\<lambda>b. pb_number b < pb_number c) bs @ [c])"
  by (simp add: increasing_append increasing_filter)

end
