(* ===== verification/Batch.thy ===== *)
theory Batch
  imports Chain_Types
begin

text \<open>
  The batch of \<open>crates/primitives/src/taiko/batch.rs\<close>: blocks that share an anchor block and wait to
  be proposed. Every method that changes a batch returns the changed batch. The estimate of the
  compressed size, \<open>ZlibCompressionEstimate::get\<close>, reads a global atomic that other threads
  update; it is the argument \<open>est\<close> of the operations that call it, one function for one call.
\<close>

record batch_settings =
  capacity :: usize
  target_compressed_size :: usize
  max_raw_size :: usize
  default_coinbase :: address
  max_anchor_height_offset :: u64
  anchor_max_height_buffer :: u64

record batch =
  blocks :: "preconfirmed_block list"
  anchor_block :: header
  settings :: batch_settings
  coinbase :: address

datatype doesnt_fit_block_reason =
    Capacity
  | TargetSize usize usize
  | AnchorChanged u64 u64

datatype add_block_result = Added usize | Full doesnt_fit_block_reason batch

definition batch_new :: "header \<Rightarrow> batch_settings \<Rightarrow> batch" where
  "batch_new anchor s =
     \<lparr>blocks = [], anchor_block = anchor, settings = s, coinbase = default_coinbase s\<rparr>"

definition from_blocks_unchecked :: "header \<Rightarrow> batch_settings \<Rightarrow> preconfirmed_block list \<Rightarrow> batch" where
  "from_blocks_unchecked anchor s bs =
     \<lparr>blocks = bs, anchor_block = anchor, settings = s, coinbase = default_coinbase s\<rparr>"

definition raw_size :: "batch \<Rightarrow> usize" where
  "raw_size b = sum_list (map block_raw_size (blocks b))"

definition doesnt_fit :: "(usize \<Rightarrow> usize) \<Rightarrow> batch \<Rightarrow> tx_envelope list \<Rightarrow> doesnt_fit_block_reason option" where
  "doesnt_fit est b txs =
     (let new_block_size = sum_list (map eip2718_encoded_length txs);
          new_raw_size = raw_size b + new_block_size;
          new_compressed_size = est new_raw_size
      in if new_compressed_size > target_compressed_size (settings b)
         then Some (TargetSize new_compressed_size (target_compressed_size (settings b)))
         else if length (blocks b) = capacity (settings b) then Some Capacity
         else None)"

definition retain_blocks_after :: "batch \<Rightarrow> u64 \<Rightarrow> batch" where
  "retain_blocks_after b n = b\<lparr>blocks := filter (\<lambda>block. pb_number block > n) (blocks b)\<rparr>"

definition retain_blocks_before :: "batch \<Rightarrow> u64 \<Rightarrow> batch" where
  "retain_blocks_before b n = b\<lparr>blocks := filter (\<lambda>block. pb_number block < n) (blocks b)\<rparr>"

text \<open>The batch that is taken, and what is left of \<open>self\<close>.\<close>

definition take_and_reset :: "batch \<Rightarrow> header \<Rightarrow> batch \<times> batch" where
  "take_and_reset b new_anchor_block =
     (let this = \<lparr>blocks = blocks b, anchor_block = anchor_block b, settings = settings b,
                  coinbase = coinbase b\<rparr>
      in (this, b\<lparr>blocks := [], anchor_block := new_anchor_block\<rparr>))"

definition add_block_and_reset_if_full ::
  "(usize \<Rightarrow> usize) \<Rightarrow> batch \<Rightarrow> preconfirmed_block \<Rightarrow> header \<Rightarrow> batch \<times> add_block_result" where
  "add_block_and_reset_if_full est b block new_anchor =
     (let b = retain_blocks_before b (pb_number block)
      in case doesnt_fit est b (tx_list block) of
           None \<Rightarrow> let b = b\<lparr>blocks := blocks b @ [block]\<rparr> in (b, Added (raw_size b))
         | Some reason \<Rightarrow>
             let (this, b) = take_and_reset b new_anchor;
                 b = b\<lparr>blocks := blocks b @ [block]\<rparr>
             in (b, Full reason this))"

fun last_option :: "'a list \<Rightarrow> 'a option" where
  "last_option [] = None"
| "last_option (x # xs) = Some (last (x # xs))"

fun first_option :: "'a list \<Rightarrow> 'a option" where
  "first_option [] = None"
| "first_option (x # xs) = Some x"

definition first_timestamp :: "batch \<Rightarrow> u64 option" where
  "first_timestamp b = map_option pb_timestamp (first_option (blocks b))"

definition last_timestamp :: "batch \<Rightarrow> u64 option" where
  "last_timestamp b = map_option pb_timestamp (last_option (blocks b))"

definition should_build_empty_block :: "batch \<Rightarrow> u64 \<Rightarrow> bool" where
  "should_build_empty_block b new_block_ts =
     (case last_timestamp b of
        None \<Rightarrow> False
      | Some last_ts \<Rightarrow> last_ts \<le> sat_sub new_block_ts TIMESHIFT_BUFFER_SECS)"

definition anchor_id :: "batch \<Rightarrow> u64" where
  "anchor_id b = number (anchor_block b)"

definition compute_age_limit :: "batch \<Rightarrow> u64 \<Rightarrow> u64 \<Rightarrow> u64" where
  "compute_age_limit b next_block_ts next_block_number =
     (let anchor_age = sat_sub next_block_number (anchor_id b);
          anchor_slots_left = sat_sub (max_anchor_height_offset (settings b)) anchor_age;
          timeshift_limit = max_anchor_height_offset (settings b) * SLOT_DURATION_SECS
      in case first_timestamp b of
           Some first_ts \<Rightarrow>
             let distance = sat_sub next_block_ts first_ts;
                 timeshift_seconds_left = sat_sub timeshift_limit distance;
                 timeshift_slots_left = timeshift_seconds_left div SLOT_DURATION_SECS
             in min anchor_slots_left timeshift_slots_left
         | None \<Rightarrow> anchor_slots_left)"

definition should_reanchor :: "batch \<Rightarrow> u64 \<Rightarrow> u64 \<Rightarrow> bool" where
  "should_reanchor b next_block_ts next_block_number =
     (compute_age_limit b next_block_ts next_block_number < anchor_max_height_buffer (settings b))"

definition tx_count :: "batch \<Rightarrow> usize" where
  "tx_count b = sum_list (map (\<lambda>block. length (tx_list block)) (blocks b))"

text \<open>An inclusive range is the pair of its ends.\<close>

definition blocks_range :: "batch \<Rightarrow> u64 \<times> u64" where
  "blocks_range b =
     (case blocks b of [] \<Rightarrow> (0, 0) | first # rest \<Rightarrow> (pb_number first, pb_number (last (first # rest))))"

definition first_and_last_block_timestamps :: "batch \<Rightarrow> (u64 \<times> u64) option" where
  "first_and_last_block_timestamps b =
     (case blocks b of [] \<Rightarrow> None
      | first # rest \<Rightarrow> Some (pb_timestamp first, pb_timestamp (last (first # rest))))"

definition total_time_shift :: "batch \<Rightarrow> u64" where
  "total_time_shift b =
     (case blocks b of [] \<Rightarrow> 0
      | first # rest \<Rightarrow> pb_timestamp (last (first # rest)) - pb_timestamp first)"

definition change_anchor :: "batch \<Rightarrow> header \<Rightarrow> batch" where
  "change_anchor b new_anchor = b\<lparr>anchor_block := new_anchor\<rparr>"

definition change_coinbase :: "batch \<Rightarrow> address \<Rightarrow> batch" where
  "change_coinbase b new_coinbase = b\<lparr>coinbase := new_coinbase\<rparr>"

definition set_all_blocks_timestamp :: "batch \<Rightarrow> u64 \<Rightarrow> batch" where
  "set_all_blocks_timestamp b ts = b\<lparr>blocks := map (\<lambda>block. block\<lparr>pb_timestamp := ts\<rparr>) (blocks b)\<rparr>"

text \<open>The loop of \<open>split_by_coinbase\<close>: the batches pushed so far and the current one.\<close>

fun split_loop :: "batch \<Rightarrow> preconfirmed_block list \<Rightarrow> batch list \<Rightarrow> batch \<Rightarrow> batch list" where
  "split_loop self [] batches current = batches @ [current]"
| "split_loop self (block # rest) batches current =
     (let (batches, current) =
            (if coinbase current \<noteq> pb_coinbase block
             then (batches @ [current],
                   change_coinbase (batch_new (anchor_block self) (settings self)) (pb_coinbase block))
             else (batches, current))
      in split_loop self rest batches (current\<lparr>blocks := blocks current @ [block]\<rparr>))"

definition split_by_coinbase :: "batch \<Rightarrow> batch list" where
  "split_by_coinbase self =
     (case blocks self of
        [] \<Rightarrow> []
      | first_block # _ \<Rightarrow>
          split_loop self (blocks self) []
            (change_coinbase (batch_new (anchor_block self) (settings self)) (pb_coinbase first_block)))"

text \<open>\<open>OrderedBatches\<close> is a list; \<open>pop_with_coinbase\<close> returns the batch and what is left.\<close>

definition pop_with_coinbase :: "batch list \<Rightarrow> address \<Rightarrow> batch list \<times> batch option" where
  "pop_with_coinbase bs cb =
     (case last_option bs of
        None \<Rightarrow> (bs, None)
      | Some l \<Rightarrow> if coinbase l \<noteq> cb then (bs, None) else (butlast bs, Some l))"

section \<open>Adding a block\<close>

text \<open>
  The invariant of a batch: at most \<open>capacity\<close> blocks, in increasing order. The capacity must not
  be zero: the code compares the number of blocks with the capacity for equality, and a block that
  does not fit is put into the empty batch anyway.
\<close>

definition batch_ok :: "batch \<Rightarrow> bool" where
  "batch_ok b = (0 < capacity (settings b) \<and> length (blocks b) \<le> capacity (settings b) \<and> increasing (blocks b))"

text \<open>What \<open>self\<close> keeps when a block with number \<open>n\<close> arrives.\<close>

definition kept_blocks :: "batch \<Rightarrow> u64 \<Rightarrow> preconfirmed_block list" where
  "kept_blocks b n = filter (\<lambda>block. pb_number block < n) (blocks b)"

definition full_batch_blocks :: "add_block_result \<Rightarrow> preconfirmed_block list" where
  "full_batch_blocks r = (case r of Added _ \<Rightarrow> [] | Full _ this \<Rightarrow> blocks this)"

lemma add_block_Added:
  assumes "doesnt_fit est (retain_blocks_before b (pb_number x)) (tx_list x) = None"
  shows "add_block_and_reset_if_full est b x anchor =
    (b\<lparr>blocks := kept_blocks b (pb_number x) @ [x]\<rparr>,
     Added (raw_size (b\<lparr>blocks := kept_blocks b (pb_number x) @ [x]\<rparr>)))"
  using assms by (simp add: add_block_and_reset_if_full_def retain_blocks_before_def kept_blocks_def Let_def)

lemma add_block_Full:
  assumes "doesnt_fit est (retain_blocks_before b (pb_number x)) (tx_list x) = Some reason"
  shows "add_block_and_reset_if_full est b x anchor =
    (b\<lparr>blocks := [x], anchor_block := anchor\<rparr>, Full reason (b\<lparr>blocks := kept_blocks b (pb_number x)\<rparr>))"
  using assms
  by (simp add: add_block_and_reset_if_full_def retain_blocks_before_def kept_blocks_def take_and_reset_def)

lemma add_block_cases:
  obtains (Added) "doesnt_fit est (retain_blocks_before b (pb_number x)) (tx_list x) = None"
      "add_block_and_reset_if_full est b x anchor =
        (b\<lparr>blocks := kept_blocks b (pb_number x) @ [x]\<rparr>,
         Added (raw_size (b\<lparr>blocks := kept_blocks b (pb_number x) @ [x]\<rparr>)))"
  | (Full) reason where "doesnt_fit est (retain_blocks_before b (pb_number x)) (tx_list x) = Some reason"
      "add_block_and_reset_if_full est b x anchor =
        (b\<lparr>blocks := [x], anchor_block := anchor\<rparr>, Full reason (b\<lparr>blocks := kept_blocks b (pb_number x)\<rparr>))"
  using add_block_Added add_block_Full
  by (cases "doesnt_fit est (retain_blocks_before b (pb_number x)) (tx_list x)") blast+

lemma raw_size_snoc: "raw_size (b\<lparr>blocks := bs @ [x]\<rparr>) = raw_size (b\<lparr>blocks := bs\<rparr>) + block_raw_size x"
  by (simp add: raw_size_def)

lemma retain_before_kept: "retain_blocks_before b n = b\<lparr>blocks := kept_blocks b n\<rparr>"
  by (simp add: retain_blocks_before_def kept_blocks_def)

lemma kept_blocks_le: "length (kept_blocks b n) \<le> length (blocks b)"
  by (simp add: kept_blocks_def)

lemma kept_blocks_all: "(\<And>y. y \<in> set (blocks b) \<Longrightarrow> pb_number y < n) \<Longrightarrow> kept_blocks b n = blocks b"
  by (simp add: kept_blocks_def)

text \<open>Nothing that is kept is lost, whichever way the block goes.\<close>

lemma add_block_conserves:
  assumes "add_block_and_reset_if_full est b x anchor = (b', r)"
  shows "full_batch_blocks r @ blocks b' = kept_blocks b (pb_number x) @ [x]"
  using assms by (cases rule: add_block_cases [of est b x anchor]) (auto simp: full_batch_blocks_def)

lemma add_block_ok:
  assumes "batch_ok b" and "add_block_and_reset_if_full est b x anchor = (b', r)"
  shows "batch_ok b' \<and> settings b' = settings b \<and> coinbase b' = coinbase b \<and>
         (\<forall>reason this. r = Full reason this \<longrightarrow> batch_ok this \<and> settings this = settings b)"
proof (cases rule: add_block_cases [of est b x anchor])
  case Added
  then have "length (kept_blocks b (pb_number x)) \<noteq> capacity (settings b)"
    by (simp add: doesnt_fit_def Let_def retain_before_kept split: if_splits)
  with kept_blocks_le [of b "pb_number x"] assms(1)
  have "length (kept_blocks b (pb_number x)) + 1 \<le> capacity (settings b)"
    by (auto simp: batch_ok_def)
  then show ?thesis
    using assms Added(2) increasing_retain_snoc [of "blocks b" x]
    by (auto simp: batch_ok_def kept_blocks_def)
next
  case (Full reason)
  have "length (kept_blocks b (pb_number x)) \<le> capacity (settings b)"
    using assms(1) kept_blocks_le [of b "pb_number x"] by (auto simp: batch_ok_def)
  moreover have "increasing (kept_blocks b (pb_number x))"
    using assms(1) by (simp add: batch_ok_def kept_blocks_def increasing_filter)
  ultimately show ?thesis
    using assms Full(2) by (auto simp: batch_ok_def)
qed

section \<open>The age limit\<close>

lemma unat_timeshift_limit:
  "unat n * 12 < 2 ^ 64 \<Longrightarrow> unat (n * SLOT_DURATION_SECS) = unat n * 12" for n :: u64
  by (subst unat_mul_no_wrap) simp_all

lemma unat_compute_age_limit:
  assumes "unat (max_anchor_height_offset (settings b)) * 12 < 2 ^ 64"
  defines "off \<equiv> unat (max_anchor_height_offset (settings b))"
  shows "unat (compute_age_limit b ts n) =
    (case first_timestamp b of
       None \<Rightarrow> off - (unat n - unat (anchor_id b))
     | Some f \<Rightarrow> min (off - (unat n - unat (anchor_id b))) ((off * 12 - (unat ts - unat f)) div 12))"
  using assms(1)
  by (auto simp: compute_age_limit_def Let_def off_def unat_timeshift_limit unat_div min_def
      word_le_nat_alt split: option.split)

section \<open>Splitting by coinbase\<close>

definition uniform_coinbase :: "batch \<Rightarrow> bool" where
  "uniform_coinbase b = (\<forall>x \<in> set (blocks b). pb_coinbase x = coinbase b)"

definition same_anchor :: "batch \<Rightarrow> batch \<Rightarrow> bool" where
  "same_anchor a b = (anchor_block a = anchor_block b \<and> settings a = settings b)"

text \<open>No two neighbours have the same coinbase: the split makes no batch too many.\<close>

definition coinbase_changes :: "batch list \<Rightarrow> bool" where
  "coinbase_changes bs = successively (\<lambda>a b. coinbase a \<noteq> coinbase b) bs"

lemma split_loop_spec:
  fixes rest :: "preconfirmed_block list"
  assumes "\<forall>b \<in> set acc. uniform_coinbase b \<and> blocks b \<noteq> [] \<and> same_anchor b self"
    and "uniform_coinbase cur" "same_anchor cur self" "blocks cur \<noteq> []"
    and "coinbase_changes (acc @ [cur])"
  defines "out \<equiv> split_loop self rest acc cur"
  shows "concat (map blocks out) = concat (map blocks acc) @ blocks cur @ rest \<and>
         (\<forall>b \<in> set out. uniform_coinbase b \<and> blocks b \<noteq> [] \<and> same_anchor b self) \<and>
         coinbase_changes out"
  unfolding out_def using assms(1-5)
proof (induction rest arbitrary: acc cur)
  case Nil
  then show ?case by simp
next
  case (Cons x rest)
  show ?case
  proof (cases "coinbase cur = pb_coinbase x")
    case True
    let ?cur = "cur\<lparr>blocks := blocks cur @ [x]\<rparr>"
    have "uniform_coinbase ?cur" "same_anchor ?cur self" "blocks ?cur \<noteq> []" "coinbase_changes (acc @ [?cur])"
      using Cons.prems True
      by (auto simp: uniform_coinbase_def same_anchor_def coinbase_changes_def successively_append_iff)
    from Cons.IH [OF Cons.prems(1) this(1-2) this(3-4)] True show ?thesis by simp
  next
    case False
    let ?cur = "(change_coinbase (batch_new (anchor_block self) (settings self)) (pb_coinbase x))\<lparr>blocks := [x]\<rparr>"
    have p: "\<forall>b \<in> set (acc @ [cur]). uniform_coinbase b \<and> blocks b \<noteq> [] \<and> same_anchor b self"
      using Cons.prems by auto
    have "uniform_coinbase ?cur" "same_anchor ?cur self" "blocks ?cur \<noteq> []"
        "coinbase_changes ((acc @ [cur]) @ [?cur])"
      using Cons.prems(5) False
      by (auto simp: uniform_coinbase_def same_anchor_def coinbase_changes_def successively_append_iff
          change_coinbase_def batch_new_def)
    from Cons.IH [OF p this(1-2) this(3-4)] False show ?thesis
      by (simp add: change_coinbase_def batch_new_def)
  qed
qed

lemma split_by_coinbase_spec:
  "concat (map blocks (split_by_coinbase b)) = blocks b \<and>
   (\<forall>x \<in> set (split_by_coinbase b). uniform_coinbase x \<and> blocks x \<noteq> [] \<and> same_anchor x b) \<and>
   coinbase_changes (split_by_coinbase b)"
proof (cases "blocks b")
  case Nil
  then show ?thesis by (simp add: split_by_coinbase_def coinbase_changes_def)
next
  case (Cons x rest)
  let ?cur = "(change_coinbase (batch_new (anchor_block b) (settings b)) (pb_coinbase x))\<lparr>blocks := [x]\<rparr>"
  have eq: "split_by_coinbase b = split_loop b rest [] ?cur"
    by (simp add: split_by_coinbase_def Cons change_coinbase_def batch_new_def)
  have "uniform_coinbase ?cur" "same_anchor ?cur b" "blocks ?cur \<noteq> []" "coinbase_changes ([] @ [?cur])"
    by (simp_all add: uniform_coinbase_def same_anchor_def coinbase_changes_def change_coinbase_def batch_new_def)
  from split_loop_spec [OF _ this, of rest] show ?thesis
    unfolding eq Cons by simp
qed

section \<open>Properties\<close>

text \<open>
  Adding a block loses nothing: the blocks of the batch that is returned as full, followed by
  those that stay, are the blocks with a smaller number followed by the new one. Blocks with the
  same or a larger number are dropped. The batch is never empty afterwards, the new block is its
  last one, the capacity is respected, and the returned batch keeps the old anchor while a fresh
  batch gets the new one.
\<close>

theorem add_block_conserves_blocks:
  assumes "batch_ok b" and "add_block_and_reset_if_full est b x new_anchor = (b', r)"
  shows "full_batch_blocks r @ blocks b' =
           filter (\<lambda>y. pb_number y < pb_number x) (blocks b) @ [x] \<and>
         blocks b' \<noteq> [] \<and> last (blocks b') = x \<and> batch_ok b' \<and> settings b' = settings b \<and>
         (case r of
            Added n \<Rightarrow> anchor_block b' = anchor_block b \<and> n = raw_size b' \<and>
                          est n \<le> target_compressed_size (settings b)
          | Full reason this \<Rightarrow> anchor_block this = anchor_block b \<and> anchor_block b' = new_anchor \<and>
                          blocks b' = [x] \<and> batch_ok this)"
proof (cases rule: add_block_cases [of est b x new_anchor])
  case Added
  then have "est (raw_size (b\<lparr>blocks := kept_blocks b (pb_number x)\<rparr>) + block_raw_size x) \<le>
      target_compressed_size (settings b)"
    by (simp add: doesnt_fit_def Let_def retain_before_kept block_raw_size_def not_less split: if_splits)
  with Added assms add_block_ok [OF assms] add_block_conserves [OF assms(2)] show ?thesis
    by (auto simp: raw_size_snoc kept_blocks_def)
next
  case (Full reason)
  with assms add_block_ok [OF assms] add_block_conserves [OF assms(2)] show ?thesis
    by (auto simp: kept_blocks_def)
qed

definition example_header :: "u64 \<Rightarrow> u64 \<Rightarrow> header" where
  "example_header n ts =
     \<lparr>number = n, timestamp = ts, beneficiary = 0, block_hash = 0, parent_hash = 0, state_root = 0,
      gas_used = 0, gas_limit = 0, base_fee_per_gas = None, extra_data = []\<rparr>"

definition example_settings :: batch_settings where
  "example_settings =
     \<lparr>capacity = 2, target_compressed_size = 100, max_raw_size = 100, default_coinbase = 7,
      max_anchor_height_offset = 64, anchor_max_height_buffer = 6\<rparr>"

definition example_block :: "u64 \<Rightarrow> u64 \<Rightarrow> address \<Rightarrow> usize \<Rightarrow> preconfirmed_block" where
  "example_block n ts cb sz =
     \<lparr>pb_timestamp = ts, pb_number = n, pb_coinbase = cb, tx_list = [replicate sz 0]\<rparr>"

definition example_batch :: batch where
  "example_batch =
     (batch_new (example_header 1 1000) example_settings)
       \<lparr>blocks := [example_block 2 1001 7 10, example_block 3 1002 7 10]\<rparr>"

lemmas example_defs = example_header_def example_settings_def example_block_def example_batch_def batch_new_def

theorem add_block_conserves_blocks_witness:
  "full_batch_blocks (snd (add_block_and_reset_if_full id example_batch (example_block 4 1003 7 10) (example_header 5 1010))) =
     blocks example_batch \<and>
   blocks (fst (add_block_and_reset_if_full id example_batch (example_block 4 1003 7 10) (example_header 5 1010))) =
     [example_block 4 1003 7 10]"
proof -
  have ok: "batch_ok example_batch" by (simp add: batch_ok_def example_defs)
  obtain b' r where e: "add_block_and_reset_if_full id example_batch (example_block 4 1003 7 10)
      (example_header 5 1010) = (b', r)" by (metis surj_pair)
  have "b' = example_batch\<lparr>blocks := [example_block 4 1003 7 10], anchor_block := example_header 5 1010\<rparr>"
    using e by (simp add: add_block_and_reset_if_full_def retain_blocks_before_def doesnt_fit_def
        take_and_reset_def example_defs raw_size_def block_raw_size_def eip2718_encoded_length_def)
  with add_block_conserves_blocks [OF ok e] e show ?thesis
    by (simp add: example_defs)
qed

text \<open>
  The age limit is exactly the number of L1 slots left: a batch can wait \<open>k > 0\<close> more slots if
  and only if the block posted then is still within \<open>max_anchor_height_offset\<close> of the anchor block
  and, when the batch has blocks, within as many slots of its first timestamp.
\<close>

theorem age_limit_is_slots_left:
  assumes "unat (max_anchor_height_offset (settings b)) * 12 < 2 ^ 64" and "0 < k"
  shows "k \<le> unat (compute_age_limit b next_ts next_number) \<longleftrightarrow>
           (unat next_number - unat (anchor_id b)) + k \<le> unat (max_anchor_height_offset (settings b)) \<and>
           (case first_timestamp b of
              None \<Rightarrow> True
            | Some f \<Rightarrow> (unat next_ts - unat f) + 12 * k \<le> 12 * unat (max_anchor_height_offset (settings b)))"
proof -
  have d: "k \<le> m div 12 \<longleftrightarrow> 12 * k \<le> m" for m
    by (simp add: less_eq_div_iff_mult_less_eq mult.commute)
  show ?thesis
    using assms(2)
    by (auto simp: unat_compute_age_limit [OF assms(1)] d split: option.split)
qed

theorem age_limit_is_slots_left_witness:
  "60 \<le> unat (compute_age_limit example_batch 1013 3) \<and> \<not> 64 \<le> unat (compute_age_limit example_batch 1013 3)"
  using age_limit_is_slots_left [of example_batch 60 1013 3] age_limit_is_slots_left [of example_batch 64 1013 3]
  by (simp add: example_defs first_timestamp_def anchor_id_def)

text \<open>
  Splitting a batch by coinbase keeps all its blocks in order, yields non-empty batches with the
  same anchor and settings whose blocks all have the coinbase of their batch, and never splits two
  neighbouring blocks with the same coinbase.
\<close>

theorem split_by_coinbase_correct:
  "concat (map blocks (split_by_coinbase b)) = blocks b \<and>
   (\<forall>x \<in> set (split_by_coinbase b).
      blocks x \<noteq> [] \<and> (\<forall>y \<in> set (blocks x). pb_coinbase y = coinbase x) \<and>
      anchor_block x = anchor_block b \<and> settings x = settings b) \<and>
   successively (\<lambda>x y. coinbase x \<noteq> coinbase y) (split_by_coinbase b)"
  using split_by_coinbase_spec [of b]
  by (auto simp: uniform_coinbase_def same_anchor_def coinbase_changes_def)

theorem split_by_coinbase_correct_witness:
  "concat (map blocks (split_by_coinbase example_batch)) = [example_block 2 1001 7 10, example_block 3 1002 7 10]"
  using split_by_coinbase_correct [of example_batch] by (simp add: example_defs)

text \<open>
  The empty block that resets the time shift is asked for while it still helps: as long as the
  answer is no, the next block is less than \<open>TIMESHIFT_BUFFER_SECS\<close> after the last one, so the
  shift between them fits into the byte that the inbox stores.
\<close>

theorem no_empty_block_needed_shift_fits:
  assumes "\<not> should_build_empty_block b new_ts" and "last_timestamp b = Some last_ts"
    and "TIMESHIFT_BUFFER_SECS \<le> new_ts"
  shows "unat new_ts - unat last_ts < 251 \<and> unat new_ts - unat last_ts \<le> unat MAX_TIMESHIFT_SECS"
proof -
  have t: "unat TIMESHIFT_BUFFER_SECS = 251"
    by (simp add: TIMESHIFT_BUFFER_SECS_def MAX_TIMESHIFT_SECS_def)
  have "sat_sub new_ts TIMESHIFT_BUFFER_SECS < last_ts"
    using assms(1,2) by (simp add: should_build_empty_block_def not_le)
  then have "unat new_ts - 251 < unat last_ts" by (simp add: word_less_nat_alt t)
  moreover have "251 \<le> unat new_ts" using assms(3) by (simp add: word_le_nat_alt t)
  ultimately have "unat new_ts - unat last_ts < 251" by linarith
  then show ?thesis by (simp add: MAX_TIMESHIFT_SECS_def)
qed

theorem no_empty_block_needed_shift_fits_witness:
  "unat (1200 :: u64) - unat (1002 :: u64) < 251 \<and> \<not> should_build_empty_block example_batch 1200"
proof -
  have h: "\<not> should_build_empty_block example_batch 1200" "last_timestamp example_batch = Some 1002"
    "TIMESHIFT_BUFFER_SECS \<le> 1200"
    by (simp_all add: example_defs should_build_empty_block_def last_timestamp_def sat_sub_def
        TIMESHIFT_BUFFER_SECS_def MAX_TIMESHIFT_SECS_def)
  from no_empty_block_needed_shift_fits [OF h] h(1) show ?thesis by blast
qed

end
