(* ===== verification/Anchored_Blocks.thy ===== *)
theory Anchored_Blocks
  imports Batch
begin

text \<open>
  Contiguous lists of L2 blocks with their L1 anchors, \<open>crates/primitives/src/taiko/block.rs\<close>.
  \<open>sort_by_key\<close> of the standard library is stable, as is \<open>sort_key\<close>.
\<close>

record anchored_block =
  ab_block :: rpc_block
  ab_anchor :: header

definition block_number :: "anchored_block \<Rightarrow> u64" where
  "block_number b = number (block_header (ab_block b))"

definition anchored_anchor_id :: "anchored_block \<Rightarrow> u64" where
  "anchored_anchor_id b = number (ab_anchor b)"

definition into_preconfirmed_block :: "anchored_block \<Rightarrow> preconfirmed_block" where
  "into_preconfirmed_block b = from_block (ab_block b)"

datatype gap_error = GapError (expected: u64) (got: u64)

text \<open>The loop over the sorted blocks; \<open>i\<close> is the index of the first remaining block.\<close>

fun check_gaps :: "u64 \<Rightarrow> nat \<Rightarrow> anchored_block list \<Rightarrow> gap_error option" where
  "check_gaps first_bn i [] = None"
| "check_gaps first_bn i (block # rest) =
     (let got = block_number block;
          expected = first_bn + of_nat i
      in if got \<noteq> expected then Some (GapError expected got) else check_gaps first_bn (Suc i) rest)"

definition contiguous_new :: "anchored_block list \<Rightarrow> gap_error + anchored_block list" where
  "contiguous_new bs =
     (let bs = sort_key block_number bs
      in case bs of
           [] \<Rightarrow> Inr bs
         | first # _ \<Rightarrow>
             (case check_gaps (block_number first) 0 bs of
                Some e \<Rightarrow> Inl e
              | None \<Rightarrow> Inr bs))"

definition into_preconfirmed :: "anchored_block list \<Rightarrow> preconfirmed_block list" where
  "into_preconfirmed bs = map into_preconfirmed_block bs"

text \<open>\<open>max_by_key\<close> of the standard library: the last of the elements with the largest key.\<close>

fun max_by_key :: "('a \<Rightarrow> 'k::linorder) \<Rightarrow> 'a list \<Rightarrow> 'a option" where
  "max_by_key f [] = None"
| "max_by_key f (x # xs) =
     (case max_by_key f xs of
        None \<Rightarrow> Some x
      | Some y \<Rightarrow> if f y < f x then Some x else Some y)"

definition into_outstanding :: "anchored_block list \<Rightarrow> header \<Rightarrow> batch_settings \<Rightarrow> batch" where
  "into_outstanding bs safe_anchor s =
     (let highest_anchor_block =
            (case max_by_key anchored_anchor_id bs of None \<Rightarrow> safe_anchor | Some b \<Rightarrow> ab_anchor b);
          outstanding = filter (\<lambda>b. anchored_anchor_id b = number highest_anchor_block) bs;
          blocks = map into_preconfirmed_block (drop (length outstanding - capacity s) outstanding)
      in from_blocks_unchecked highest_anchor_block s blocks)"

text \<open>A \<open>HashMap\<close> that is collected from pairs: a later pair replaces an earlier one.\<close>

definition basefee_map :: "anchored_block list \<Rightarrow> u64 \<rightharpoonup> u64" where
  "basefee_map bs =
     map_of (rev (List.map_filter
       (\<lambda>b. map_option (Pair (block_number b)) (base_fee_per_gas (block_header (ab_block b)))) bs))"

section \<open>Contiguity\<close>

definition contiguous :: "anchored_block list \<Rightarrow> bool" where
  "contiguous bs = (\<forall>i < length bs. block_number (bs ! i) = block_number (bs ! 0) + of_nat i)"

lemma check_gaps_None:
  "check_gaps f i bs = None \<longleftrightarrow> (\<forall>j < length bs. block_number (bs ! j) = f + of_nat (i + j))"
proof (induction bs arbitrary: i)
  case (Cons b bs)
  have "(\<forall>j < length (b # bs). block_number ((b # bs) ! j) = f + of_nat (i + j)) \<longleftrightarrow>
      block_number b = f + of_nat i \<and> (\<forall>j < length bs. block_number (bs ! j) = f + of_nat (Suc i + j))"
    by (auto simp: less_Suc_eq_0_disj)
  with Cons show ?case by (simp add: Let_def add.assoc)
qed simp

lemma check_gaps_Some:
  "check_gaps f i bs = Some e \<Longrightarrow>
   \<exists>j < length bs. expected e = f + of_nat (i + j) \<and> got e = block_number (bs ! j) \<and> got e \<noteq> expected e \<and>
     (\<forall>k < j. block_number (bs ! k) = f + of_nat (i + k))"
proof (induction bs arbitrary: i)
  case (Cons b bs)
  show ?case
  proof (cases "block_number b = f + of_nat i")
    case True
    with Cons.prems have "check_gaps f (Suc i) bs = Some e" by simp
    from Cons.IH [OF this] obtain j where "j < length bs" "expected e = f + of_nat (Suc i + j)"
      "got e = block_number (bs ! j)" "got e \<noteq> expected e"
      "\<forall>k < j. block_number (bs ! k) = f + of_nat (Suc i + k)" by blast
    with True show ?thesis
      by (intro exI [of _ "Suc j"]) (auto simp: less_Suc_eq_0_disj)
  next
    case False
    with Cons.prems show ?thesis by (intro exI [of _ 0]) (auto simp: Let_def)
  qed
qed simp

lemma contiguous_iff: "contiguous bs \<longleftrightarrow> check_gaps (block_number (bs ! 0)) 0 bs = None"
  by (simp add: check_gaps_None contiguous_def)

lemma contiguous_new_Ok:
  "contiguous_new bs = Inr cs \<longleftrightarrow> cs = sort_key block_number bs \<and> contiguous (sort_key block_number bs)"
  by (cases "sort_key block_number bs")
     (auto simp: contiguous_new_def contiguous_iff Let_def simp del: check_gaps.simps split: option.splits,
      simp add: contiguous_iff)

lemma contiguous_step:
  assumes "contiguous bs" "Suc i < length bs"
  shows "block_number (bs ! Suc i) = block_number (bs ! i) + 1"
  using assms by (simp add: contiguous_def)

text \<open>Sorted and contiguous: the numbers do not even wrap, so they are strictly increasing.\<close>

lemma sorted_contiguous_less:
  assumes "sorted (map block_number bs)" "contiguous bs" "i < j" "j < length bs"
  shows "block_number (bs ! i) < block_number (bs ! j)"
  using assms(3,4)
proof (induction j)
  case (Suc j)
  have step: "block_number (bs ! Suc j) = block_number (bs ! j) + 1"
    using contiguous_step [OF assms(2)] Suc.prems by simp
  have "block_number (bs ! j) \<le> block_number (bs ! Suc j)"
    using assms(1) Suc.prems sorted_nth_mono [OF assms(1), of j "Suc j"] by simp
  then have "block_number (bs ! j) < block_number (bs ! Suc j)"
    unfolding step by (metis add_cancel_left_right order_le_less zero_neq_one)
  then show ?case
    using Suc by (cases "i = j") (auto simp: less_Suc_eq)
qed simp

lemma increasing_into_preconfirmed:
  assumes "sorted (map block_number bs)" "contiguous bs"
  shows "increasing (into_preconfirmed bs)"
  unfolding increasing_def into_preconfirmed_def sorted_wrt_iff_nth_less
  using sorted_contiguous_less [OF assms] by (auto simp: into_preconfirmed_block_def block_number_def)

lemma max_by_key_None [simp]: "max_by_key f xs = None \<longleftrightarrow> xs = []"
  by (cases xs) (auto split: option.splits)

lemma max_by_key_Some: "max_by_key f xs = Some y \<Longrightarrow> y \<in> set xs \<and> (\<forall>x \<in> set xs. f x \<le> f y)"
  by (induction xs arbitrary: y) (fastforce split: option.splits if_splits)+

section \<open>Properties\<close>

text \<open>
  Blocks are accepted exactly when their sorted numbers have no gap and no duplicate; then the
  result is the sorted list of the same blocks with strictly increasing numbers, each one more than
  the one before. A gap error names the first position where the number is not the expected one.
\<close>

theorem contiguous_new_correct:
  "case contiguous_new bs of
     Inr cs \<Rightarrow> mset cs = mset bs \<and> increasing (into_preconfirmed cs) \<and>
       (\<forall>i < length cs. block_number (cs ! i) = block_number (cs ! 0) + of_nat i)
   | Inl e \<Rightarrow> \<exists>i < length bs. let cs = sort_key block_number bs in
       got e = block_number (cs ! i) \<and> expected e = block_number (cs ! 0) + of_nat i \<and> got e \<noteq> expected e \<and>
       (\<forall>k < i. block_number (cs ! k) = block_number (cs ! 0) + of_nat k)"
proof (cases "contiguous_new bs")
  case (Inl e)
  then have "check_gaps (block_number (sort_key block_number bs ! 0)) 0 (sort_key block_number bs) = Some e"
    by (auto simp: contiguous_new_def Let_def split: list.splits option.splits)
  from check_gaps_Some [OF this] show ?thesis by (simp add: Inl Let_def) blast
next
  case (Inr cs)
  then have "cs = sort_key block_number bs" "contiguous cs" by (simp_all add: contiguous_new_Ok)
  then show ?thesis
    using increasing_into_preconfirmed [of cs] by (simp add: Inr contiguous_def)
qed

theorem contiguous_new_correct_witness:
  "contiguous_new [\<lparr>ab_block = \<lparr>block_header = example_header 3 0, transactions = Uncle_Block\<rparr>,
                    ab_anchor = example_header 1 0\<rparr>,
                   \<lparr>ab_block = \<lparr>block_header = example_header 5 0, transactions = Uncle_Block\<rparr>,
                    ab_anchor = example_header 1 0\<rparr>] = Inl (GapError 4 5)"
  using contiguous_new_correct [of "[\<lparr>ab_block = \<lparr>block_header = example_header 3 0, transactions = Uncle_Block\<rparr>,
                    ab_anchor = example_header 1 0\<rparr>]"]
  by (simp add: contiguous_new_def example_header_def block_number_def)

text \<open>
  The outstanding batch that is rebuilt from soft blocks holds the last blocks that share the
  highest anchor, at most \<open>capacity\<close> of them, in their order, with that anchor; without blocks it is
  the empty batch at the safe anchor.
\<close>

theorem into_outstanding_correct:
  fixes safe_anchor :: header and s :: batch_settings
  assumes "increasing (into_preconfirmed bs)"
  defines "b \<equiv> into_outstanding bs safe_anchor s"
  defines "highest \<equiv> filter (\<lambda>a. anchored_anchor_id a = anchor_id b) bs"
  shows "(\<forall>a \<in> set bs. anchored_anchor_id a \<le> anchor_id b) \<and>
         (\<exists>dropped. into_preconfirmed highest = dropped @ blocks b \<and> (dropped \<noteq> [] \<longrightarrow> length (blocks b) = capacity s)) \<and>
         length (blocks b) \<le> capacity s \<and> increasing (blocks b) \<and>
         (if bs = [] then anchor_block b = safe_anchor else anchor_block b \<in> ab_anchor ` set bs)"
proof -
  have b: "blocks b = drop (length highest - capacity s) (into_preconfirmed highest)"
    by (simp add: b_def into_outstanding_def Let_def from_blocks_unchecked_def highest_def anchor_id_def
        into_preconfirmed_def drop_map)
  have inc: "increasing (into_preconfirmed highest)"
  proof -
    have "into_preconfirmed highest = map into_preconfirmed_block (filter (\<lambda>a. anchored_anchor_id a = anchor_id b) bs)"
      by (simp add: into_preconfirmed_def highest_def)
    then show ?thesis
      using assms(1) by (simp add: into_preconfirmed_def increasing_def sorted_wrt_map sorted_wrt_filter)
  qed
  have split: "into_preconfirmed highest = take (length highest - capacity s) (into_preconfirmed highest) @ blocks b"
    by (simp add: b)
  then have "increasing (blocks b)" using inc by (metis increasing_append)
  moreover have len: "length (blocks b) = min (length highest) (capacity s)"
    by (auto simp: b into_preconfirmed_def)
  moreover have "take (length highest - capacity s) (into_preconfirmed highest) \<noteq> [] \<longrightarrow> length (blocks b) = capacity s"
    using len by auto
  moreover have "(\<forall>a \<in> set bs. anchored_anchor_id a \<le> anchor_id b) \<and>
      (if bs = [] then anchor_block b = safe_anchor else anchor_block b \<in> ab_anchor ` set bs)"
  proof (cases "max_by_key anchored_anchor_id bs")
    case None
    then show ?thesis by (simp add: b_def into_outstanding_def from_blocks_unchecked_def Let_def)
  next
    case (Some y)
    from max_by_key_Some [OF this] Some show ?thesis
      by (auto simp: b_def into_outstanding_def from_blocks_unchecked_def Let_def anchor_id_def anchored_anchor_id_def)
  qed
  ultimately show ?thesis using split by (metis min.cobounded2)
qed

theorem into_outstanding_correct_witness:
  "anchor_block (into_outstanding [] (example_header 9 0) example_settings) = example_header 9 0"
  using into_outstanding_correct [of "[]" "example_header 9 0" example_settings]
  by (simp add: into_preconfirmed_def)

end
