(* ===== verification/Btree.thy ===== *)
theory Btree
  imports Mk1_Prelude
begin

text \<open>
  The \<open>BTreeMap\<close> of the standard library as the list of its entries in increasing order of the
  keys, which is the order of its iterators. The interface that the batch map relies on is the
  locale \<open>ordered_map\<close>: lookups after an insertion, the invariant, and iteration in key order. Its
  client lemmas are about grouping values under their keys; they are used through the
  interpretation \<open>bt\<close> on this implementation.
\<close>

type_synonym ('k, 'v) btree = "('k \<times> 'v) list"

definition bt_empty :: "('k, 'v) btree" where "bt_empty = []"

fun bt_get :: "('k::linorder, 'v) btree \<Rightarrow> 'k \<Rightarrow> 'v option" where
  "bt_get [] k = None"
| "bt_get ((k', v) # m) k = (if k = k' then Some v else bt_get m k)"

fun bt_insert :: "'k::linorder \<Rightarrow> 'v \<Rightarrow> ('k, 'v) btree \<Rightarrow> ('k, 'v) btree" where
  "bt_insert k v [] = [(k, v)]"
| "bt_insert k v ((k', v') # m) =
     (if k < k' then (k, v) # (k', v') # m
      else if k = k' then (k, v) # m
      else (k', v') # bt_insert k v m)"

definition bt_keys :: "('k, 'v) btree \<Rightarrow> 'k list" where
  "bt_keys m = map fst m"

definition bt_values :: "('k, 'v) btree \<Rightarrow> 'v list" where
  "bt_values m = map snd m"

text \<open>A loop over \<open>values_mut\<close> that replaces every value.\<close>

definition bt_map_values :: "('v \<Rightarrow> 'w) \<Rightarrow> ('k, 'v) btree \<Rightarrow> ('k, 'w) btree" where
  "bt_map_values f m = map (\<lambda>(k, v). (k, f v)) m"

definition bt_ok :: "('k::linorder, 'v) btree \<Rightarrow> bool" where
  "bt_ok m = sorted_wrt (<) (bt_keys m)"

section \<open>The interface\<close>

locale ordered_map =
  fixes empty :: "'m"
    and get :: "'m \<Rightarrow> 'k::linorder \<Rightarrow> 'v option"
    and put :: "'k \<Rightarrow> 'v \<Rightarrow> 'm \<Rightarrow> 'm"
    and entries :: "'m \<Rightarrow> ('k \<times> 'v) list"
    and ok :: "'m \<Rightarrow> bool"
  assumes ok_empty: "ok empty"
    and get_empty: "get empty k = None"
    and ok_insert: "ok m \<Longrightarrow> ok (put k v m)"
    and get_insert: "ok m \<Longrightarrow> get (put k v m) j = (if j = k then Some v else get m j)"
    and entries_sorted: "ok m \<Longrightarrow> sorted_wrt (<) (map fst (entries m))"
    and entries_get: "ok m \<Longrightarrow> (k, v) \<in> set (entries m) \<longleftrightarrow> get m k = Some v"
begin

lemma keys_distinct: "ok m \<Longrightarrow> distinct (map fst (entries m))"
  using entries_sorted [of m] by (simp add: strict_sorted_iff)

lemma entry_key_value: "ok m \<Longrightarrow> e \<in> set (entries m) \<Longrightarrow> get m (fst e) = Some (snd e)"
  using entries_get [of m "fst e" "snd e"] by simp

lemma get_None_iff: "ok m \<Longrightarrow> get m k = None \<longleftrightarrow> k \<notin> fst ` set (entries m)"
  using entries_get [of m k] by (cases "get m k") force+

end

text \<open>A map whose values can be replaced all at once, entry by entry.\<close>

locale mappable_map = ordered_map empty get put entries ok
  for empty :: "'m" and get :: "'m \<Rightarrow> 'k::linorder \<Rightarrow> 'v option" and put entries ok +
  fixes map_values :: "('v \<Rightarrow> 'v) \<Rightarrow> 'm \<Rightarrow> 'm"
  assumes entries_map: "entries (map_values f m) = map (\<lambda>(k, v). (k, f v)) (entries m)"
    and ok_map: "ok m \<Longrightarrow> ok (map_values f m)"
begin

lemma get_map_values: "ok m \<Longrightarrow> get (map_values f m) k = map_option f (get m k)"
proof -
  assume m: "ok m"
  show ?thesis
  proof (cases "get m k")
    case None
    then have "k \<notin> fst ` set (entries (map_values f m))"
      using get_None_iff [OF m] by (force simp: entries_map)
    with None show ?thesis using get_None_iff [OF ok_map [OF m]] by simp
  next
    case (Some v)
    then have "(k, v) \<in> set (entries m)" using entries_get [OF m] by simp
    then have "(k, f v) \<in> set (entries (map_values f m))" by (force simp: entries_map)
    with Some show ?thesis using entries_get [OF ok_map [OF m]] by simp
  qed
qed

end

section \<open>The implementation provides it\<close>

lemma bt_keys_insert: "set (bt_keys (bt_insert k v m)) = insert k (set (bt_keys m))"
  by (induction k v m rule: bt_insert.induct) (auto simp: bt_keys_def)

lemma bt_ok_insert: "bt_ok m \<Longrightarrow> bt_ok (bt_insert k v m)"
proof (induction k v m rule: bt_insert.induct)
  case (2 k v k' v' m)
  then show ?case
    using bt_keys_insert [of k v m] by (auto simp: bt_ok_def bt_keys_def)
qed (simp add: bt_ok_def bt_keys_def)

lemma bt_get_insert: "bt_get (bt_insert k v m) j = (if j = k then Some v else bt_get m j)"
  by (induction k v m rule: bt_insert.induct) auto

lemma bt_get_entry: "bt_ok m \<Longrightarrow> (k, v) \<in> set m \<longleftrightarrow> bt_get m k = Some v"
  by (induction m k rule: bt_get.induct) (auto simp: bt_ok_def bt_keys_def rev_image_eqI)

interpretation bt: mappable_map bt_empty bt_get bt_insert "\<lambda>m. m" bt_ok bt_map_values
proof
  show "bt_ok bt_empty" "\<And>k. bt_get bt_empty k = None"
    by (simp_all add: bt_ok_def bt_keys_def bt_empty_def)
  show "\<And>m k v. bt_ok m \<Longrightarrow> bt_ok (bt_insert k v m)" by (rule bt_ok_insert)
  show "\<And>m k v j. bt_ok m \<Longrightarrow> bt_get (bt_insert k v m) j = (if j = k then Some v else bt_get m j)"
    by (rule bt_get_insert)
  show "\<And>m. bt_ok m \<Longrightarrow> sorted_wrt (<) (map fst m)" by (simp add: bt_ok_def bt_keys_def)
  show "\<And>m k v. bt_ok m \<Longrightarrow> (k, v) \<in> set m \<longleftrightarrow> bt_get m k = Some v" by (rule bt_get_entry)
  show "\<And>f m. bt_map_values f m = map (\<lambda>(k, v). (k, f v)) m" by (simp add: bt_map_values_def)
  show "\<And>m f. bt_ok m \<Longrightarrow> bt_ok (bt_map_values f m)"
    by (simp add: bt_ok_def bt_keys_def bt_map_values_def case_prod_unfold comp_def)
qed

lemma set_bt_values: "x \<in> set (bt_values m) \<longleftrightarrow> (\<exists>k. (k, x) \<in> set m)"
  by (force simp: bt_values_def)

end
