(* ===== verification/Batch_Map.thy ===== *)
theory Batch_Map
  imports Anchored_Blocks Btree "HOL-Library.Monad_Syntax"
begin

text \<open>
  The batch map of \<open>crates/primitives/src/taiko/batch_map.rs\<close>: unproposed L2 blocks grouped by
  their anchor into batches, and the pipeline that makes them proposable: \<open>new\<close>, then
  \<open>ensure_unique_coinbase\<close>, \<open>reanchor\<close>, \<open>retimestamp\<close> and \<open>into_vec\<close>. The phantom type that
  orders these steps has no run-time content. An \<open>expect\<close> that fails is \<open>None\<close>. The estimate of the
  compressed size may change between two calls, so the loops take \<open>est\<close>, where \<open>est i\<close> is the
  estimate that call number \<open>i\<close> sees.
\<close>

datatype reorg_reason = Reanchor u64 u64 | Retimestamp u64 u64

record batch_map =
  inner :: "(u64, batch list) btree"
  reorg_reasons :: "reorg_reason list"

definition only_reanchoring :: "reorg_reason list \<Rightarrow> bool" where
  "only_reanchoring rs = (\<forall>r \<in> set rs. case r of Reanchor _ _ \<Rightarrow> True | Retimestamp _ _ \<Rightarrow> False)"

definition map_of_inner :: "(u64, batch list) btree \<Rightarrow> batch_map" where
  "map_of_inner m = \<lparr>inner = m, reorg_reasons = []\<rparr>"

section \<open>Building the map\<close>

definition new_step ::
  "(usize \<Rightarrow> usize) \<Rightarrow> batch_settings \<Rightarrow> (u64, batch list) btree \<Rightarrow> anchored_block \<Rightarrow>
   (u64, batch list) btree option" where
  "new_step est s m anchored =
     (let preconfirmed = from_block (ab_block anchored);
          anchor = ab_anchor anchored;
          anchor_block_id = number anchor
      in case bt_get m anchor_block_id of
           Some batches_by_anchor \<Rightarrow>
             (case last_option batches_by_anchor of
                None \<Rightarrow> None
              | Some current_batch \<Rightarrow>
                  (case add_block_and_reset_if_full est current_batch preconfirmed anchor of
                     (current_batch, Added _) \<Rightarrow>
                       Some (bt_insert anchor_block_id (butlast batches_by_anchor @ [current_batch]) m)
                   | (new_batch, Full reason batch) \<Rightarrow>
                       Some (bt_insert anchor_block_id (butlast batches_by_anchor @ [batch, new_batch]) m)))
         | None \<Rightarrow>
             Some (bt_insert anchor_block_id
               [from_blocks_unchecked anchor (s\<lparr>default_coinbase := pb_coinbase preconfirmed\<rparr>) [preconfirmed]] m))"

fun new_loop ::
  "(nat \<Rightarrow> usize \<Rightarrow> usize) \<Rightarrow> nat \<Rightarrow> batch_settings \<Rightarrow> (u64, batch list) btree \<Rightarrow> anchored_block list \<Rightarrow>
   (u64, batch list) btree option" where
  "new_loop est i s m [] = Some m"
| "new_loop est i s m (x # xs) = do { m \<leftarrow> new_step (est i) s m x; new_loop est (Suc i) s m xs }"

text \<open>
  \<open>sort_by_key\<close> looks at the keys only when there is something to sort; the key is the number of
  the first block and panics on an empty batch.
\<close>

definition first_number :: "batch \<Rightarrow> u64" where
  "first_number b = (case blocks b of [] \<Rightarrow> 0 | x # _ \<Rightarrow> pb_number x)"

definition sort_batches :: "batch list \<Rightarrow> batch list option" where
  "sort_batches bs =
     (if length bs < 2 then Some bs
      else if \<exists>b \<in> set bs. blocks b = [] then None
      else Some (sort_key first_number bs))"

fun sort_all :: "(u64, batch list) btree \<Rightarrow> (u64, batch list) btree option" where
  "sort_all [] = Some []"
| "sort_all ((k, bs) # m) = do { bs \<leftarrow> sort_batches bs; m \<leftarrow> sort_all m; Some ((k, bs) # m) }"

definition batch_map_new ::
  "(nat \<Rightarrow> usize \<Rightarrow> usize) \<Rightarrow> anchored_block list \<Rightarrow> batch_settings \<Rightarrow> batch_map option" where
  "batch_map_new est anchored_blocks s =
     (if anchored_blocks = [] then Some (map_of_inner bt_empty)
      else do {
        m \<leftarrow> new_loop est 0 s bt_empty anchored_blocks;
        m \<leftarrow> sort_all m;
        Some (map_of_inner m)
      })"

definition ensure_unique_coinbase :: "batch_map \<Rightarrow> batch_map" where
  "ensure_unique_coinbase bm =
     map_of_inner (bt_map_values (\<lambda>batches. concat (map split_by_coinbase batches)) (inner bm))"

section \<open>Re-anchoring\<close>

definition min_anchor :: "batch_map \<Rightarrow> u64 option" where
  "min_anchor bm = (case bt_keys (inner bm) of [] \<Rightarrow> None | k # ks \<Rightarrow> Some (fold min ks k))"

definition map_should_reanchor :: "batch_map \<Rightarrow> u64 \<Rightarrow> bool option" where
  "map_should_reanchor bm min_proposable_anchor =
     (case min_anchor bm of
        None \<Rightarrow> Some False
      | Some key \<Rightarrow>
          (case bt_get (inner bm) key of
             None \<Rightarrow> None
           | Some bs \<Rightarrow>
               (case first_option bs of
                  None \<Rightarrow> Some False
                | Some b \<Rightarrow> Some (number (anchor_block b) < min_proposable_anchor))))"

definition entry_push :: "u64 \<Rightarrow> batch \<Rightarrow> (u64, batch list) btree \<Rightarrow> (u64, batch list) btree" where
  "entry_push k b m = bt_insert k ((case bt_get m k of None \<Rightarrow> [] | Some bs \<Rightarrow> bs) @ [b]) m"

fun reanchor_loop ::
  "(nat \<Rightarrow> usize \<Rightarrow> usize) \<Rightarrow> nat \<Rightarrow> header \<Rightarrow> (u64, batch list) btree \<Rightarrow> batch \<Rightarrow> preconfirmed_block list \<Rightarrow>
   (u64, batch list) btree \<times> batch" where
  "reanchor_loop est i safe m cursor [] = (m, cursor)"
| "reanchor_loop est i safe m cursor (block # rest) =
     (case add_block_and_reset_if_full (est i) cursor block safe of
        (cursor, Added _) \<Rightarrow> reanchor_loop est (Suc i) safe m cursor rest
      | (cursor, Full reason batch) \<Rightarrow>
          reanchor_loop est (Suc i) safe (entry_push (anchor_id batch) batch m) cursor rest)"

definition reanchor ::
  "(nat \<Rightarrow> usize \<Rightarrow> usize) \<Rightarrow> batch_map \<Rightarrow> u64 \<Rightarrow> header \<Rightarrow> batch_settings \<Rightarrow> batch_map option" where
  "reanchor est bm min_proposable_anchor safe_l1_anchor s =
     (case min_anchor bm of
        None \<Rightarrow> Some (map_of_inner (inner bm))
      | Some oldest \<Rightarrow> do {
          should \<leftarrow> map_should_reanchor bm min_proposable_anchor;
          if \<not> should then Some (map_of_inner (inner bm))
          else
            let bs = sort_key pb_number (concat (map blocks (concat (bt_values (inner bm)))));
                (m, cursor) = reanchor_loop est 0 safe_l1_anchor bt_empty (batch_new safe_l1_anchor s) bs;
                m = entry_push (number safe_l1_anchor) cursor m
            in Some \<lparr>inner = m, reorg_reasons = [Reanchor oldest (number safe_l1_anchor)]\<rparr>
        })"

section \<open>Re-timestamping\<close>

definition out_of_range :: "u64 \<Rightarrow> u64 \<Rightarrow> batch \<Rightarrow> bool" where
  "out_of_range min_ts max_ts b =
     (\<exists>block \<in> set (blocks b). pb_timestamp block < min_ts \<or> pb_timestamp block > max_ts)"

fun retimestamp_batches :: "u64 \<Rightarrow> u64 \<Rightarrow> bool \<Rightarrow> batch list \<Rightarrow> bool \<times> batch list" where
  "retimestamp_batches min_ts max_ts should [] = (should, [])"
| "retimestamp_batches min_ts max_ts should (b # bs) =
     (let should = (should \<or> out_of_range min_ts max_ts b);
          b = (if should then set_all_blocks_timestamp b max_ts else b);
          (should, bs) = retimestamp_batches min_ts max_ts should bs
      in (should, b # bs))"

fun retimestamp_values ::
  "u64 \<Rightarrow> u64 \<Rightarrow> bool \<Rightarrow> (u64, batch list) btree \<Rightarrow> bool \<times> (u64, batch list) btree" where
  "retimestamp_values min_ts max_ts should [] = (should, [])"
| "retimestamp_values min_ts max_ts should ((k, bs) # m) =
     (let (should, bs) = retimestamp_batches min_ts max_ts should bs;
          (should, m) = retimestamp_values min_ts max_ts should m
      in (should, (k, bs) # m))"

definition retimestamp :: "batch_map \<Rightarrow> u64 \<Rightarrow> u64 \<Rightarrow> batch_map" where
  "retimestamp bm min_ts max_ts =
     (let (should_retimestamp, m) = retimestamp_values min_ts max_ts False (inner bm)
      in \<lparr>inner = m,
          reorg_reasons =
            (if should_retimestamp then reorg_reasons bm @ [Retimestamp min_ts max_ts] else reorg_reasons bm)\<rparr>)"

definition into_vec :: "batch_map \<Rightarrow> batch list" where
  "into_vec bm = concat (bt_values (inner bm))"

definition batch_count :: "batch_map \<Rightarrow> u64" where
  "batch_count bm = sum_list (map (\<lambda>v. of_nat (length v)) (bt_values (inner bm)))"

section \<open>The map that is built\<close>

definition blocks_at :: "u64 \<Rightarrow> anchored_block list \<Rightarrow> preconfirmed_block list" where
  "blocks_at k ps = map into_preconfirmed_block (filter (\<lambda>p. anchored_anchor_id p = k) ps)"

definition all_blocks :: "batch list \<Rightarrow> preconfirmed_block list" where
  "all_blocks bs = concat (map blocks bs)"

lemma all_blocks_simps [simp]:
  "all_blocks [] = []" "all_blocks (b # bs) = blocks b @ all_blocks bs"
  "all_blocks (bs @ cs) = all_blocks bs @ all_blocks cs"
  by (simp_all add: all_blocks_def)

definition good_batches :: "batch_settings \<Rightarrow> u64 \<Rightarrow> batch list \<Rightarrow> bool" where
  "good_batches s k bs =
     (bs \<noteq> [] \<and> (\<forall>b \<in> set bs. blocks b \<noteq> [] \<and> anchor_id b = k \<and>
        settings b = s\<lparr>default_coinbase := coinbase b\<rparr> \<and> (0 < capacity s \<longrightarrow> batch_ok b)))"

definition map_holds :: "batch_settings \<Rightarrow> (u64, batch list) btree \<Rightarrow> anchored_block list \<Rightarrow> bool" where
  "map_holds s m ps =
     (bt_ok m \<and>
      (\<forall>k. bt_get m k = None \<longrightarrow> blocks_at k ps = []) \<and>
      (\<forall>k bs. bt_get m k = Some bs \<longrightarrow> good_batches s k bs \<and> all_blocks bs = blocks_at k ps))"

lemma map_holds_empty: "map_holds s bt_empty []"
  by (simp add: map_holds_def blocks_at_def bt.get_empty bt.ok_empty)

lemma blocks_at_snoc:
  "blocks_at k (ps @ [p]) =
     (if anchored_anchor_id p = k then blocks_at k ps @ [into_preconfirmed_block p] else blocks_at k ps)"
  by (simp add: blocks_at_def)

lemma blocks_at_subset: "set (blocks_at k ps) \<subseteq> set (into_preconfirmed ps)"
  by (auto simp: blocks_at_def into_preconfirmed_def)

lemma map_holds_put:
  assumes "map_holds s m ps" "good_batches s (anchored_anchor_id p) bs"
    and "all_blocks bs = blocks_at (anchored_anchor_id p) ps @ [into_preconfirmed_block p]"
  shows "map_holds s (bt_insert (anchored_anchor_id p) bs m) (ps @ [p])"
  using assms by (auto simp: map_holds_def bt.get_insert blocks_at_snoc bt.ok_insert)

lemma last_option_Some: "bs \<noteq> [] \<Longrightarrow> last_option bs = Some (last bs)"
  by (cases bs) auto


lemma new_step_holds:
  assumes "map_holds s m ps" "increasing (into_preconfirmed (ps @ [p]))"
  shows "\<exists>m'. new_step est s m p = Some m' \<and> map_holds s m' (ps @ [p])"
proof -
  let ?k = "anchored_anchor_id p" and ?x = "into_preconfirmed_block p"
  have less: "\<And>y. y \<in> set (into_preconfirmed ps) \<Longrightarrow> pb_number y < pb_number ?x"
    using assms(2) by (auto simp: into_preconfirmed_def increasing_append)
  show ?thesis
  proof (cases "bt_get m ?k")
    case None
    then have "blocks_at ?k ps = []" using assms(1) by (auto simp: map_holds_def )
    let ?b = "from_blocks_unchecked (ab_anchor p) (s\<lparr>default_coinbase := pb_coinbase ?x\<rparr>) [?x]"
    have "good_batches s ?k [?b]"
      by (auto simp: good_batches_def from_blocks_unchecked_def anchor_id_def anchored_anchor_id_def batch_ok_def)
    moreover have "all_blocks [?b] = blocks_at ?k ps @ [?x]"
      by (simp add: \<open>blocks_at ?k ps = []\<close> from_blocks_unchecked_def)
    ultimately show ?thesis
      using map_holds_put [OF assms(1), of p "[?b]"] None
      by (simp add: new_step_def Let_def anchored_anchor_id_def into_preconfirmed_block_def)
  next
    case (Some bs)
    then have good: "good_batches s ?k bs" and all: "all_blocks bs = blocks_at ?k ps"
      using assms(1) by (auto simp: map_holds_def )
    then have ne: "bs \<noteq> []" by (simp add: good_batches_def)
    let ?c = "last bs" and ?r = "butlast bs"
    have split: "bs = ?r @ [?c]" using ne by simp
    have c_in: "?c \<in> set bs" using ne by simp
    have "set (blocks ?c) \<subseteq> set (all_blocks bs)" using c_in by (auto simp: all_blocks_def)
    then have kept: "kept_blocks ?c (pb_number ?x) = blocks ?c"
      using less blocks_at_subset [of ?k ps] by (intro kept_blocks_all) (auto simp: all)
    obtain c' res where add: "add_block_and_reset_if_full est ?c ?x (ab_anchor p) = (c', res)"
      by (metis surj_pair)
    have ok: "0 < capacity s \<longrightarrow> batch_ok c' \<and> (\<forall>reason this. res = Full reason this \<longrightarrow> batch_ok this)"
      using good c_in add_block_ok [OF _ add] by (auto simp: good_batches_def)
    have rest: "all_blocks bs = all_blocks ?r @ blocks ?c"
      by (subst split) simp
    show ?thesis
    proof (cases rule: add_block_cases [of est ?c ?x "ab_anchor p"])
      case Added
      let ?bs = "?r @ [?c\<lparr>blocks := blocks ?c @ [?x]\<rparr>]"
      have c': "c' = ?c\<lparr>blocks := blocks ?c @ [?x]\<rparr>" "\<exists>n. res = Added n" using Added(2) add kept by auto
      have "good_batches s ?k ?bs"
        using good c_in ok c' by (auto simp: good_batches_def anchor_id_def dest: in_set_butlastD)
      moreover have "all_blocks ?bs = blocks_at ?k ps @ [?x]"
        using all rest by simp
      ultimately have "map_holds s (bt_insert ?k ?bs m) (ps @ [p])" by (rule map_holds_put [OF assms(1)])
      moreover have "new_step est s m p = Some (bt_insert ?k ?bs m)"
        using add c' Some last_option_Some [OF ne]
        by (auto simp: new_step_def Let_def anchored_anchor_id_def into_preconfirmed_block_def)
      ultimately show ?thesis by blast
    next
      case (Full reason)
      let ?bs = "?r @ [?c, ?c\<lparr>blocks := [?x], anchor_block := ab_anchor p\<rparr>]"
      have c': "c' = ?c\<lparr>blocks := [?x], anchor_block := ab_anchor p\<rparr>" "res = Full reason ?c"
        using Full(2) add kept by auto
      have "good_batches s ?k ?bs"
        using good c_in ok c' by (auto simp: good_batches_def anchor_id_def anchored_anchor_id_def dest: in_set_butlastD)
      moreover have "all_blocks ?bs = blocks_at ?k ps @ [?x]"
        using all rest by simp
      ultimately have "map_holds s (bt_insert ?k ?bs m) (ps @ [p])" by (rule map_holds_put [OF assms(1)])
      moreover have "new_step est s m p = Some (bt_insert ?k ?bs m)"
        using add c' Some last_option_Some [OF ne]
        by (auto simp: new_step_def Let_def anchored_anchor_id_def into_preconfirmed_block_def)
      ultimately show ?thesis by blast
    qed
  qed
qed

lemma new_loop_holds:
  assumes "map_holds s m ps" "increasing (into_preconfirmed (ps @ qs))"
  shows "\<exists>m'. new_loop est i s m qs = Some m' \<and> map_holds s m' (ps @ qs)"
  using assms
proof (induction qs arbitrary: i m ps)
  case Nil
  then show ?case by simp
next
  case (Cons q qs)
  have inc: "increasing (into_preconfirmed (ps @ [q]))" "increasing (into_preconfirmed ((ps @ [q]) @ qs))"
    using Cons.prems(2) by (auto simp: into_preconfirmed_def increasing_append)
  obtain m1 where m1: "new_step (est i) s m q = Some m1" "map_holds s m1 (ps @ [q])"
    using new_step_holds [OF Cons.prems(1) inc(1)] by blast
  from Cons.IH [OF m1(2) inc(2)] m1(1) show ?case by simp
qed

lemma first_number_in: "blocks b \<noteq> [] \<Longrightarrow> \<exists>x \<in> set (blocks b). first_number b = pb_number x"
  by (cases "blocks b") (auto simp: first_number_def)

lemma sort_batches_id:
  assumes "\<forall>b \<in> set bs. blocks b \<noteq> []" "increasing (all_blocks bs)"
  shows "sort_batches bs = Some bs"
proof -
  have "sorted (map first_number bs)"
    using assms
  proof (induction bs)
    case (Cons b bs)
    have "first_number b \<le> first_number c" if "c \<in> set bs" for c
    proof -
      obtain x y where "x \<in> set (blocks b)" "first_number b = pb_number x" "y \<in> set (blocks c)" "first_number c = pb_number y"
        using first_number_in [of b] first_number_in [of c] Cons.prems(1) \<open>c \<in> set bs\<close> by auto
      moreover from this have "y \<in> set (all_blocks bs)" using \<open>c \<in> set bs\<close> by (auto simp: all_blocks_def)
      ultimately show ?thesis using Cons.prems(2) by (auto simp: increasing_append intro: less_imp_le)
    qed
    with Cons show ?case by (auto simp: increasing_append)
  qed simp
  then show ?thesis using assms(1) by (auto simp: sort_batches_def sort_key_id_if_sorted)
qed

lemma sort_all_id: "(\<And>k bs. (k, bs) \<in> set m \<Longrightarrow> sort_batches bs = Some bs) \<Longrightarrow> sort_all m = Some m"
proof (induction m)
  case (Cons e m)
  obtain k bs where "e = (k, bs)" by (cases e)
  moreover from this have "sort_batches bs = Some bs" using Cons.prems by auto
  moreover have "sort_all m = Some m" using Cons by auto
  ultimately show ?case by simp
qed simp

lemma increasing_blocks_at: "increasing (into_preconfirmed ps) \<Longrightarrow> increasing (blocks_at k ps)"
  by (auto simp: into_preconfirmed_def blocks_at_def increasing_def sorted_wrt_map sorted_wrt_filter)

lemma batch_map_new_holds:
  assumes "increasing (into_preconfirmed ps)"
  shows "\<exists>bm. batch_map_new est ps s = Some bm \<and> map_holds s (inner bm) ps \<and> reorg_reasons bm = []"
proof (cases "ps = []")
  case True
  then show ?thesis using map_holds_empty by (simp add: batch_map_new_def map_of_inner_def)
next
  case False
  obtain m where m: "new_loop est 0 s bt_empty ps = Some m" "map_holds s m ps"
    using new_loop_holds [OF map_holds_empty, of ps est 0 s] assms by auto
  have "sort_all m = Some m"
  proof (rule sort_all_id)
    fix k bs assume "(k, bs) \<in> set m"
    then have "bt_get m k = Some bs" using m(2) bt.entries_get [of m k bs] by (auto simp: map_holds_def)
    then have "good_batches s k bs" "all_blocks bs = blocks_at k ps"
      using m(2) by (auto simp: map_holds_def )
    then show "sort_batches bs = Some bs"
      using increasing_blocks_at [OF assms, of k] by (intro sort_batches_id) (auto simp: good_batches_def)
  qed
  with m False show ?thesis by (simp add: batch_map_new_def map_of_inner_def)
qed

section \<open>The pipeline\<close>

lemma bt_values_simps [simp]: "bt_values [] = []" "bt_values ((k, v) # m) = v # bt_values m"
  by (simp_all add: bt_values_def)

lemma all_blocks_split: "all_blocks (concat (map split_by_coinbase bs)) = all_blocks bs"
  by (induction bs) (simp_all add: all_blocks_def split_by_coinbase_spec)

lemma into_vec_unique:
  "into_vec (ensure_unique_coinbase bm) = concat (map split_by_coinbase (into_vec bm))"
proof -
  have "concat (bt_values (bt_map_values (\<lambda>bs. concat (map split_by_coinbase bs)) m)) =
      concat (map split_by_coinbase (concat (bt_values m)))" for m :: "(u64, batch list) btree"
    by (induction m) (auto simp: bt_map_values_def)
  then show ?thesis by (simp add: into_vec_def ensure_unique_coinbase_def map_of_inner_def)
qed

lemma reasons_unique [simp]: "reorg_reasons (ensure_unique_coinbase bm) = []"
  by (simp add: ensure_unique_coinbase_def map_of_inner_def)

lemma ok_unique: "bt_ok (inner bm) \<Longrightarrow> bt_ok (inner (ensure_unique_coinbase bm))"
  by (simp add: ensure_unique_coinbase_def map_of_inner_def bt.ok_map)

subsection \<open>Re-anchoring\<close>

text \<open>While re-anchoring, the new map has at most the key of the safe anchor.\<close>

definition single :: "u64 \<Rightarrow> batch list \<Rightarrow> (u64, batch list) btree" where
  "single k bs = (if bs = [] then [] else [(k, bs)])"

lemma entry_push_single: "entry_push k b (single k bs) = single k (bs @ [b])"
  by (simp add: entry_push_def single_def)

definition reanchored :: "header \<Rightarrow> batch_settings \<Rightarrow> batch \<Rightarrow> bool" where
  "reanchored safe s b =
     (anchor_block b = safe \<and> settings b = s \<and> coinbase b = default_coinbase s \<and>
      (0 < capacity s \<longrightarrow> batch_ok b))"

lemma increasing_kept:
  assumes "increasing (blocks b @ x # rest)"
  shows "kept_blocks b (pb_number x) = blocks b"
  using assms by (intro kept_blocks_all) (auto simp: increasing_append)

lemma reanchor_loop_spec:
  assumes "reanchored safe s cursor" "increasing (blocks cursor @ rest)"
  shows "\<exists>new c'. reanchor_loop est i safe (single (number safe) acc) cursor rest =
             (single (number safe) (acc @ new), c') \<and>
           all_blocks new @ blocks c' = blocks cursor @ rest \<and>
           (\<forall>b \<in> set (c' # new). reanchored safe s b) \<and>
           (blocks cursor \<noteq> [] \<longrightarrow> (\<forall>b \<in> set (c' # new). blocks b \<noteq> []))"
  using assms
proof (induction rest arbitrary: i acc cursor)
  case Nil
  then show ?case by (intro exI [of _ "[]"]) simp
next
  case (Cons x rest)
  note kept = increasing_kept [OF Cons.prems(2)]
  obtain c1 r where add: "add_block_and_reset_if_full (est i) cursor x safe = (c1, r)" by (metis surj_pair)
  have ok: "0 < capacity s \<longrightarrow> batch_ok c1" "settings c1 = s" "coinbase c1 = default_coinbase s"
  proof -
    show "0 < capacity s \<longrightarrow> batch_ok c1"
      using add_block_ok [OF _ add] Cons.prems(1) by (auto simp: reanchored_def)
    show "settings c1 = s" "coinbase c1 = default_coinbase s"
      using add Cons.prems(1) by (cases rule: add_block_cases [of "est i" cursor x safe]; auto simp: reanchored_def)+
  qed
  show ?case
  proof (cases rule: add_block_cases [of "est i" cursor x safe])
    case Added
    with add kept have c1: "c1 = cursor\<lparr>blocks := blocks cursor @ [x]\<rparr>" "\<exists>n. r = Added n" by auto
    have re: "reanchored safe s c1" "increasing (blocks c1 @ rest)" "blocks c1 \<noteq> []"
      using Cons.prems ok c1 by (simp_all add: reanchored_def)
    from Cons.IH [OF re(1,2), of "Suc i" acc] re(3) obtain new c' where
      "reanchor_loop est (Suc i) safe (single (number safe) acc) c1 rest = (single (number safe) (acc @ new), c')"
      "all_blocks new @ blocks c' = blocks c1 @ rest" "\<forall>b \<in> set (c' # new). reanchored safe s b"
      "\<forall>b \<in> set (c' # new). blocks b \<noteq> []" by blast
    with add c1 show ?thesis by (intro exI [of _ new] exI [of _ c']) auto
  next
    case (Full reason)
    with add kept have c1: "c1 = cursor\<lparr>blocks := [x], anchor_block := safe\<rparr>" "r = Full reason cursor" by auto
    have re: "reanchored safe s c1" "increasing (blocks c1 @ rest)" "blocks c1 \<noteq> []"
      using Cons.prems ok c1 by (simp_all add: reanchored_def increasing_append)
    have k: "anchor_id cursor = number safe" using Cons.prems(1) by (simp add: anchor_id_def reanchored_def)
    from Cons.IH [OF re(1,2), of "Suc i" "acc @ [cursor]"] re(3) obtain new c' where
      "reanchor_loop est (Suc i) safe (single (number safe) (acc @ [cursor])) c1 rest =
         (single (number safe) ((acc @ [cursor]) @ new), c')"
      "all_blocks new @ blocks c' = blocks c1 @ rest" "\<forall>b \<in> set (c' # new). reanchored safe s b"
      "\<forall>b \<in> set (c' # new). blocks b \<noteq> []" by blast
    with add c1 k Cons.prems(1) show ?thesis
      by (intro exI [of _ "cursor # new"] exI [of _ c']) (auto simp: entry_push_single)
  qed
qed

lemma min_anchor_in: "min_anchor bm = Some k \<Longrightarrow> k \<in> set (bt_keys (inner bm)) \<and> (\<forall>j \<in> set (bt_keys (inner bm)). k \<le> j)"
proof -
  have f: "fold min ks k \<in> insert k (set ks) \<and> (\<forall>j \<in> insert k (set ks). fold min ks k \<le> j)" for ks and k :: u64
    unfolding Min.set_eq_fold [symmetric] using Min_in [of "insert k (set ks)"] by (auto intro: Min_le)
  assume "min_anchor bm = Some k"
  then obtain h ks where "bt_keys (inner bm) = h # ks" "k = fold min ks h"
    by (auto simp: min_anchor_def split: list.splits)
  with f [of ks h] show ?thesis by auto
qed

lemma map_should_reanchor_total: "bt_ok (inner bm) \<Longrightarrow> \<exists>b. map_should_reanchor bm n = Some b"
proof -
  assume ok: "bt_ok (inner bm)"
  show ?thesis
  proof (cases "min_anchor bm")
    case (Some k)
    then have "k \<in> fst ` set (inner bm)" using min_anchor_in [OF Some] by (simp add: bt_keys_def)
    then obtain bs where "bt_get (inner bm) k = Some bs" using bt.get_None_iff [OF ok, of k] by auto
    then show ?thesis by (auto simp: map_should_reanchor_def Some split: option.splits)
  qed (auto simp: map_should_reanchor_def)
qed

lemma increasing_sort:
  assumes "distinct (map pb_number bs)"
  shows "increasing (sort_key pb_number bs)"
proof -
  have "sorted_wrt (<) (map pb_number (sort_key pb_number bs))"
    using assms by (simp add: strict_sorted_iff distinct_map)
  then show ?thesis by (simp add: increasing_def sorted_wrt_map)
qed

text \<open>What re-anchoring returns when it is due.\<close>

lemma reanchor_due:
  assumes "map_should_reanchor bm n = Some True" "min_anchor bm = Some oldest"
    and "distinct (map pb_number (all_blocks (into_vec bm)))"
  shows "\<exists>new cursor. reanchor est bm n safe s =
      Some \<lparr>inner = [(number safe, new @ [cursor])], reorg_reasons = [Reanchor oldest (number safe)]\<rparr> \<and>
    all_blocks (new @ [cursor]) = sort_key pb_number (all_blocks (into_vec bm)) \<and>
    (\<forall>b \<in> set (new @ [cursor]). reanchored safe s b)"
proof -
  let ?bs = "sort_key pb_number (all_blocks (into_vec bm))" and ?c = "batch_new safe s"
  have re: "reanchored safe s ?c" "increasing (blocks ?c @ ?bs)"
    using increasing_sort [OF assms(3)] by (simp_all add: reanchored_def batch_new_def batch_ok_def)
  from reanchor_loop_spec [OF this, of est 0 "[]"] obtain new c' where
    l: "reanchor_loop est 0 safe [] ?c ?bs = (single (number safe) new, c')"
      "all_blocks new @ blocks c' = ?bs" "\<forall>b \<in> set (c' # new). reanchored safe s b"
    by (auto simp: single_def batch_new_def)
  have "reanchor est bm n safe s =
      Some \<lparr>inner = entry_push (number safe) c' (single (number safe) new),
            reorg_reasons = [Reanchor oldest (number safe)]\<rparr>"
    using assms(1,2) l(1) by (simp add: reanchor_def all_blocks_def into_vec_def bt_empty_def)
  moreover have "entry_push (number safe) c' (single (number safe) new) = [(number safe, new @ [c'])]"
    by (simp only: entry_push_single) (simp add: single_def)
  ultimately show ?thesis
    using l by (intro exI [of _ new] exI [of _ c']) auto
qed

lemma reanchor_not_due:
  assumes "map_should_reanchor bm n = Some False"
  shows "reanchor est bm n safe s = Some (map_of_inner (inner bm))"
  using assms by (simp add: reanchor_def split: option.split)

lemma should_reanchor_min: "map_should_reanchor bm n = Some True \<Longrightarrow> \<exists>oldest. min_anchor bm = Some oldest"
  by (auto simp: map_should_reanchor_def split: option.splits)


subsection \<open>Re-timestamping\<close>

text \<open>The loop on the batches in the order of \<open>into_vec\<close>: a prefix is kept, the rest is reset.\<close>

lemma retimestamp_batches_spec:
  "retimestamp_batches lo hi should bs =
     (should \<or> (\<exists>b \<in> set bs. out_of_range lo hi b),
      (if should then map (\<lambda>b. set_all_blocks_timestamp b hi) bs
       else takeWhile (\<lambda>b. \<not> out_of_range lo hi b) bs @
            map (\<lambda>b. set_all_blocks_timestamp b hi) (dropWhile (\<lambda>b. \<not> out_of_range lo hi b) bs)))"
  by (induction bs arbitrary: should) (auto simp: Let_def)

lemma retimestamp_batches_append:
  "retimestamp_batches lo hi should (bs @ cs) =
     (case retimestamp_batches lo hi should bs of (should', bs') \<Rightarrow>
        case retimestamp_batches lo hi should' cs of (should'', cs') \<Rightarrow> (should'', bs' @ cs'))"
  by (induction bs arbitrary: should) (auto simp: Let_def split: prod.splits)

lemma retimestamp_values_concat:
  "retimestamp_values lo hi should m = (should', m') \<Longrightarrow>
   retimestamp_batches lo hi should (concat (bt_values m)) = (should', concat (bt_values m')) \<and>
   bt_keys m' = bt_keys m"
  by (induction lo hi should m arbitrary: should' m' rule: retimestamp_values.induct)
     (auto simp: Let_def retimestamp_batches_append bt_keys_def split: prod.splits)

lemma retimestamp_into_vec:
  "into_vec (retimestamp bm lo hi) = snd (retimestamp_batches lo hi False (into_vec bm)) \<and>
   reorg_reasons (retimestamp bm lo hi) =
     (if \<exists>b \<in> set (into_vec bm). out_of_range lo hi b
      then reorg_reasons bm @ [Retimestamp lo hi] else reorg_reasons bm) \<and>
   bt_keys (inner (retimestamp bm lo hi)) = bt_keys (inner bm)"
proof -
  obtain sh m' where r: "retimestamp_values lo hi False (inner bm) = (sh, m')" by (metis surj_pair)
  from retimestamp_values_concat [OF this] show ?thesis
    by (simp add: retimestamp_def r into_vec_def retimestamp_batches_spec)
qed

definition in_range :: "u64 \<Rightarrow> u64 \<Rightarrow> preconfirmed_block \<Rightarrow> bool" where
  "in_range lo hi b = (lo \<le> pb_timestamp b \<and> pb_timestamp b \<le> hi)"

lemma not_out_of_range: "\<not> out_of_range lo hi b \<longleftrightarrow> (\<forall>x \<in> set (blocks b). in_range lo hi x)"
  by (auto simp: out_of_range_def in_range_def not_less)

definition ascending :: "preconfirmed_block list \<Rightarrow> bool" where
  "ascending bs = sorted (map pb_timestamp bs)"

lemma set_ts_sel [simp]:
  "blocks (set_all_blocks_timestamp b t) = map (\<lambda>x. x\<lparr>pb_timestamp := t\<rparr>) (blocks b)"
  "coinbase (set_all_blocks_timestamp b t) = coinbase b"
  "anchor_block (set_all_blocks_timestamp b t) = anchor_block b"
  "settings (set_all_blocks_timestamp b t) = settings b"
  by (simp_all add: set_all_blocks_timestamp_def)

lemma all_blocks_set_ts:
  "all_blocks (map (\<lambda>b. set_all_blocks_timestamp b t) bs) = map (\<lambda>x. x\<lparr>pb_timestamp := t\<rparr>) (all_blocks bs)"
  by (induction bs) simp_all

lemma all_blocks_take_drop: "all_blocks (takeWhile P bs) @ all_blocks (dropWhile P bs) = all_blocks bs"
  by (metis all_blocks_simps(3) takeWhile_dropWhile_id)

lemma kept_in_range:
  "x \<in> set (all_blocks (takeWhile (\<lambda>b. \<not> out_of_range lo hi b) bs)) \<Longrightarrow> in_range lo hi x"
  by (auto simp: all_blocks_def not_out_of_range dest: set_takeWhileD)

lemma retimestamp_in_range:
  assumes "lo \<le> hi" "x \<in> set (all_blocks (into_vec (retimestamp bm lo hi)))"
  shows "in_range lo hi x"
  using assms kept_in_range [of x lo hi "into_vec bm"]
  by (auto simp: retimestamp_into_vec retimestamp_batches_spec all_blocks_set_ts in_range_def)

lemma retimestamp_ascending:
  assumes "lo \<le> hi" "ascending (all_blocks (into_vec bm))"
  shows "ascending (all_blocks (into_vec (retimestamp bm lo hi)))"
proof -
  let ?P = "\<lambda>b. \<not> out_of_range lo hi b"
  have "ascending (all_blocks (takeWhile ?P (into_vec bm)))"
    using assms(2) all_blocks_take_drop [of ?P "into_vec bm"]
    by (metis ascending_def map_append sorted_append)
  moreover have "pb_timestamp x \<le> hi" if "x \<in> set (all_blocks (takeWhile ?P (into_vec bm)))" for x
    using kept_in_range [OF that] by (simp add: in_range_def)
  ultimately show ?thesis
    by (auto simp: retimestamp_into_vec retimestamp_batches_spec all_blocks_set_ts ascending_def
        sorted_append comp_def map_replicate_const)
qed

lemma retimestamp_keeps:
  "map (\<lambda>x. x\<lparr>pb_timestamp := 0\<rparr>) (all_blocks (into_vec (retimestamp bm lo hi))) =
   map (\<lambda>x. x\<lparr>pb_timestamp := 0\<rparr>) (all_blocks (into_vec bm))"
  using arg_cong [OF all_blocks_take_drop [of "\<lambda>b. \<not> out_of_range lo hi b" "into_vec bm"],
      of "map (\<lambda>x. x\<lparr>pb_timestamp := 0\<rparr>)"]
  by (simp add: retimestamp_into_vec retimestamp_batches_spec all_blocks_set_ts comp_def)


subsection \<open>Nothing is lost on the way\<close>

text \<open>Walking over the groups in the order of their keys is a stable sort by the key.\<close>

lemma filter_groups:
  "distinct ks \<Longrightarrow>
   filter (\<lambda>x. j = f x) (concat (map (\<lambda>k. filter (\<lambda>x. f x = k) xs) ks)) =
     (if j \<in> set ks then filter (\<lambda>x. j = f x) xs else [])"
proof (induction ks)
  case (Cons k ks)
  have "filter (\<lambda>x. j = f x) (filter (\<lambda>x. f x = k) xs) = (if j = k then filter (\<lambda>x. j = f x) xs else [])"
    by (auto simp: filter_empty_conv intro!: filter_cong)
  with Cons show ?case by auto
qed simp

lemma mset_groups:
  "distinct ks \<Longrightarrow>
   mset (concat (map (\<lambda>k. filter (\<lambda>x. f x = k) xs) ks)) = mset (filter (\<lambda>x. f x \<in> set ks) xs)"
proof (induction ks)
  case (Cons k ks)
  have "mset (filter (\<lambda>x. f x = k) xs) + mset (filter (\<lambda>x. f x \<in> set ks) xs) =
      mset (filter (\<lambda>x. f x = k \<or> f x \<in> set ks) xs)"
    using Cons.prems by (induction xs) auto
  with Cons show ?case by simp
qed simp

lemma sorted_groups: "sorted ks \<Longrightarrow> sorted (map f (concat (map (\<lambda>k. filter (\<lambda>x. f x = k) xs) ks)))"
proof (induction ks)
  case (Cons k ks)
  have "sorted (map f (filter (\<lambda>x. f x = k) xs))" by (induction xs) auto
  with Cons show ?case by (auto simp: sorted_append)
qed simp

lemma groups_sort_key:
  assumes "sorted_wrt (<) ks" "\<forall>x \<in> set xs. f x \<in> set ks"
  shows "concat (map (\<lambda>k. filter (\<lambda>x. f x = k) xs) ks) = sort_key f xs"
proof -
  have ks: "sorted ks" "distinct ks" using assms(1) by (simp_all add: strict_sorted_iff)
  have "mset (concat (map (\<lambda>k. filter (\<lambda>x. f x = k) xs) ks)) = mset xs"
    using mset_groups [OF ks(2), of f xs] assms(2) by (simp add: filter_id_conv [THEN iffD2])
  moreover have "filter (\<lambda>x. f y = f x) (concat (map (\<lambda>k. filter (\<lambda>x. f x = k) xs) ks)) = filter (\<lambda>x. f y = f x) xs"
    if "y \<in> set (concat (map (\<lambda>k. filter (\<lambda>x. f x = k) xs) ks))" for y
    using that by (auto simp: filter_groups [OF ks(2)])
  ultimately show ?thesis
    using sorted_groups [OF ks(1), of f xs] by (intro properties_for_sort_key [symmetric])
qed

text \<open>The map hands out the blocks by anchor, those of one anchor in their original order.\<close>

lemma into_vec_by_anchor:
  assumes "map_holds s (inner bm) ps"
  shows "all_blocks (into_vec bm) = into_preconfirmed (sort_key anchored_anchor_id ps)"
proof -
  let ?m = "inner bm"
  have ok: "bt_ok ?m" using assms by (simp add: map_holds_def)
  have e: "all_blocks (snd e) = blocks_at (fst e) ps" if "e \<in> set ?m" for e
    using bt.entry_key_value [OF ok that] assms by (simp add: map_holds_def)
  have "all_blocks (concat (map snd m)) = concat (map (\<lambda>k. blocks_at k ps) (map fst m))"
    if "\<forall>e \<in> set m. all_blocks (snd e) = blocks_at (fst e) ps" for m
    using that by (induction m) auto
  then have "all_blocks (into_vec bm) = concat (map (\<lambda>k. blocks_at k ps) (bt_keys ?m))"
    using e by (simp add: into_vec_def bt_values_def bt_keys_def)
  also have "\<dots> = into_preconfirmed (concat (map (\<lambda>k. filter (\<lambda>p. anchored_anchor_id p = k) ps) (bt_keys ?m)))"
    by (simp add: blocks_at_def into_preconfirmed_def map_concat comp_def)
  also have "\<dots> = into_preconfirmed (sort_key anchored_anchor_id ps)"
  proof (rule arg_cong [OF groups_sort_key])
    show "sorted_wrt (<) (bt_keys ?m)" using ok by (simp add: bt_ok_def)
    show "\<forall>p \<in> set ps. anchored_anchor_id p \<in> set (bt_keys ?m)"
    proof
      fix p assume p: "p \<in> set ps"
      have "blocks_at (anchored_anchor_id p) ps \<noteq> []" using p by (auto simp: blocks_at_def filter_empty_conv)
      then have "bt_get ?m (anchored_anchor_id p) \<noteq> None" using assms by (auto simp: map_holds_def)
      then show "anchored_anchor_id p \<in> set (bt_keys ?m)"
        using bt.get_None_iff [OF ok, of "anchored_anchor_id p"] by (auto simp: bt_keys_def)
    qed
  qed
  finally show ?thesis .
qed

lemma mset_into_preconfirmed_sorted:
  "mset (into_preconfirmed (sort_key f ps)) = mset (into_preconfirmed ps)"
  by (simp add: into_preconfirmed_def)

lemma mset_into_vec:
  "map_holds s (inner bm) ps \<Longrightarrow> mset (all_blocks (into_vec bm)) = mset (into_preconfirmed ps)"
  by (simp only: into_vec_by_anchor mset_into_preconfirmed_sorted)

lemma sorted_by_number:
  assumes "mset L = mset bs" "increasing bs"
  shows "sort_key pb_number L = bs"
proof (rule sort_key_inj_key_eq [OF assms(1)])
  have strict: "sorted_wrt (<) (map pb_number bs)"
    using assms(2) by (simp add: increasing_def sorted_wrt_map)
  then show "sorted (map pb_number bs)" by (simp add: strict_sorted_iff)
  have "distinct (map pb_number bs)" using strict by (simp add: strict_sorted_iff)
  then show "inj_on pb_number (set L)" using mset_eq_setD [OF assms(1)] by (simp add: distinct_map)
qed

lemma distinct_increasing: "increasing bs \<Longrightarrow> distinct (map pb_number bs)"
  by (induction bs) auto

lemma unique_entry:
  assumes "map_holds s (inner bm) ps" "(k, bs) \<in> set (inner (ensure_unique_coinbase bm))"
  shows "bs \<noteq> [] \<and> (\<forall>b \<in> set bs. anchor_id b = k)"
proof -
  from assms(2) obtain cs where cs: "(k, cs) \<in> set (inner bm)" "bs = concat (map split_by_coinbase cs)"
    by (auto simp: ensure_unique_coinbase_def map_of_inner_def bt_map_values_def)
  with assms(1) have good: "good_batches s k cs"
    using bt.entries_get [of "inner bm" k cs] by (auto simp: map_holds_def)
  then have "all_blocks bs \<noteq> []" unfolding cs(2) all_blocks_split by (cases cs) (auto simp: good_batches_def)
  moreover have "anchor_id b = k" if "b \<in> set bs" for b
    using that good cs(2) split_by_coinbase_spec by (fastforce simp: good_batches_def same_anchor_def anchor_id_def)
  ultimately show ?thesis by auto
qed

lemma not_due_anchors:
  assumes "map_holds s (inner bm) ps" "map_should_reanchor (ensure_unique_coinbase bm) n = Some False"
    and "b \<in> set (into_vec (ensure_unique_coinbase bm))"
  shows "n \<le> anchor_id b"
proof -
  let ?u = "ensure_unique_coinbase bm"
  have ok: "bt_ok (inner ?u)" using assms(1) by (intro ok_unique) (simp add: map_holds_def)
  obtain k bs where k: "(k, bs) \<in> set (inner ?u)" "b \<in> set bs"
    using assms(3) by (auto simp: into_vec_def bt_values_def)
  then have "min_anchor ?u \<noteq> None" by (auto simp: min_anchor_def bt_keys_def split: list.splits)
  then obtain oldest where o: "min_anchor ?u = Some oldest" by blast
  from min_anchor_in [OF this] obtain cs where cs: "(oldest, cs) \<in> set (inner ?u)" "oldest \<le> k"
    using k(1) by (force simp: bt_keys_def)
  then have "bt_get (inner ?u) oldest = Some cs" using bt.entries_get [OF ok] by simp
  then have "n \<le> oldest"
    using assms(2) o unique_entry [OF assms(1) cs(1)]
    by (cases cs) (auto simp: map_should_reanchor_def anchor_id_def)
  with cs(2) unique_entry [OF assms(1) k(1)] k(2) show ?thesis by simp
qed

text \<open>The pipeline up to the timestamps: it never panics, keeps every block and leaves no old anchor.\<close>

lemma pipeline_total:
  assumes "increasing (into_preconfirmed bs)"
  obtains bm bm' where "batch_map_new est bs s = Some bm"
    "reanchor est' (ensure_unique_coinbase bm) n safe s' = Some bm'"
    "mset (all_blocks (into_vec bm')) = mset (into_preconfirmed bs)"
    "map_should_reanchor (ensure_unique_coinbase bm) n = Some True \<and>
       (\<exists>oldest. reorg_reasons bm' = [Reanchor oldest (number safe)]) \<and> (\<forall>b \<in> set (into_vec bm'). anchor_block b = safe) \<or>
     map_should_reanchor (ensure_unique_coinbase bm) n = Some False \<and>
       reorg_reasons bm' = [] \<and> (\<forall>b \<in> set (into_vec bm'). n \<le> anchor_id b)"
    "all_blocks (into_vec bm') = into_preconfirmed
       (if map_should_reanchor (ensure_unique_coinbase bm) n = Some True then bs else sort_key anchored_anchor_id bs)"
proof -
  obtain bm where bm: "batch_map_new est bs s = Some bm" "map_holds s (inner bm) bs"
    using batch_map_new_holds [OF assms] by blast
  let ?u = "ensure_unique_coinbase bm"
  have order: "all_blocks (into_vec ?u) = into_preconfirmed (sort_key anchored_anchor_id bs)"
    using into_vec_by_anchor [OF bm(2)] by (simp add: into_vec_unique all_blocks_split)
  then have all: "mset (all_blocks (into_vec ?u)) = mset (into_preconfirmed bs)"
    by (simp only: mset_into_preconfirmed_sorted)
  then have "mset (map pb_number (all_blocks (into_vec ?u))) = mset (map pb_number (into_preconfirmed bs))"
    by simp
  then have dist: "distinct (map pb_number (all_blocks (into_vec ?u)))"
    using distinct_increasing [OF assms] by (metis mset_eq_imp_distinct_iff)
  have ok: "bt_ok (inner ?u)" using bm(2) by (intro ok_unique) (simp add: map_holds_def)
  obtain due where d: "map_should_reanchor ?u n = Some due" using map_should_reanchor_total [OF ok] by blast
  show ?thesis
  proof (cases due)
    case False
    with d have f: "map_should_reanchor ?u n = Some False" by simp
    have same: "into_vec (map_of_inner (inner ?u)) = into_vec ?u" "reorg_reasons (map_of_inner (inner ?u)) = []"
      by (simp_all add: into_vec_def map_of_inner_def)
    show ?thesis
      using that [OF bm(1) reanchor_not_due [OF f]] all f not_due_anchors [OF bm(2) f] same order by simp
  next
    case True
    with d have t: "map_should_reanchor ?u n = Some True" by simp
    then obtain oldest where "min_anchor ?u = Some oldest" using should_reanchor_min by blast
    from reanchor_due [OF t this dist, of est' safe s'] obtain new cursor where
      n1: "reanchor est' ?u n safe s' =
        Some \<lparr>inner = [(number safe, new @ [cursor])], reorg_reasons = [Reanchor oldest (number safe)]\<rparr>"
      and n2: "all_blocks (new @ [cursor]) = sort_key pb_number (all_blocks (into_vec ?u))"
      and n3: "\<forall>b \<in> set (new @ [cursor]). reanchored safe s' b" by blast
    have "all_blocks (new @ [cursor]) = into_preconfirmed bs"
      unfolding n2 by (rule sorted_by_number [OF all assms])
    then show ?thesis
      using that [OF bm(1) n1] t n3 by (simp add: into_vec_def reanchored_def)
  qed
qed

lemma retimestamp_anchors:
  "map anchor_block (into_vec (retimestamp bm lo hi)) = map anchor_block (into_vec bm)"
proof -
  have "map anchor_block (takeWhile P bs) @ map anchor_block (dropWhile P bs) = map anchor_block bs" for P bs
    by (simp flip: map_append)
  then show ?thesis
    by (simp add: retimestamp_into_vec retimestamp_batches_spec set_all_blocks_timestamp_def comp_def)
qed

section \<open>Properties\<close>

text \<open>
  Building the map from contiguous blocks never panics and loses nothing: for every anchor, the
  batches stored under it are non-empty, have that anchor, respect the capacity, and their blocks,
  in order, are exactly the blocks with that anchor in their original order. No reorg reason is set.
\<close>

theorem batch_map_new_correct:
  assumes "increasing (into_preconfirmed bs)" and "0 < capacity s"
  shows "\<exists>bm. batch_map_new est bs s = Some bm \<and> reorg_reasons bm = [] \<and> bt_ok (inner bm) \<and>
    (\<forall>k. case bt_get (inner bm) k of
           None \<Rightarrow> blocks_at k bs = []
         | Some batches \<Rightarrow> batches \<noteq> [] \<and> all_blocks batches = blocks_at k bs \<and>
             (\<forall>b \<in> set batches. blocks b \<noteq> [] \<and> anchor_id b = k \<and> batch_ok b))"
proof -
  obtain bm where "batch_map_new est bs s = Some bm" "map_holds s (inner bm) bs" "reorg_reasons bm = []"
    using batch_map_new_holds [OF assms(1)] by blast
  with assms(2) show ?thesis
    by (intro exI [of _ bm]) (auto simp: map_holds_def good_batches_def split: option.split)
qed

definition example_anchored :: "u64 \<Rightarrow> u64 \<Rightarrow> u64 \<Rightarrow> address \<Rightarrow> anchored_block" where
  "example_anchored n ts anchor cb =
     \<lparr>ab_block = \<lparr>block_header = (example_header n ts)\<lparr>beneficiary := cb\<rparr>, transactions = Full_Txs [(9, [1, 2])]\<rparr>,
      ab_anchor = example_header anchor 100\<rparr>"

definition example_chain :: "anchored_block list" where
  "example_chain = [example_anchored 3 1000 1 7, example_anchored 4 1002 1 8, example_anchored 5 1004 2 8]"

lemma example_chain_increasing: "increasing (into_preconfirmed example_chain)"
  by (simp add: example_chain_def example_anchored_def into_preconfirmed_def into_preconfirmed_block_def
      example_header_def)

theorem batch_map_new_correct_witness:
  "\<exists>bm. batch_map_new (\<lambda>_. id) example_chain example_settings = Some bm \<and>
     bt_get (inner bm) 9 = None"
proof -
  have "0 < capacity example_settings" by (simp add: example_settings_def)
  from batch_map_new_correct [OF example_chain_increasing this] obtain bm where
    bm: "batch_map_new (\<lambda>_. id) example_chain example_settings = Some bm"
      "\<And>k. case bt_get (inner bm) k of None \<Rightarrow> blocks_at k example_chain = []
         | Some batches \<Rightarrow> batches \<noteq> [] \<and> all_blocks batches = blocks_at k example_chain \<and>
             (\<forall>b \<in> set batches. blocks b \<noteq> [] \<and> anchor_id b = k \<and> batch_ok b)" by blast
  have "blocks_at 9 example_chain = []"
    by (simp add: blocks_at_def example_chain_def example_anchored_def anchored_anchor_id_def example_header_def)
  then have "bt_get (inner bm) 9 = None" using bm(2) [of 9] by (auto simp: all_blocks_def split: option.splits)
  with bm(1) show ?thesis by blast
qed

text \<open>
  Splitting by coinbase keeps every block in its place, in the order in which the batches are
  proposed; afterwards every batch has blocks of one coinbase only, its own.
\<close>

theorem ensure_unique_coinbase_correct:
  "all_blocks (into_vec (ensure_unique_coinbase bm)) = all_blocks (into_vec bm) \<and>
   (\<forall>b \<in> set (into_vec (ensure_unique_coinbase bm)).
      blocks b \<noteq> [] \<and> (\<forall>x \<in> set (blocks b). pb_coinbase x = coinbase b) \<and>
      (\<exists>b' \<in> set (into_vec bm). anchor_block b = anchor_block b' \<and> set (blocks b) \<subseteq> set (blocks b')))"
proof -
  have sub: "set (blocks b) \<subseteq> set (blocks b')" if "b \<in> set (split_by_coinbase b')" for b b'
  proof -
    have "set (blocks b) \<subseteq> set (concat (map blocks (split_by_coinbase b')))" using that by auto
    then show ?thesis using split_by_coinbase_spec [of b'] by simp
  qed
  have "blocks b \<noteq> [] \<and> (\<forall>x \<in> set (blocks b). pb_coinbase x = coinbase b) \<and>
      (\<exists>b' \<in> set (into_vec bm). anchor_block b = anchor_block b' \<and> set (blocks b) \<subseteq> set (blocks b'))"
    if in_split: "b \<in> set (into_vec (ensure_unique_coinbase bm))" for b
  proof -
    obtain b' where b': "b' \<in> set (into_vec bm)" "b \<in> set (split_by_coinbase b')"
      using in_split by (auto simp: into_vec_unique)
    then have "uniform_coinbase b" "blocks b \<noteq> []" "same_anchor b b'" using split_by_coinbase_spec [of b'] by auto
    with b' sub [OF b'(2)] show ?thesis by (auto simp: uniform_coinbase_def same_anchor_def)
  qed
  then show ?thesis by (simp add: into_vec_unique all_blocks_split)
qed

theorem ensure_unique_coinbase_correct_witness:
  "list_all (\<lambda>b. blocks b \<noteq> []) (into_vec (ensure_unique_coinbase (map_of_inner [(1, [example_batch])])))"
  using ensure_unique_coinbase_correct [of "map_of_inner [(1, [example_batch])]"] by (simp add: list_all_iff)


definition example_map :: batch_map where
  "example_map = map_of_inner [(1, [example_batch])]"


text \<open>
  C28. Re-timestamping puts every timestamp into the range that the inbox accepts, keeps the blocks
  and their order, keeps timestamps from decreasing, and records its reason exactly when some
  timestamp was out of range, in which case it starts with the first such batch.
\<close>

theorem retimestamp_correct:
  fixes bm :: batch_map
  assumes "lo \<le> hi"
  defines "before \<equiv> all_blocks (into_vec bm)" and "after \<equiv> all_blocks (into_vec (retimestamp bm lo hi))"
  shows "(\<forall>x \<in> set after. lo \<le> pb_timestamp x \<and> pb_timestamp x \<le> hi) \<and>
    map (\<lambda>x. x\<lparr>pb_timestamp := 0\<rparr>) after = map (\<lambda>x. x\<lparr>pb_timestamp := 0\<rparr>) before \<and>
    (ascending before \<longrightarrow> ascending after) \<and>
    (if \<forall>x \<in> set before. lo \<le> pb_timestamp x \<and> pb_timestamp x \<le> hi
     then after = before \<and> reorg_reasons (retimestamp bm lo hi) = reorg_reasons bm
     else reorg_reasons (retimestamp bm lo hi) = reorg_reasons bm @ [Retimestamp lo hi])"
proof -
  have none: "(\<forall>b \<in> set (into_vec bm). \<not> out_of_range lo hi b) \<longleftrightarrow>
      (\<forall>x \<in> set before. lo \<le> pb_timestamp x \<and> pb_timestamp x \<le> hi)"
    by (simp add: before_def all_blocks_def not_out_of_range in_range_def)
  have keep: "after = before" if "\<forall>b \<in> set (into_vec bm). \<not> out_of_range lo hi b"
    using that by (simp add: after_def before_def retimestamp_into_vec retimestamp_batches_spec
        takeWhile_eq_all_conv [THEN iffD2] dropWhile_eq_Nil_conv [THEN iffD2])
  show ?thesis
    using retimestamp_in_range [OF assms(1), of _ bm] retimestamp_keeps [of bm lo hi]
      retimestamp_ascending [OF assms(1), of bm] retimestamp_into_vec [of bm lo hi] keep
    unfolding none [symmetric] by (auto simp: before_def after_def in_range_def)
qed

theorem retimestamp_correct_witness:
  "reorg_reasons (retimestamp example_map 1002 1010) = [Retimestamp 1002 1010]"
proof -
  have "(1002 :: u64) \<le> 1010" by simp
  from retimestamp_correct [OF this, of example_map] show ?thesis
    by (auto simp: example_map_def map_of_inner_def into_vec_def example_defs)
qed

text \<open>
  C4. The whole pipeline (\<open>batch_map_new\<close>, unique coinbases, re-anchoring, re-timestamping) loses,
  duplicates and changes no block, and keeps their order: whatever the compression estimates, the
  anchors and the coinbases are, the blocks of the proposed batches, one batch after the other, are the
  L2 blocks that were put in, with their numbers, coinbases and transactions; only the timestamps may
  differ. When the batches are re-anchored the order is the original one, otherwise the blocks come by
  anchor, those of one anchor in their original order; this is the original order whenever the anchors
  of the blocks do not go down.
\<close>

theorem pipeline_conserves_blocks:
  assumes "increasing (into_preconfirmed bs)"
  shows "\<exists>bm bm'. batch_map_new est bs s = Some bm \<and>
    reanchor est' (ensure_unique_coinbase bm) n safe s' = Some bm' \<and>
    map (\<lambda>x. x\<lparr>pb_timestamp := 0\<rparr>) (all_blocks (into_vec (retimestamp bm' lo hi))) =
    map (\<lambda>x. x\<lparr>pb_timestamp := 0\<rparr>)
      (if map_should_reanchor (ensure_unique_coinbase bm) n = Some True \<or> sorted (map anchored_anchor_id bs)
       then into_preconfirmed bs else into_preconfirmed (sort_key anchored_anchor_id bs))"
proof -
  obtain bm bm' where p: "batch_map_new est bs s = Some bm"
    "reanchor est' (ensure_unique_coinbase bm) n safe s' = Some bm'"
    "all_blocks (into_vec bm') = into_preconfirmed
       (if map_should_reanchor (ensure_unique_coinbase bm) n = Some True then bs else sort_key anchored_anchor_id bs)"
    using pipeline_total [OF assms, of est s est' n safe s'] by blast
  have "sorted (map anchored_anchor_id bs) \<Longrightarrow> sort_key anchored_anchor_id bs = bs"
    by (simp add: sort_key_id_if_sorted)
  with p(3) show ?thesis
    by (intro exI [of _ bm] exI [of _ bm'] conjI p(1,2)) (auto simp: retimestamp_keeps)
qed

theorem pipeline_conserves_blocks_witness:
  "\<exists>bm bm'. batch_map_new (\<lambda>_. id) example_chain example_settings = Some bm \<and>
    reanchor (\<lambda>_. id) (ensure_unique_coinbase bm) 2 (example_header 5 1010) example_settings = Some bm' \<and>
    map pb_number (all_blocks (into_vec (retimestamp bm' 1000 2000))) = [3, 4, 5]"
proof -
  have sorted: "sorted (map anchored_anchor_id example_chain)"
    by (simp add: example_chain_def example_anchored_def anchored_anchor_id_def example_header_def)
  from pipeline_conserves_blocks [OF example_chain_increasing, of "\<lambda>_. id" example_settings "\<lambda>_. id" 2
      "example_header 5 1010" example_settings 1000 2000]
  obtain bm bm' where b: "batch_map_new (\<lambda>_. id) example_chain example_settings = Some bm"
    "reanchor (\<lambda>_. id) (ensure_unique_coinbase bm) 2 (example_header 5 1010) example_settings = Some bm'"
    "map (\<lambda>x. x\<lparr>pb_timestamp := 0\<rparr>) (all_blocks (into_vec (retimestamp bm' 1000 2000))) =
     map (\<lambda>x. x\<lparr>pb_timestamp := 0\<rparr>) (into_preconfirmed example_chain)"
    unfolding if_P [OF disjI2 [OF sorted]] by blast
  from arg_cong [OF b(3), of "map pb_number"] have
    "map pb_number (all_blocks (into_vec (retimestamp bm' 1000 2000))) = map pb_number (into_preconfirmed example_chain)"
    by (simp add: comp_def)
  also have "\<dots> = [3, 4, 5]"
    by (simp add: into_preconfirmed_def into_preconfirmed_block_def example_chain_def example_anchored_def example_header_def)
  finally show ?thesis by (intro exI [of _ bm] exI [of _ bm'] conjI b(1,2))
qed

text \<open>
  Re-anchoring can produce an empty batch: when the first block alone is already over the target
  size, the first batch that is proposed has no blocks.
\<close>

theorem reanchor_proposes_empty_batch:
  assumes "map_should_reanchor bm n = Some True"
    and "distinct (map pb_number (all_blocks (into_vec bm)))"
    and "sort_key pb_number (all_blocks (into_vec bm)) = x # rest"
    and "target_compressed_size s < est 0 (block_raw_size x)"
  shows "\<exists>bm'. reanchor est bm n safe s = Some bm' \<and> blocks (hd (into_vec bm')) = []"
proof -
  let ?c = "batch_new safe s" and ?c1 = "(batch_new safe s)\<lparr>blocks := [x]\<rparr>"
  obtain oldest where o: "min_anchor bm = Some oldest" using should_reanchor_min assms(1) by blast
  have "add_block_and_reset_if_full (est 0) ?c x safe =
      (?c1, Full (TargetSize (est 0 (block_raw_size x)) (target_compressed_size s)) ?c)"
    using assms(4)
    by (simp add: add_block_and_reset_if_full_def retain_blocks_before_def doesnt_fit_def batch_new_def
        take_and_reset_def Let_def raw_size_def block_raw_size_def)
  moreover have "entry_push (anchor_id ?c) ?c bt_empty = single (number safe) [?c]"
    by (simp add: entry_push_def bt_empty_def single_def anchor_id_def batch_new_def)
  ultimately have step: "reanchor_loop est 0 safe bt_empty ?c (x # rest) =
      reanchor_loop est (Suc 0) safe (single (number safe) [?c]) ?c1 rest" by simp
  have "increasing (x # rest)" using increasing_sort [OF assms(2)] assms(3) by simp
  then have "reanchored safe s ?c1" "increasing (blocks ?c1 @ rest)"
    by (simp_all add: reanchored_def batch_new_def batch_ok_def)
  from reanchor_loop_spec [OF this, of est "Suc 0" "[?c]"] obtain new c' where
    l: "reanchor_loop est 0 safe bt_empty ?c (x # rest) = (single (number safe) ([?c] @ new), c')"
    unfolding step by blast
  have "reanchor est bm n safe s =
      Some \<lparr>inner = entry_push (number safe) c' (single (number safe) ([?c] @ new)),
            reorg_reasons = [Reanchor oldest (number safe)]\<rparr>"
    using assms(1,3) o l by (simp add: reanchor_def all_blocks_def into_vec_def)
  then show ?thesis
    by (simp only: entry_push_single) (simp add: single_def into_vec_def batch_new_def)
qed

theorem reanchor_proposes_empty_batch_witness:
  "\<exists>bm'. reanchor (\<lambda>_ n. 20 * n) example_map 2 (example_header 5 1010) example_settings = Some bm' \<and>
     blocks (hd (into_vec bm')) = []"
proof -
  have h: "map_should_reanchor example_map 2 = Some True"
    "distinct (map pb_number (all_blocks (into_vec example_map)))"
    "sort_key pb_number (all_blocks (into_vec example_map)) = example_block 2 1001 7 10 # [example_block 3 1002 7 10]"
    "target_compressed_size example_settings < 20 * block_raw_size (example_block 2 1001 7 10)"
    by (simp_all add: map_should_reanchor_def min_anchor_def example_map_def map_of_inner_def bt_keys_def
        into_vec_def example_defs block_raw_size_def eip2718_encoded_length_def)
  show ?thesis using reanchor_proposes_empty_batch [OF h(1-3), where est = "\<lambda>_ n. 20 * n"] h(4) by simp
qed


end
