(* ===== verification/Blob.thy ===== *)
theory Blob
  imports Mk1_Prelude
begin

text \<open>
  The blob codec of \<open>crates/primitives/src/blob.rs\<close>. \<open>create_blob_from_data\<close> packs up to
  \<open>MAX_BLOB_DATA_SIZE\<close> bytes into the 4096 field elements of a blob, \<open>decode_blob_data\<close> unpacks
  them. Both loops are modelled with the offsets and buffers of the code; every index, slice and
  \<open>assert!\<close> of the code is a \<open>Panic\<close> of the model when it fails. \<open>BYTES_PER_BLOB\<close> is the EIP-4844
  constant the code imports (4096 field elements of 32 bytes).

  The lemmas describe one round of each loop as a function on one 127-byte chunk and one 128-byte
  block (\<open>enc_block\<close>, \<open>dec_block\<close>), the loops as a concatenation of rounds, and derive the round
  trips and the absence of panics from that.
\<close>

unbundle bit_operations_syntax

section \<open>Constants and errors\<close>

definition ENCODING_VERSION :: u8 where "ENCODING_VERSION = 0"
definition VERSION_OFFSET :: usize where "VERSION_OFFSET = 1"
definition ROUNDS :: usize where "ROUNDS = 1024"
definition MAX_BLOB_DATA_SIZE :: usize where "MAX_BLOB_DATA_SIZE = (4 * 31 + 3) * 1024 - 4"
definition BYTES_PER_BLOB :: usize where "BYTES_PER_BLOB = 4096 * 32"

text \<open>The two messages that \<open>ExtraneousData\<close> carries, with the number they print.\<close>

datatype extraneous = Field_Element usize | Input_Position usize

datatype 'kzg blob_error =
    InputTooLarge usize
  | DataDidNotFit usize usize
  | KZGError 'kzg
  | ThreadPanicked
  | InvalidVersion u8 u8
  | InvalidLength usize usize
  | ExtraneousData extraneous
  | InvalidFieldElement

section \<open>Encoding\<close>

definition read_one_byte :: "bytes \<Rightarrow> usize \<Rightarrow> u8 \<times> usize" where
  "read_one_byte data read_offset =
     (if read_offset < length data then (data ! read_offset, read_offset + 1) else (0, read_offset))"

definition read_31_bytes :: "bytes \<Rightarrow> usize \<Rightarrow> bytes \<times> usize" where
  "read_31_bytes data read_offset =
     (let buf = replicate 31 0
      in if read_offset < length data then
           (let n = min 31 (length data - read_offset)
            in (take n (drop read_offset data) @ drop n buf, read_offset + n))
         else (buf, read_offset))"

definition write_one_byte :: "bytes \<Rightarrow> usize \<Rightarrow> u8 \<Rightarrow> ('kzg blob_error, bytes \<times> usize) outcome" where
  "write_one_byte out write_offset v =
     (if write_offset mod 32 \<noteq> 0 then Panic
      else if v AND 0xC0 \<noteq> 0 then Panic
      else and_then (or_panic (index_set out write_offset v)) (\<lambda>out'. Ok (out', write_offset + 1)))"

definition write_31_bytes :: "bytes \<Rightarrow> usize \<Rightarrow> bytes \<Rightarrow> ('kzg blob_error, bytes \<times> usize) outcome" where
  "write_31_bytes out write_offset buf =
     (if write_offset mod 32 \<noteq> 1 then Panic
      else and_then (or_panic (copy_from_slice out write_offset (write_offset + 31) buf))
             (\<lambda>out'. Ok (out', write_offset + 31)))"

text \<open>Most writes of the encoder are one byte followed by 31 bytes.\<close>

definition write_field_element ::
  "bytes \<Rightarrow> usize \<Rightarrow> u8 \<Rightarrow> bytes \<Rightarrow> ('kzg blob_error, bytes \<times> usize) outcome" where
  "write_field_element out write_offset v buf =
     and_then (write_one_byte out write_offset v) (\<lambda>(out1, w1). write_31_bytes out1 w1 buf)"

text \<open>
  The first field element of a round. In round 0 it starts with the version and the three low
  bytes of the length, in every other round it is filled from the data.
\<close>

definition first_buffer :: "bytes \<Rightarrow> usize \<Rightarrow> usize \<Rightarrow> bytes \<times> usize" where
  "first_buffer data round read_offset =
     (if round = 0 then
        (let ilen = (of_nat (length data) :: u32);
             header = [ENCODING_VERSION,
                       ucast (drop_bit 16 ilen AND 0xFF),
                       ucast (drop_bit 8 ilen AND 0xFF),
                       ucast (ilen AND 0xFF)];
             available = 31 - 4;
             n = min available (length data - read_offset)
         in (header @ take n (drop read_offset data) @ replicate (available - n) 0, read_offset + n))
      else read_31_bytes data read_offset)"

record encoder =
  enc_out :: bytes
  enc_read :: usize
  enc_write :: usize

definition encode_round :: "bytes \<Rightarrow> usize \<Rightarrow> encoder \<Rightarrow> ('kzg blob_error, encoder) outcome" where
  "encode_round data round e =
     (let (buf0, r0) = first_buffer data round (enc_read e);
          (x, r1) = read_one_byte data r0;
          six_bits_of_x = x AND 0x3F
      in and_then (write_field_element (enc_out e) (enc_write e) six_bits_of_x buf0) (\<lambda>(o1, w1).
      let (buf1, r2) = read_31_bytes data r1;
          (y, r3) = read_one_byte data r2;
          b = (y AND 0x0F) OR drop_bit 2 (x AND 0xC0)
      in and_then (write_field_element o1 w1 b buf1) (\<lambda>(o2, w2).
      let (buf2, r4) = read_31_bytes data r3;
          (z, r5) = read_one_byte data r4;
          six_bits_of_z = z AND 0x3F
      in and_then (write_field_element o2 w2 six_bits_of_z buf2) (\<lambda>(o3, w3).
      let (buf3, r6) = read_31_bytes data r5;
          d = drop_bit 2 (z AND 0xC0) OR drop_bit 4 (y AND 0xF0)
      in and_then (write_field_element o3 w3 d buf3) (\<lambda>(o4, w4).
      Ok \<lparr>enc_out = o4, enc_read = r6, enc_write = w4\<rparr>)))))"

fun encode_rounds :: "bytes \<Rightarrow> usize list \<Rightarrow> encoder \<Rightarrow> ('kzg blob_error, encoder) outcome" where
  "encode_rounds data [] e = Ok e"
| "encode_rounds data (round # rounds) e =
     (if length data \<le> enc_read e then Ok e
      else and_then (encode_round data round e) (encode_rounds data rounds))"

definition create_blob_from_data :: "bytes \<Rightarrow> ('kzg blob_error, bytes) outcome" where
  "create_blob_from_data data =
     (if MAX_BLOB_DATA_SIZE < length data then Err (InputTooLarge (length data))
      else and_then
        (encode_rounds data [0..<ROUNDS]
           \<lparr>enc_out = replicate BYTES_PER_BLOB 0, enc_read = 0, enc_write = 0\<rparr>)
        (\<lambda>e. if enc_read e < length data then Err (DataDidNotFit (enc_read e) (length data))
             else Ok (enc_out e)))"

section \<open>Decoding\<close>

record decoder =
  dec_output_pos :: usize
  dec_input_pos :: usize
  dec_output :: bytes

definition decode_field_element :: "bytes \<Rightarrow> decoder \<Rightarrow> ('kzg blob_error, u8 \<times> decoder) outcome" where
  "decode_field_element blob d =
     and_then (or_panic (index_get blob (dec_input_pos d))) (\<lambda>result.
       if result AND 0xC0 \<noteq> 0 then Err InvalidFieldElement
       else and_then (or_panic (slice_get blob (dec_input_pos d + 1) (dec_input_pos d + 32))) (\<lambda>src.
            and_then (or_panic (copy_from_slice (dec_output d) (dec_output_pos d) (dec_output_pos d + 31) src))
              (\<lambda>output'. Ok (result, \<lparr>dec_output_pos = dec_output_pos d + 32,
                                      dec_input_pos = dec_input_pos d + 32,
                                      dec_output = output'\<rparr>))))"

text \<open>The loop over (the rest of) \<open>encoded_byte\<close>: the bytes read, in order.\<close>

fun decode_field_elements :: "bytes \<Rightarrow> nat \<Rightarrow> decoder \<Rightarrow> ('kzg blob_error, bytes \<times> decoder) outcome" where
  "decode_field_elements blob 0 d = Ok ([], d)"
| "decode_field_elements blob (Suc n) d =
     and_then (decode_field_element blob d) (\<lambda>(byte, d').
       and_then (decode_field_elements blob n d') (\<lambda>(rest, d''). Ok (byte # rest, d'')))"

definition reassemble_bytes :: "bytes \<Rightarrow> decoder \<Rightarrow> ('kzg blob_error, decoder) outcome" where
  "reassemble_bytes encoded_byte d =
     (let output_pos = dec_output_pos d - 1;
          x = (encoded_byte ! 0 AND 0x3F) OR push_bit 2 (encoded_byte ! 1 AND 0x30);
          y = (encoded_byte ! 1 AND 0x0F) OR push_bit 4 (encoded_byte ! 3 AND 0x0F);
          z = (encoded_byte ! 2 AND 0x3F) OR push_bit 2 (encoded_byte ! 3 AND 0x30)
      in if dec_output_pos d < 1 \<or> output_pos < 32 * 3 then Panic
         else and_then (or_panic (index_set (dec_output d) (output_pos - 32) z)) (\<lambda>o1.
              and_then (or_panic (index_set o1 (output_pos - 32 * 2) y)) (\<lambda>o2.
              and_then (or_panic (index_set o2 (output_pos - 32 * 3) x)) (\<lambda>o3.
              Ok (d\<lparr>dec_output_pos := output_pos, dec_output := o3\<rparr>)))))"

definition decode_round :: "bytes \<Rightarrow> decoder \<Rightarrow> ('kzg blob_error, decoder) outcome" where
  "decode_round blob d =
     and_then (decode_field_elements blob 4 d) (\<lambda>(encoded_byte, d'). reassemble_bytes encoded_byte d')"

fun decode_rounds :: "bytes \<Rightarrow> usize \<Rightarrow> nat \<Rightarrow> decoder \<Rightarrow> ('kzg blob_error, decoder) outcome" where
  "decode_rounds blob output_len 0 d = Ok d"
| "decode_rounds blob output_len (Suc n) d =
     (if output_len \<le> dec_output_pos d then Ok d
      else and_then (decode_round blob d) (decode_rounds blob output_len n))"

text \<open>What the decoder does after its last round: nothing but zeros may be left over.\<close>

definition decode_finish :: "bytes \<Rightarrow> usize \<Rightarrow> decoder \<Rightarrow> ('kzg blob_error, bytes) outcome" where
  "decode_finish blob output_len d =
     (if \<exists>output_byte \<in> set (drop output_len (take MAX_BLOB_DATA_SIZE (dec_output d))). output_byte \<noteq> 0
      then Err (ExtraneousData (Field_Element (dec_output_pos d div 32)))
      else if \<exists>byte \<in> set (drop (dec_input_pos d) blob). byte \<noteq> 0
      then Err (ExtraneousData (Input_Position (dec_input_pos d)))
      else Ok (take output_len (dec_output d)))"

definition decoded_length :: "u8 \<Rightarrow> u8 \<Rightarrow> u8 \<Rightarrow> usize" where
  "decoded_length l2 l1 l0 =
     unat (push_bit 16 (ucast l2) OR push_bit 8 (ucast l1) OR (ucast l0 :: u32))"

definition decode_blob_data :: "bytes \<Rightarrow> ('kzg blob_error, bytes) outcome" where
  "decode_blob_data blob =
     and_then (or_panic (index_get blob VERSION_OFFSET)) (\<lambda>version.
     if version \<noteq> ENCODING_VERSION then Err (InvalidVersion ENCODING_VERSION version)
     else
     and_then (or_panic (index_get blob 2)) (\<lambda>l2.
     and_then (or_panic (index_get blob 3)) (\<lambda>l1.
     and_then (or_panic (index_get blob 4)) (\<lambda>l0.
     let output_len = decoded_length l2 l1 l0
     in if MAX_BLOB_DATA_SIZE < output_len then Err (InvalidLength output_len MAX_BLOB_DATA_SIZE)
     else
     and_then (or_panic (slice_get blob 5 32)) (\<lambda>first.
     and_then (or_panic (copy_from_slice (replicate MAX_BLOB_DATA_SIZE 0) 0 27 first)) (\<lambda>output.
     and_then (or_panic (index_get blob 0)) (\<lambda>byte0.
     and_then (decode_field_elements blob 3
                 \<lparr>dec_output_pos = 28, dec_input_pos = 32, dec_output = output\<rparr>) (\<lambda>(bytes, d1).
     and_then (reassemble_bytes (byte0 # bytes) d1) (\<lambda>d2.
     and_then (decode_rounds blob output_len (ROUNDS - 1) d2) (decode_finish blob output_len))))))))))"

section \<open>Several blobs\<close>

text \<open>\<open>chunks\<close> of the standard library, for a chunk size that is not zero.\<close>

function chunks :: "nat \<Rightarrow> 'a list \<Rightarrow> 'a list list" where
  "chunks n xs = (if n = 0 \<or> xs = [] then [] else take n xs # chunks n (drop n xs))"
  by auto
termination by (relation "measure (\<lambda>(n, xs). length xs)") auto

declare chunks.simps [simp del]

fun create_blobs :: "bytes list \<Rightarrow> ('kzg blob_error, bytes list) outcome" where
  "create_blobs [] = Ok []"
| "create_blobs (c # cs) =
     and_then (create_blob_from_data c) (\<lambda>b. and_then (create_blobs cs) (\<lambda>bs. Ok (b # bs)))"

text \<open>\<open>try_from_blobs_bytes\<close>, the KZG library, is the parameter \<open>kzg\<close>.\<close>

definition create_blob_sidecar_from_data_blocking ::
  "(bytes list \<Rightarrow> 'kzg + 'sidecar) \<Rightarrow> bytes \<Rightarrow> ('kzg blob_error, 'sidecar) outcome" where
  "create_blob_sidecar_from_data_blocking kzg data =
     and_then (create_blobs (chunks MAX_BLOB_DATA_SIZE data)) (\<lambda>blobs.
       case kzg blobs of Inl e \<Rightarrow> Err (KZGError e) | Inr s \<Rightarrow> Ok s)"

text \<open>Joining a task of the blob thread pool: a panic of the task is an error of the caller.\<close>

fun join_blocking :: "('kzg blob_error, 'a) outcome \<Rightarrow> ('kzg blob_error, 'a) outcome" where
  "join_blocking Panic = Err ThreadPanicked"
| "join_blocking (Err e) = Err e"
| "join_blocking (Ok x) = Ok x"

definition create_blob_sidecar_from_data_async ::
  "(bytes list \<Rightarrow> 'kzg + 'sidecar) \<Rightarrow> bytes \<Rightarrow> ('kzg blob_error, 'sidecar) outcome" where
  "create_blob_sidecar_from_data_async kzg data =
     join_blocking (create_blob_sidecar_from_data_blocking kzg data)"

text \<open>The hash \<open>keccak256\<close> is a parameter that returns the 32 bytes of the digest.\<close>

definition VERSIONED_HASH_VERSION_KZG :: u8 where "VERSIONED_HASH_VERSION_KZG = 1"

definition calculate_blob_versioned_hash :: "('commitment \<Rightarrow> bytes) \<Rightarrow> 'commitment \<Rightarrow> bytes" where
  "calculate_blob_versioned_hash keccak256 kzg_commitment =
     VERSIONED_HASH_VERSION_KZG # drop 1 (keccak256 kzg_commitment)"

record 'commitment blob_sidecar =
  sidecar_blob :: bytes
  sidecar_kzg_commitment :: 'commitment

fun decode_blobs ::
  "('commitment \<Rightarrow> bytes) \<Rightarrow> 'commitment blob_sidecar list \<Rightarrow> bytes list \<Rightarrow> bytes \<Rightarrow>
   ('kzg blob_error, bytes) outcome" where
  "decode_blobs keccak256 [] blob_hashes decoded_blobs_data = Ok decoded_blobs_data"
| "decode_blobs keccak256 (blob # blobs) blob_hashes decoded_blobs_data =
     (if calculate_blob_versioned_hash keccak256 (sidecar_kzg_commitment blob) \<in> set blob_hashes
      then and_then (decode_blob_data (sidecar_blob blob)) (\<lambda>decoded.
             decode_blobs keccak256 blobs blob_hashes (decoded_blobs_data @ decoded))
      else decode_blobs keccak256 blobs blob_hashes decoded_blobs_data)"

definition decode_blobs_into_bytes_async ::
  "('commitment \<Rightarrow> bytes) \<Rightarrow> 'commitment blob_sidecar list \<Rightarrow> bytes list \<Rightarrow>
   ('kzg blob_error, bytes) outcome" where
  "decode_blobs_into_bytes_async keccak256 blobs blob_hashes =
     join_blocking (decode_blobs keccak256 blobs blob_hashes [])"

section \<open>Bits of a byte\<close>

lemma u8_eqI:
  fixes a b :: u8
  assumes "bit a 0 = bit b 0" "bit a 1 = bit b 1" "bit a 2 = bit b 2" "bit a 3 = bit b 3"
    "bit a 4 = bit b 4" "bit a 5 = bit b 5" "bit a 6 = bit b 6" "bit a 7 = bit b 7"
  shows "a = b"
proof (rule bit_word_eqI)
  fix n assume "n < LENGTH(8)"
  then have "n = 0 \<or> n = 1 \<or> n = 2 \<or> n = 3 \<or> n = 4 \<or> n = 5 \<or> n = 6 \<or> n = 7" by auto
  then show "bit a n = bit b n" using assms by auto
qed

lemma six_bits_canonical [simp]: "(x AND 0x3F) AND 0xC0 = (0::u8)"
  by (simp add: and.assoc)

lemma low_mix_canonical [simp]: "((y AND 0x0F) OR drop_bit 2 (x AND 0xC0)) AND 0xC0 = (0::u8)"
  by (rule u8_eqI) (simp_all add: bit_simps)

lemma high_mix_canonical [simp]:
  "(drop_bit 2 (z AND 0xC0) OR drop_bit 4 (y AND 0xF0)) AND 0xC0 = (0::u8)"
  by (rule u8_eqI) (simp_all add: bit_simps)

section \<open>One round of the encoder\<close>

text \<open>The data followed by zeros, and the same with the four header bytes in front.\<close>

definition stream_byte :: "bytes \<Rightarrow> nat \<Rightarrow> u8" where
  "stream_byte data i = (if i < length data then data ! i else 0)"

definition header_bytes :: "nat \<Rightarrow> bytes" where
  "header_bytes n = (let ilen = (of_nat n :: u32) in
     [ENCODING_VERSION, ucast (drop_bit 16 ilen AND 0xFF), ucast (drop_bit 8 ilen AND 0xFF),
      ucast (ilen AND 0xFF)])"

definition framed_byte :: "bytes \<Rightarrow> nat \<Rightarrow> u8" where
  "framed_byte data i =
     (if i < 4 then header_bytes (length data) ! i else stream_byte data (i - 4))"

text \<open>The 128 bytes that one round writes for its 127 bytes of input.\<close>

definition enc_block :: "bytes \<Rightarrow> bytes" where
  "enc_block c =
     (c ! 31 AND 0x3F) # take 31 c @
     ((c ! 63 AND 0x0F) OR drop_bit 2 (c ! 31 AND 0xC0)) # take 31 (drop 32 c) @
     (c ! 95 AND 0x3F) # take 31 (drop 64 c) @
     (drop_bit 2 (c ! 95 AND 0xC0) OR drop_bit 4 (c ! 63 AND 0xF0)) # take 31 (drop 96 c)"

definition frame_chunk :: "bytes \<Rightarrow> nat \<Rightarrow> bytes" where
  "frame_chunk data r = map (framed_byte data) [127 * r..<127 * r + 127]"

lemma length_frame_chunk [simp]: "length (frame_chunk data r) = 127"
  by (simp add: frame_chunk_def)

lemma length_enc_block [simp]: "length c = 127 \<Longrightarrow> length (enc_block c) = 128"
  by (simp add: enc_block_def)

lemma read_one_byte_stream:
  "read_one_byte data (min (length data) v) = (stream_byte data v, min (length data) (Suc v))"
  by (auto simp: read_one_byte_def stream_byte_def)

lemma take_stream:
  "take n (drop v data) @ replicate (n - (length data - v)) 0 = map (stream_byte data) [v..<v + n]"
  by (rule nth_equalityI) (auto simp: nth_append stream_byte_def)

lemma read_31_bytes_stream:
  "read_31_bytes data (min (length data) v) =
     (map (stream_byte data) [v..<v + 31], min (length data) (v + 31))"
proof (cases "v < length data")
  case True
  let ?n = "min 31 (length data - v)"
  have "take ?n (drop v data) @ drop ?n (replicate 31 0) =
      take 31 (drop v data) @ replicate (31 - (length data - v)) 0"
    by (cases "31 \<le> length data - v") (simp_all add: min_def)
  then have "take ?n (drop v data) @ drop ?n (replicate 31 0) = map (stream_byte data) [v..<v + 31]"
    by (simp only: take_stream)
  with True show ?thesis
    unfolding read_31_bytes_def by (simp add: Let_def min_absorb2)
next
  case False
  then have "replicate 31 0 = map (stream_byte data) [v..<v + 31]"
    using take_stream [of 31 v data] by simp
  with False show ?thesis
    unfolding read_31_bytes_def by (simp add: Let_def min_absorb1)
qed

lemma framed_byte_shift [simp]: "framed_byte data (i + 4) = stream_byte data i"
  by (simp add: framed_byte_def)

lemma map_framed_shift: "map (framed_byte data) [a + 4..<b + 4] = map (stream_byte data) [a..<b]"
  by (rule nth_equalityI) (simp_all add: framed_byte_def)

lemma map_framed_shift31:
  "4 \<le> m \<Longrightarrow> map (framed_byte data) [m..<m + n] = map (stream_byte data) [m - 4..<m - 4 + n]"
  using map_framed_shift [of data "m - 4" "m - 4 + n"] by simp

lemma map_framed_header: "map (framed_byte data) [0..<4] = header_bytes (length data)"
  by (simp add: framed_byte_def header_bytes_def Let_def upt_rec)

lemma first_buffer_0:
  "first_buffer data 0 0 = (map (framed_byte data) [0..<31], min (length data) 27)"
proof -
  have "[0..<31] = [0..<4] @ [4..<4 + 27 :: nat]"
    using upt_split [of 0 4 31] by simp
  then have "map (framed_byte data) [0..<31] = header_bytes (length data) @ map (framed_byte data) [4..<4 + 27]"
    by (simp only: map_append map_framed_header)
  also have "map (framed_byte data) [4..<4 + 27] = map (stream_byte data) [0..<0 + 27]"
    using map_framed_shift31 [of 4 data 27] by simp
  also have "\<dots> = take 27 data @ replicate (27 - length data) 0"
    using take_stream [of 27 0 data] by simp
  finally show ?thesis
    by (simp add: first_buffer_def header_bytes_def Let_def min_def)
qed

lemma first_buffer_Suc:
  assumes "0 < r"
  shows "first_buffer data r (min (length data) (127 * r - 4)) =
     (map (framed_byte data) [127 * r..<127 * r + 31], min (length data) (127 * r + 27))"
proof -
  have m: "4 \<le> 127 * r" using assms by simp
  have "first_buffer data r (min (length data) (127 * r - 4)) =
      (map (stream_byte data) [127 * r - 4..<127 * r - 4 + 31], min (length data) (127 * r - 4 + 31))"
    using assms unfolding first_buffer_def read_31_bytes_stream by simp
  moreover have "127 * r - 4 + 31 = 127 * r + 27" using m by simp
  ultimately show ?thesis
    using map_framed_shift31 [OF m, of data 31] by (simp add: add.commute)
qed

lemma first_buffer_frame:
  "first_buffer data r (min (length data) (127 * r - 4)) =
     (map (framed_byte data) [127 * r..<127 * r + 31], min (length data) (127 * r + 27))"
  using first_buffer_0 [of data] first_buffer_Suc [of r data] by (cases "r = 0") simp_all


lemma write_field_element_append:
  assumes "length W mod 32 = 0" and "v AND 0xC0 = 0" and "length buf = 31" and "length X = 32"
  shows "write_field_element (W @ X @ R) (length W) v buf =
           (Ok (W @ (v # buf) @ R, length W + 32) :: ('kzg blob_error, _) outcome)"
proof -
  obtain x X' where X: "X = x # X'" "length X' = 31"
    using assms(4) by (cases X) auto
  have "write_one_byte (W @ X @ R) (length W) v =
      (Ok (W @ v # X' @ R, length W + 1) :: ('kzg blob_error, _) outcome)"
    using assms(1,2) by (simp add: write_one_byte_def X)
  moreover have "write_31_bytes (W @ v # X' @ R) (length W + 1) buf =
      (Ok (W @ v # buf @ R, length W + 32) :: ('kzg blob_error, _) outcome)"
  proof -
    have "(length W + 1) mod 32 = 1" using assms(1) by presburger
    moreover have "copy_from_slice ((W @ [v]) @ X' @ R) (length W + 1) (length W + 1 + 31) buf =
        Some ((W @ [v]) @ buf @ R)"
      using assms(3) X(2) by (intro copy_from_slice_append) simp_all
    ultimately show ?thesis by (simp add: write_31_bytes_def)
  qed
  ultimately show ?thesis by (simp add: write_field_element_def del: and_then_eq_Ok)
qed

lemma write_field_elementI:
  assumes "length W = w" and "w mod 32 = 0" and "v AND 0xC0 = 0" and "length buf = 31"
    and "length X = 32" and "out = W @ X @ R" and "out' = W @ (v # buf) @ R" and "w' = w + 32"
  shows "write_field_element out w v buf = (Ok (out', w') :: ('kzg blob_error, _) outcome)"
  using write_field_element_append [of W v buf X R] assms by simp

lemma nth_frame_chunk: "i < 127 \<Longrightarrow> frame_chunk data r ! i = framed_byte data (127 * r + i)"
  by (simp add: frame_chunk_def)

lemma take_drop_frame_chunk:
  "i + n \<le> 127 \<Longrightarrow>
   take n (drop i (frame_chunk data r)) = map (framed_byte data) [127 * r + i..<127 * r + i + n]"
  by (simp add: frame_chunk_def drop_map take_map take_upt)

lemma frame_stream:
  "4 \<le> 127 * r + i \<Longrightarrow> i < 127 \<Longrightarrow> frame_chunk data r ! i = stream_byte data (127 * r + i - 4)"
  by (simp add: nth_frame_chunk framed_byte_def)

lemma frame_stream_take:
  assumes "4 \<le> 127 * r + i" and "i + n \<le> 127"
  shows "take n (drop i (frame_chunk data r)) = map (stream_byte data) [127 * r + i - 4..<127 * r + i - 4 + n]"
  by (rule nth_equalityI) (use assms in \<open>simp_all add: nth_frame_chunk framed_byte_def add.assoc\<close>)

lemma encode_round_block:
  assumes "length W = 128 * r" and "length X = 128"
  shows "encode_round data r
           \<lparr>enc_out = W @ X @ R, enc_read = min (length data) (127 * r - 4), enc_write = 128 * r\<rparr> =
         (Ok \<lparr>enc_out = W @ enc_block (frame_chunk data r) @ R,
             enc_read = min (length data) (127 * r + 123), enc_write = 128 * r + 128\<rparr> ::
           ('kzg blob_error, encoder) outcome)"
proof -
  let ?c = "frame_chunk data r" and ?v = "127 * r + 27"
  define X0 X1 X2 X3 where d: "X0 = take 32 X" "X1 = take 32 (drop 32 X)" "X2 = take 32 (drop 64 X)" "X3 = drop 96 X"
  have X: "X = X0 @ X1 @ X2 @ X3"
    using append_take_drop_id [of 32 X] append_take_drop_id [of 32 "drop 32 X"]
      append_take_drop_id [of 32 "drop 64 X"] by (simp add: d)
  have l: "length X0 = 32" "length X1 = 32" "length X2 = 32" "length X3 = 32"
    using assms(2) by (simp_all add: d)
  have b0: "first_buffer data r (min (length data) (127 * r - 4)) = (take 31 ?c, min (length data) ?v)"
    using take_drop_frame_chunk [of 0 31 data r] by (simp add: first_buffer_frame)
  have x: "read_one_byte data (min (length data) ?v) = (?c ! 31, min (length data) (?v + 1))"
    by (simp add: read_one_byte_stream frame_stream add.commute)
  have b1: "read_31_bytes data (min (length data) (?v + 1)) = (take 31 (drop 32 ?c), min (length data) (?v + 32))"
    unfolding read_31_bytes_stream using frame_stream_take [of r 32 31 data] by (simp add: add.commute)
  have y: "read_one_byte data (min (length data) (?v + 32)) = (?c ! 63, min (length data) (?v + 33))"
    by (simp add: read_one_byte_stream frame_stream add.commute)
  have b2: "read_31_bytes data (min (length data) (?v + 33)) = (take 31 (drop 64 ?c), min (length data) (?v + 64))"
    unfolding read_31_bytes_stream using frame_stream_take [of r 64 31 data] by (simp add: add.commute)
  have z: "read_one_byte data (min (length data) (?v + 64)) = (?c ! 95, min (length data) (?v + 65))"
    by (simp add: read_one_byte_stream frame_stream add.commute)
  have b3: "read_31_bytes data (min (length data) (?v + 65)) = (take 31 (drop 96 ?c), min (length data) (?v + 96))"
    unfolding read_31_bytes_stream using frame_stream_take [of r 96 31 data] by (simp add: add.commute)
  let ?f0 = "(?c ! 31 AND 0x3F) # take 31 ?c"
  let ?f1 = "((?c ! 63 AND 0x0F) OR drop_bit 2 (?c ! 31 AND 0xC0)) # take 31 (drop 32 ?c)"
  let ?f2 = "(?c ! 95 AND 0x3F) # take 31 (drop 64 ?c)"
  let ?f3 = "(drop_bit 2 (?c ! 95 AND 0xC0) OR drop_bit 4 (?c ! 63 AND 0xF0)) # take 31 (drop 96 ?c)"
  have w0: "write_field_element (W @ X @ R) (128 * r) (?c ! 31 AND 0x3F) (take 31 ?c) =
      (Ok (W @ ?f0 @ X1 @ X2 @ X3 @ R, 128 * r + 32) :: ('kzg blob_error, _) outcome)"
    by (rule write_field_elementI [where W = "W" and X = X0 and R = "X1 @ X2 @ X3 @ R"])
       (use assms(1) l in \<open>simp_all only: six_bits_canonical X append.assoc length_append, simp_all?\<close>)
  have w1: "write_field_element (W @ ?f0 @ X1 @ X2 @ X3 @ R) (128 * r + 32)
        ((?c ! 63 AND 0x0F) OR drop_bit 2 (?c ! 31 AND 0xC0)) (take 31 (drop 32 ?c)) =
      (Ok (W @ ?f0 @ ?f1 @ X2 @ X3 @ R, 128 * r + 64) :: ('kzg blob_error, _) outcome)"
    by (rule write_field_elementI [where W = "W @ ?f0" and X = X1 and R = "X2 @ X3 @ R"])
       (use assms(1) l in \<open>simp_all only: low_mix_canonical append.assoc length_append, simp_all?\<close>)
  have w2: "write_field_element (W @ ?f0 @ ?f1 @ X2 @ X3 @ R) (128 * r + 64)
        (?c ! 95 AND 0x3F) (take 31 (drop 64 ?c)) =
      (Ok (W @ ?f0 @ ?f1 @ ?f2 @ X3 @ R, 128 * r + 96) :: ('kzg blob_error, _) outcome)"
    by (rule write_field_elementI [where W = "W @ ?f0 @ ?f1" and X = X2 and R = "X3 @ R"])
       (use assms(1) l in \<open>simp_all only: six_bits_canonical append.assoc length_append, simp_all?\<close>)
  have w3: "write_field_element (W @ ?f0 @ ?f1 @ ?f2 @ X3 @ R) (128 * r + 96)
        (drop_bit 2 (?c ! 95 AND 0xC0) OR drop_bit 4 (?c ! 63 AND 0xF0)) (take 31 (drop 96 ?c)) =
      (Ok (W @ ?f0 @ ?f1 @ ?f2 @ ?f3 @ R, 128 * r + 128) :: ('kzg blob_error, _) outcome)"
    by (rule write_field_elementI [where W = "W @ ?f0 @ ?f1 @ ?f2" and X = X3 and R = "R"])
       (use assms(1) l in \<open>simp_all only: high_mix_canonical append.assoc length_append, simp_all?\<close>)
  have e: "enc_block ?c = ?f0 @ ?f1 @ ?f2 @ ?f3" by (simp add: enc_block_def)
  show ?thesis
    unfolding encode_round_def Let_def encoder.select_convs b0 prod.case x w0 and_then.simps b1 y w1
      b2 z w2 b3 w3 e by simp
qed


section \<open>The encoder as a concatenation of blocks\<close>

definition encoded_blocks :: "bytes \<Rightarrow> nat list \<Rightarrow> bytes" where
  "encoded_blocks data rs = concat (map (\<lambda>r. enc_block (frame_chunk data r)) rs)"

lemma encoded_blocks_append [simp]:
  "encoded_blocks data (rs @ rs') = encoded_blocks data rs @ encoded_blocks data rs'"
  by (simp add: encoded_blocks_def)

lemma encoded_blocks_Cons:
  "encoded_blocks data (r # rs) = enc_block (frame_chunk data r) @ encoded_blocks data rs"
  by (simp add: encoded_blocks_def)

lemma encoded_blocks_Nil [simp]: "encoded_blocks data [] = []"
  by (simp add: encoded_blocks_def)

lemma length_encoded_blocks [simp]: "length (encoded_blocks data rs) = 128 * length rs"
  by (induction rs) (simp_all add: encoded_blocks_Cons)

lemma enc_block_zeros: "enc_block (replicate 127 0) = replicate 128 0"
proof (rule replicate_eqI)
  show "length (enc_block (replicate 127 0)) = 128" by simp
  show "y = 0" if "y \<in> set (enc_block (replicate 127 0))" for y
    using that by (auto simp: enc_block_def)
qed

lemma header_bytes_0: "header_bytes 0 = [0, 0, 0, 0]"
  by (simp add: header_bytes_def ENCODING_VERSION_def)

lemma frame_chunk_past_end:
  assumes "length data \<le> 127 * m - 4" and "m \<le> r"
  shows "frame_chunk data r = replicate 127 0"
proof (rule nth_equalityI)
  fix i assume "i < length (frame_chunk data r)"
  then have i: "i < 127" by simp
  show "frame_chunk data r ! i = replicate 127 0 ! i"
  proof (cases "m = 0")
    case True
    then have "data = []" using assms(1) by simp
    then show ?thesis
      using i by (auto simp: nth_frame_chunk framed_byte_def header_bytes_0 stream_byte_def nth_Cons split: nat.split)
  next
    case False
    then have "127 * m \<le> 127 * r" "4 \<le> 127 * m" using assms(2) by simp_all
    then have "length data \<le> 127 * r + i - 4" "\<not> 127 * r + i < 4" using assms(1) by linarith+
    then show ?thesis
      using i by (simp add: nth_frame_chunk framed_byte_def stream_byte_def)
  qed
qed simp

lemma encoded_blocks_past_end:
  assumes "length data \<le> 127 * m - 4"
  shows "encoded_blocks data [m..<n] = replicate (128 * (n - m)) 0"
proof (rule replicate_eqI)
  show "y = 0" if "y \<in> set (encoded_blocks data [m..<n])" for y
    using that frame_chunk_past_end [OF assms] enc_block_zeros by (auto simp: encoded_blocks_def split: if_splits)
qed simp

lemma encode_rounds_blocks:
  assumes "m \<le> n"
  shows "\<exists>w. encode_rounds data [m..<n]
           \<lparr>enc_out = encoded_blocks data [0..<m] @ replicate (128 * (n - m)) 0,
            enc_read = min (length data) (127 * m - 4), enc_write = 128 * m\<rparr> =
         (Ok \<lparr>enc_out = encoded_blocks data [0..<n], enc_read = min (length data) (127 * n - 4),
             enc_write = w\<rparr> :: ('kzg blob_error, _) outcome)"
  using assms
proof (induction "n - m" arbitrary: m)
  case 0
  then show ?case by simp
next
  case (Suc k)
  then have lt: "m < n" by simp
  let ?e = "\<lparr>enc_out = encoded_blocks data [0..<m] @ replicate (128 * (n - m)) 0,
            enc_read = min (length data) (127 * m - 4), enc_write = 128 * m\<rparr>"
  have split: "[0..<n] = [0..<m] @ [m..<n]" using Suc.prems upt_split [of 0 m n] by simp
  show ?case
  proof (cases "length data \<le> 127 * m - 4")
    case True
    then have "length data \<le> 127 * n - 4" using lt by linarith
    moreover have "encode_rounds data [m..<n] ?e = (Ok ?e :: ('kzg blob_error, _) outcome)"
      using True by (simp add: upt_conv_Cons [OF lt])
    ultimately show ?thesis
      using True by (simp add: split encoded_blocks_past_end min_absorb1)
  next
    case False
    have z: "replicate (128 * (n - m)) 0 = replicate 128 0 @ replicate (128 * (n - Suc m)) (0 :: u8)"
      using lt by (simp add: replicate_add [symmetric] Suc_diff_Suc [symmetric])
    have "encode_round data m ?e =
        (Ok \<lparr>enc_out = encoded_blocks data [0..<m] @ enc_block (frame_chunk data m) @
               replicate (128 * (n - Suc m)) 0,
             enc_read = min (length data) (127 * m + 123), enc_write = 128 * m + 128\<rparr> ::
          ('kzg blob_error, _) outcome)"
      unfolding z by (rule encode_round_block) simp_all
    also have "\<dots> = Ok \<lparr>enc_out = encoded_blocks data [0..<Suc m] @ replicate (128 * (n - Suc m)) 0,
             enc_read = min (length data) (127 * Suc m - 4), enc_write = 128 * Suc m\<rparr>"
      by (simp add: encoded_blocks_Cons algebra_simps)
    finally have round: "encode_round data m ?e =
        (Ok \<lparr>enc_out = encoded_blocks data [0..<Suc m] @ replicate (128 * (n - Suc m)) 0,
             enc_read = min (length data) (127 * Suc m - 4), enc_write = 128 * Suc m\<rparr> ::
          ('kzg blob_error, _) outcome)" .
    have k: "k = n - Suc m" "Suc m \<le> n" using Suc.hyps(2) lt by simp_all
    obtain w where "encode_rounds data [Suc m..<n]
        \<lparr>enc_out = encoded_blocks data [0..<Suc m] @ replicate (128 * (n - Suc m)) 0,
         enc_read = min (length data) (127 * Suc m - 4), enc_write = 128 * Suc m\<rparr> =
        (Ok \<lparr>enc_out = encoded_blocks data [0..<n], enc_read = min (length data) (127 * n - 4),
             enc_write = w\<rparr> :: ('kzg blob_error, _) outcome)"
      using Suc.hyps(1) [OF k] by blast
    moreover have "\<not> length data \<le> enc_read ?e" using False by simp
    ultimately show ?thesis
      unfolding upt_conv_Cons [OF lt] encode_rounds.simps round and_then.simps by auto
  qed
qed

lemma create_blob_blocks:
  assumes "length data \<le> MAX_BLOB_DATA_SIZE"
  shows "create_blob_from_data data = (Ok (encoded_blocks data [0..<1024]) :: ('kzg blob_error, _) outcome)"
proof -
  have len: "length data \<le> 127 * 1024 - 4" using assms by (simp add: MAX_BLOB_DATA_SIZE_def)
  obtain w where "encode_rounds data [0..<1024]
        \<lparr>enc_out = replicate 131072 0, enc_read = 0, enc_write = 0\<rparr> =
        (Ok \<lparr>enc_out = encoded_blocks data [0..<1024], enc_read = min (length data) (127 * 1024 - 4),
             enc_write = w\<rparr> :: ('kzg blob_error, _) outcome)"
    using encode_rounds_blocks [of 0 1024 data] by (auto simp del: upt.simps)
  with assms len show ?thesis
    by (simp add: create_blob_from_data_def ROUNDS_def BYTES_PER_BLOB_def del: upt.simps and_then_eq_Ok)
qed


section \<open>One round of the decoder\<close>

definition join6 :: "u8 \<Rightarrow> u8 \<Rightarrow> u8" where
  "join6 b0 b1 = (b0 AND 0x3F) OR push_bit 2 (b1 AND 0x30)"
definition join4 :: "u8 \<Rightarrow> u8 \<Rightarrow> u8" where
  "join4 b1 b3 = (b1 AND 0x0F) OR push_bit 4 (b3 AND 0x0F)"

definition canonical :: "u8 \<Rightarrow> bool" where
  "canonical b = (b AND 0xC0 = 0)"

text \<open>The 127 bytes that one round reads out of 128, and the first bytes of its field elements.\<close>

definition dec_block :: "bytes \<Rightarrow> bytes" where
  "dec_block b =
     take 31 (drop 1 b) @ join6 (b ! 0) (b ! 32) #
     take 31 (drop 33 b) @ join4 (b ! 32) (b ! 96) #
     take 31 (drop 65 b) @ join6 (b ! 64) (b ! 96) # take 31 (drop 97 b)"

definition tail_ok :: "bytes \<Rightarrow> bool" where
  "tail_ok b = (canonical (b ! 32) \<and> canonical (b ! 64) \<and> canonical (b ! 96))"

definition block_ok :: "bytes \<Rightarrow> bool" where
  "block_ok b = (canonical (b ! 0) \<and> tail_ok b)"

lemma chunk_cases:
  assumes "length c = 127"
  obtains A0 x A1 y A2 z A3 where "c = A0 @ x # A1 @ y # A2 @ z # A3"
    "length A0 = 31" "length A1 = 31" "length A2 = 31" "length A3 = 31"
proof
  have n: "drop 31 c = c ! 31 # drop 32 c" "drop 63 c = c ! 63 # drop 64 c" "drop 95 c = c ! 95 # drop 96 c"
    using Cons_nth_drop_Suc [of 31 c] Cons_nth_drop_Suc [of 63 c] Cons_nth_drop_Suc [of 95 c] assms by simp_all
  show "c = take 31 c @ c ! 31 # take 31 (drop 32 c) @ c ! 63 # take 31 (drop 64 c) @ c ! 95 # drop 96 c"
    using n append_take_drop_id [of 31 c] append_take_drop_id [of 31 "drop 32 c"]
      append_take_drop_id [of 31 "drop 64 c"] by simp
qed (use assms in simp_all)

lemma block_cases:
  assumes "length b = 128"
  obtains b0 A0 b1 A1 b2 A2 b3 A3 where "b = b0 # A0 @ b1 # A1 @ b2 # A2 @ b3 # A3"
    "length A0 = 31" "length A1 = 31" "length A2 = 31" "length A3 = 31"
proof -
  obtain b0 c where b: "b = b0 # c" "length c = 127" using assms by (cases b) auto
  from chunk_cases [OF b(2)] that b(1) show ?thesis by metis
qed

lemma enc_block_split:
  assumes "length A0 = 31" "length A1 = 31" "length A2 = 31" "length A3 = 31"
  shows "enc_block (A0 @ x # A1 @ y # A2 @ z # A3) =
    (x AND 0x3F) # A0 @ ((y AND 0x0F) OR drop_bit 2 (x AND 0xC0)) # A1 @
    (z AND 0x3F) # A2 @ (drop_bit 2 (z AND 0xC0) OR drop_bit 4 (y AND 0xF0)) # A3"
  using assms by (simp add: enc_block_def nth_append)

lemma block_split:
  fixes b0 b1 b2 b3 :: u8
  assumes "length A0 = 31" "length A1 = 31" "length A2 = 31" "length A3 = 31"
  defines "b \<equiv> b0 # A0 @ b1 # A1 @ b2 # A2 @ b3 # A3"
  shows "dec_block b = A0 @ join6 b0 b1 # A1 @ join4 b1 b3 # A2 @ join6 b2 b3 # A3"
    and "tail_ok b \<longleftrightarrow> canonical b1 \<and> canonical b2 \<and> canonical b3"
    and "block_ok b \<longleftrightarrow> canonical b0 \<and> canonical b1 \<and> canonical b2 \<and> canonical b3"
  using assms by (simp_all add: dec_block_def nth_append tail_ok_def block_ok_def nth_Cons')

lemma length_dec_block [simp]: "length b = 128 \<Longrightarrow> length (dec_block b) = 127"
  by (simp add: dec_block_def)

lemma join_split:
  "join6 (x AND 0x3F) ((y AND 0x0F) OR drop_bit 2 (x AND 0xC0)) = x"
  "join4 ((y AND 0x0F) OR drop_bit 2 (x AND 0xC0)) (drop_bit 2 (z AND 0xC0) OR drop_bit 4 (y AND 0xF0)) = y"
  "join6 (z AND 0x3F) (drop_bit 2 (z AND 0xC0) OR drop_bit 4 (y AND 0xF0)) = z"
  unfolding join6_def join4_def by (rule u8_eqI; simp add: bit_simps)+

lemma split_join:
  assumes "canonical b0" "canonical b1" "canonical b2" "canonical b3"
  shows "join6 b0 b1 AND 0x3F = b0"
    and "(join4 b1 b3 AND 0x0F) OR drop_bit 2 (join6 b0 b1 AND 0xC0) = b1"
    and "join6 b2 b3 AND 0x3F = b2"
    and "drop_bit 2 (join6 b2 b3 AND 0xC0) OR drop_bit 4 (join4 b1 b3 AND 0xF0) = b3"
proof -
  have c: "\<not> bit b 6 \<and> \<not> bit b 7" if "canonical b" for b
  proof -
    have "bit (b AND 0xC0) 6 = bit (0::u8) 6" "bit (b AND 0xC0) 7 = bit (0::u8) 7"
      using that unfolding canonical_def by simp_all
    then show ?thesis by (simp add: bit_simps)
  qed
  note cs = c [OF assms(1)] c [OF assms(2)] c [OF assms(3)] c [OF assms(4)]
  show "join6 b0 b1 AND 0x3F = b0" "join6 b2 b3 AND 0x3F = b2"
    "(join4 b1 b3 AND 0x0F) OR drop_bit 2 (join6 b0 b1 AND 0xC0) = b1"
    "drop_bit 2 (join6 b2 b3 AND 0xC0) OR drop_bit 4 (join4 b1 b3 AND 0xF0) = b3"
    unfolding join6_def join4_def using cs by (rule_tac [!] u8_eqI) (simp_all add: bit_simps)
qed

lemma dec_enc_block [simp]: "length c = 127 \<Longrightarrow> dec_block (enc_block c) = c"
  by (erule chunk_cases) (simp add: enc_block_split block_split join_split [simplified])

lemma block_ok_enc_block [simp]: "length c = 127 \<Longrightarrow> block_ok (enc_block c)"
  by (erule chunk_cases) (simp add: enc_block_split block_split canonical_def
      low_mix_canonical [simplified] high_mix_canonical [simplified])

lemma enc_dec_block:
  assumes "length b = 128" and "block_ok b"
  shows "enc_block (dec_block b) = b"
  using assms(1)
proof (rule block_cases)
  fix b0 A0 b1 A1 b2 A2 b3 A3
  assume b: "b = b0 # A0 @ b1 # A1 @ b2 # A2 @ b3 # A3"
    "length A0 = 31" "length A1 = 31" "length A2 = 31" "length A3 = 31"
  then have c: "canonical b0" "canonical b1" "canonical b2" "canonical b3"
    using assms(2) by (simp_all add: block_split)
  show "enc_block (dec_block b) = b"
    using b(2-) by (simp only: b(1) block_split enc_block_split split_join [OF c])
qed

section \<open>Rounds of the decoder as blocks\<close>

lemma decode_field_element_block:
  assumes "length W = p" "length I = i" "length F = 31" "length G = 31"
  shows "decode_field_element (I @ b # F @ C)
           \<lparr>dec_output_pos = p, dec_input_pos = i, dec_output = W @ G @ R\<rparr> =
         (if canonical b then Ok (b, \<lparr>dec_output_pos = p + 32, dec_input_pos = i + 32, dec_output = W @ F @ R\<rparr>)
          else Err InvalidFieldElement :: ('kzg blob_error, _) outcome)"
proof -
  have "index_get (I @ b # F @ C) i = Some b" using assms(2) by (auto simp: index_get_def)
  moreover have "slice_get (I @ b # F @ C) (i + 1) (i + 32) = Some F"
    using assms(2,3) by (simp add: slice_get_def)
  moreover have "copy_from_slice (W @ G @ R) p (p + 31) F = Some (W @ F @ R)"
    using assms by (intro copy_from_slice_append) simp_all
  ultimately show ?thesis
    by (simp add: decode_field_element_def canonical_def)
qed

lemma decode_field_elementI:
  assumes "blob = I @ b # F @ C" "d = \<lparr>dec_output_pos = p, dec_input_pos = i, dec_output = W @ G @ R\<rparr>"
    and "length W = p" "length I = i" "length F = 31" "length G = 31"
    and "d' = \<lparr>dec_output_pos = p + 32, dec_input_pos = i + 32, dec_output = W @ F @ R\<rparr>"
  shows "decode_field_element blob d =
    (if canonical b then Ok (b, d') else Err InvalidFieldElement :: ('kzg blob_error, _) outcome)"
  unfolding assms(1,2,7) by (rule decode_field_element_block) (fact assms)+

text \<open>The last three field elements of a round: the part that all rounds share.\<close>

lemma decode_three:
  assumes "length W = p" "length I = i"
    and "length A1 = 31" "length A2 = 31" "length A3 = 31"
    and "length G1 = 31" "length G2 = 31" "length G3 = 31"
  shows "decode_field_elements (I @ b1 # A1 @ b2 # A2 @ b3 # A3 @ C) 3
           \<lparr>dec_output_pos = p, dec_input_pos = i, dec_output = W @ G1 @ g1 # G2 @ g2 # G3 @ R\<rparr> =
         (if canonical b1 \<and> canonical b2 \<and> canonical b3
          then Ok ([b1, b2, b3], \<lparr>dec_output_pos = p + 96, dec_input_pos = i + 96,
                   dec_output = W @ A1 @ g1 # A2 @ g2 # A3 @ R\<rparr>)
          else Err InvalidFieldElement :: ('kzg blob_error, _) outcome)"
proof -
  let ?blob = "I @ b1 # A1 @ b2 # A2 @ b3 # A3 @ C"
  let ?d1 = "\<lparr>dec_output_pos = p + 32, dec_input_pos = i + 32, dec_output = W @ A1 @ g1 # G2 @ g2 # G3 @ R\<rparr>"
  let ?d2 = "\<lparr>dec_output_pos = p + 64, dec_input_pos = i + 64, dec_output = W @ A1 @ g1 # A2 @ g2 # G3 @ R\<rparr>"
  let ?d3 = "\<lparr>dec_output_pos = p + 96, dec_input_pos = i + 96, dec_output = W @ A1 @ g1 # A2 @ g2 # A3 @ R\<rparr>"
  have s1: "decode_field_element ?blob
      \<lparr>dec_output_pos = p, dec_input_pos = i, dec_output = W @ G1 @ g1 # G2 @ g2 # G3 @ R\<rparr> =
      (if canonical b1 then Ok (b1, ?d1) else Err InvalidFieldElement :: ('kzg blob_error, _) outcome)"
    by (rule decode_field_elementI [where W = W and p = p and I = I and i = i and F = A1 and G = G1
          and C = "b2 # A2 @ b3 # A3 @ C" and R = "g1 # G2 @ g2 # G3 @ R"])
       (use assms in simp_all)
  have s2: "decode_field_element ?blob ?d1 =
      (if canonical b2 then Ok (b2, ?d2) else Err InvalidFieldElement :: ('kzg blob_error, _) outcome)"
    by (rule decode_field_elementI [where W = "W @ A1 @ [g1]" and p = "p + 32" and I = "I @ b1 # A1"
          and i = "i + 32" and F = A2 and G = G2 and C = "b3 # A3 @ C" and R = "g2 # G3 @ R"])
       (use assms in simp_all)
  have s3: "decode_field_element ?blob ?d2 =
      (if canonical b3 then Ok (b3, ?d3) else Err InvalidFieldElement :: ('kzg blob_error, _) outcome)"
    by (rule decode_field_elementI [where W = "W @ A1 @ g1 # A2 @ [g2]" and p = "p + 64"
          and I = "I @ b1 # A1 @ b2 # A2" and i = "i + 64" and F = A3 and G = G3 and C = C and R = R])
       (use assms in simp_all)
  show ?thesis
    by (simp add: numeral_3_eq_3 s1 s2 s3)
qed

lemma reassemble_block:
  assumes "p = length P + 97" "length A1 = 31" "length A2 = 31" "length A3 = 31"
  shows "reassemble_bytes [b0, b1, b2, b3]
           \<lparr>dec_output_pos = p, dec_input_pos = i, dec_output = P @ g0 # A1 @ g1 # A2 @ g2 # A3 @ R\<rparr> =
         (Ok \<lparr>dec_output_pos = length P + 96, dec_input_pos = i,
             dec_output = P @ join6 b0 b1 # A1 @ join4 b1 b3 # A2 @ join6 b2 b3 # A3 @ R\<rparr> ::
          ('kzg blob_error, _) outcome)"
proof -
  let ?z = "join6 b2 b3" and ?y = "join4 b1 b3" and ?x = "join6 b0 b1"
  have z: "index_set (P @ g0 # A1 @ g1 # A2 @ g2 # A3 @ R) (length P + 64) ?z =
      Some (P @ g0 # A1 @ g1 # A2 @ ?z # A3 @ R)"
    using assms index_set_append [of "P @ g0 # A1 @ g1 # A2" "length P + 64" g2 "A3 @ R" ?z] by simp
  have y: "index_set (P @ g0 # A1 @ g1 # A2 @ ?z # A3 @ R) (length P + 32) ?y =
      Some (P @ g0 # A1 @ ?y # A2 @ ?z # A3 @ R)"
    using assms index_set_append [of "P @ g0 # A1" "length P + 32" g1 "A2 @ ?z # A3 @ R" ?y] by simp
  show ?thesis
    using z y assms(1)
    by (simp add: reassemble_bytes_def Let_def join6_def [simplified, symmetric]
        join4_def [simplified, symmetric] add.commute del: and_then_eq_Ok)
qed


lemma decode_round_block:
  assumes "length B = 128" "length X = 127" "length W = p" "length I = i"
  shows "decode_round (I @ B @ C) \<lparr>dec_output_pos = p, dec_input_pos = i, dec_output = W @ X @ R\<rparr> =
         (if block_ok B
          then Ok \<lparr>dec_output_pos = p + 127, dec_input_pos = i + 128, dec_output = W @ dec_block B @ R\<rparr>
          else Err InvalidFieldElement :: ('kzg blob_error, _) outcome)"
proof -
  obtain b0 A0 b1 A1 b2 A2 b3 A3 where B: "B = b0 # A0 @ b1 # A1 @ b2 # A2 @ b3 # A3"
    and A: "length A0 = 31" "length A1 = 31" "length A2 = 31" "length A3 = 31"
    using assms(1) by (rule block_cases)
  obtain G0 g0 G1 g1 G2 g2 G3 where X: "X = G0 @ g0 # G1 @ g1 # G2 @ g2 # G3"
    and G: "length G0 = 31" "length G1 = 31" "length G2 = 31" "length G3 = 31"
    using assms(2) by (rule chunk_cases)
  let ?d1 = "\<lparr>dec_output_pos = p + 32, dec_input_pos = i + 32,
    dec_output = W @ A0 @ g0 # G1 @ g1 # G2 @ g2 # G3 @ R\<rparr>"
  let ?d4 = "\<lparr>dec_output_pos = p + 128, dec_input_pos = i + 128,
    dec_output = W @ A0 @ g0 # A1 @ g1 # A2 @ g2 # A3 @ R\<rparr>"
  have s0: "decode_field_element (I @ B @ C)
        \<lparr>dec_output_pos = p, dec_input_pos = i, dec_output = W @ X @ R\<rparr> =
      (if canonical b0 then Ok (b0, ?d1) else Err InvalidFieldElement :: ('kzg blob_error, _) outcome)"
    by (rule decode_field_elementI [where W = W and p = p and I = I and i = i and F = A0 and G = G0
          and C = "b1 # A1 @ b2 # A2 @ b3 # A3 @ C" and R = "g0 # G1 @ g1 # G2 @ g2 # G3 @ R"])
       (use assms A G in \<open>simp_all add: B X\<close>)
  have s1: "decode_field_elements (I @ B @ C) 3 ?d1 =
      (if canonical b1 \<and> canonical b2 \<and> canonical b3 then Ok ([b1, b2, b3], ?d4)
       else Err InvalidFieldElement :: ('kzg blob_error, _) outcome)"
    using decode_three [of "W @ A0 @ [g0]" "p + 32" "I @ b0 # A0" "i + 32" A1 A2 A3 G1 G2 G3 b1 b2 b3 C g1 g2 R,
        where 'kzg = 'kzg] assms A G
    by (simp add: B)
  have s2: "reassemble_bytes [b0, b1, b2, b3] ?d4 =
      (Ok \<lparr>dec_output_pos = p + 127, dec_input_pos = i + 128,
        dec_output = W @ A0 @ join6 b0 b1 # A1 @ join4 b1 b3 # A2 @ join6 b2 b3 # A3 @ R\<rparr> ::
       ('kzg blob_error, _) outcome)"
    using reassemble_block [of "p + 128" "W @ A0" A1 A2 A3 b0 b1 b2 b3 "i + 128" g0 g1 g2 R, where 'kzg = 'kzg]
      assms A by (simp add: add.commute)
  have ok: "block_ok B \<longleftrightarrow> canonical b0 \<and> canonical b1 \<and> canonical b2 \<and> canonical b3"
    and dec: "dec_block B = A0 @ join6 b0 b1 # A1 @ join4 b1 b3 # A2 @ join6 b2 b3 # A3"
    using A by (simp_all add: B block_split)
  have four: "decode_field_elements (I @ B @ C) 4
        \<lparr>dec_output_pos = p, dec_input_pos = i, dec_output = W @ X @ R\<rparr> =
      (if block_ok B then Ok ([b0, b1, b2, b3], ?d4) else Err InvalidFieldElement ::
       ('kzg blob_error, _) outcome)"
  proof -
    have "(4 :: nat) = Suc 3" by simp
    then show ?thesis
      by (simp only: decode_field_elements.simps s0) (simp add: s1 ok)
  qed
  show ?thesis
    by (simp only: decode_round_def four) (simp add: s2 dec)
qed


section \<open>The decoder as a concatenation of blocks\<close>

definition decoded_blocks :: "bytes list \<Rightarrow> bytes" where
  "decoded_blocks Bs = concat (map dec_block Bs)"

lemma length_concat_const: "(\<And>x. x \<in> set xs \<Longrightarrow> length x = n) \<Longrightarrow> length (concat xs) = n * length xs"
  by (induction xs) auto

definition well_cut :: "bytes list \<Rightarrow> bool" where
  "well_cut Bs = (length Bs = 1024 \<and> (\<forall>B \<in> set Bs. length B = 128))"

lemma length_decoded_blocks:
  "(\<And>B. B \<in> set Bs \<Longrightarrow> length B = 128) \<Longrightarrow> length (decoded_blocks Bs) = 127 * length Bs"
  unfolding decoded_blocks_def by (subst length_concat_const [where n = 127]) auto

lemma decoded_blocks_simps [simp]:
  "decoded_blocks [] = []"
  "decoded_blocks (B # Bs) = dec_block B @ decoded_blocks Bs"
  "decoded_blocks (Bs @ Bs') = decoded_blocks Bs @ decoded_blocks Bs'"
  by (simp_all add: decoded_blocks_def)

text \<open>The decoder's state after \<open>k\<close> rounds.\<close>

definition decoder_after :: "bytes list \<Rightarrow> nat \<Rightarrow> decoder" where
  "decoder_after Bs k =
     \<lparr>dec_output_pos = 127 * k - 4, dec_input_pos = 128 * k,
      dec_output = drop 4 (decoded_blocks (take k Bs)) @ replicate (127 * (1024 - k)) 0\<rparr>"

lemma decode_round_after:
  assumes "well_cut Bs" "0 < k" "k < 1024"
  shows "decode_round (concat Bs) (decoder_after Bs k) =
    (if block_ok (Bs ! k) then Ok (decoder_after Bs (Suc k))
     else Err InvalidFieldElement :: ('kzg blob_error, _) outcome)"
proof -
  have len: "\<And>B. B \<in> set Bs \<Longrightarrow> length B = 128" "k < length Bs" "length Bs = 1024"
    using assms by (simp_all add: well_cut_def)
  have dlen: "length (decoded_blocks (take k Bs)) = 127 * k"
    using length_decoded_blocks [of "take k Bs"] len by (auto dest: in_set_takeD)
  have split: "concat Bs = concat (take k Bs) @ Bs ! k @ concat (drop (Suc k) Bs)"
    by (metis len(2) id_take_nth_drop concat.simps(2) concat_append)
  have zeros: "replicate (127 * (1024 - k)) (0 :: u8) = replicate 127 0 @ replicate (127 * (1024 - Suc k)) 0"
    using assms(3) by (simp add: replicate_add [symmetric] Suc_diff_Suc [symmetric])
  have W: "length (drop 4 (decoded_blocks (take k Bs))) = 127 * k - 4" using dlen by simp
  have I: "length (concat (take k Bs)) = 128 * k"
    using length_concat_const [of "take k Bs" 128] len by (auto dest: in_set_takeD)
  have B: "length (Bs ! k) = 128" using len by simp
  have nxt: "decoder_after Bs (Suc k) = \<lparr>dec_output_pos = 127 * k - 4 + 127, dec_input_pos = 128 * k + 128,
      dec_output = drop 4 (decoded_blocks (take k Bs)) @ dec_block (Bs ! k) @ replicate (127 * (1024 - Suc k)) 0\<rparr>"
    using assms(2) dlen len(2) by (simp add: decoder_after_def take_Suc_conv_app_nth)
  show ?thesis
    unfolding nxt unfolding decoder_after_def split zeros
    by (rule decode_round_block [OF B _ W I]) simp
qed


lemma decoder_after_simps [simp]:
  "dec_output_pos (decoder_after Bs k) = 127 * k - 4"
  "dec_input_pos (decoder_after Bs k) = 128 * k"
  by (simp_all add: decoder_after_def)

text \<open>
  The loop stops after some round \<open>j\<close>: because enough was decoded, because all rounds are done,
  or because a field element of the next block is not canonical.
\<close>

definition stops_at ::
  "bytes list \<Rightarrow> nat \<Rightarrow> nat \<Rightarrow> nat \<Rightarrow> ('kzg blob_error, decoder) outcome \<Rightarrow> bool" where
  "stops_at Bs L k j res =
     (k \<le> j \<and> j \<le> 1024 \<and> (\<forall>r \<in> {k..<j}. block_ok (Bs ! r)) \<and>
      ((L \<le> 127 * j - 4 \<or> j = 1024) \<and> res = Ok (decoder_after Bs j) \<or>
       j < 1024 \<and> \<not> block_ok (Bs ! j) \<and> res = Err InvalidFieldElement))"

lemma stops_at_Suc: "stops_at Bs L (Suc k) j res \<Longrightarrow> block_ok (Bs ! k) \<Longrightarrow> stops_at Bs L k j res"
proof -
  assume s: "stops_at Bs L (Suc k) j res" and k: "block_ok (Bs ! k)"
  then have "{k..<j} = insert k {Suc k..<j}" by (auto simp: stops_at_def)
  with s k show ?thesis by (auto simp: stops_at_def)
qed

lemma decode_rounds_after:
  assumes "well_cut Bs" "0 < k" "k \<le> 1024"
  shows "\<exists>j. stops_at Bs L k j
    (decode_rounds (concat Bs) L (1024 - k) (decoder_after Bs k) :: ('kzg blob_error, _) outcome)"
  using assms(2,3)
proof (induction "1024 - k" arbitrary: k)
  case 0
  then show ?case by (intro exI [of _ k]) (auto simp: stops_at_def)
next
  case (Suc n)
  then have lt: "k < 1024" and n: "n = 1024 - Suc k" "0 < Suc k" "Suc k \<le> 1024" by simp_all
  show ?case
  proof (cases "L \<le> 127 * k - 4")
    case True
    then show ?thesis
      using lt by (intro exI [of _ k]) (auto simp: Suc.hyps(2) [symmetric] stops_at_def)
  next
    case False
    have step: "decode_rounds (concat Bs) L (1024 - k) (decoder_after Bs k) =
        (if block_ok (Bs ! k) then decode_rounds (concat Bs) L (1024 - Suc k) (decoder_after Bs (Suc k))
         else Err InvalidFieldElement :: ('kzg blob_error, _) outcome)"
      using False decode_round_after [OF assms(1) Suc.prems(1) lt, where 'kzg = 'kzg]
      unfolding n(1) [symmetric] by (simp add: Suc.hyps(2) [symmetric])
    show ?thesis
    proof (cases "block_ok (Bs ! k)")
      case True
      with Suc.hyps(1) [OF n] show ?thesis unfolding step by (auto intro: stops_at_Suc)
    next
      case False
      with step lt show ?thesis by (intro exI [of _ k]) (auto simp: stops_at_def)
    qed
  qed
qed

text \<open>Round 0: the version, the length and the first 27 bytes share the first field element.\<close>

lemma decode_first_round:
  assumes "well_cut Bs"
  defines "blob \<equiv> concat Bs"
  shows "\<exists>output. copy_from_slice (replicate MAX_BLOB_DATA_SIZE 0) 0 27 (take 27 (drop 5 blob)) = Some output \<and>
    decode_field_elements blob 3 \<lparr>dec_output_pos = 28, dec_input_pos = 32, dec_output = output\<rparr> =
      (if tail_ok (Bs ! 0)
       then Ok ([Bs ! 0 ! 32, Bs ! 0 ! 64, Bs ! 0 ! 96],
              \<lparr>dec_output_pos = 124, dec_input_pos = 128,
               dec_output = take 27 (drop 5 blob) @ 0 # take 31 (drop 33 (Bs ! 0)) @ 0 #
                 take 31 (drop 65 (Bs ! 0)) @ 0 # take 31 (drop 97 (Bs ! 0)) @ replicate (127 * 1023) 0\<rparr>)
       else Err InvalidFieldElement :: ('kzg blob_error, _) outcome) \<and>
    reassemble_bytes [blob ! 0, Bs ! 0 ! 32, Bs ! 0 ! 64, Bs ! 0 ! 96]
      \<lparr>dec_output_pos = 124, dec_input_pos = 128,
       dec_output = take 27 (drop 5 blob) @ 0 # take 31 (drop 33 (Bs ! 0)) @ 0 #
         take 31 (drop 65 (Bs ! 0)) @ 0 # take 31 (drop 97 (Bs ! 0)) @ replicate (127 * 1023) 0\<rparr> =
      (Ok (decoder_after Bs 1) :: ('kzg blob_error, _) outcome)"
proof -
  obtain B Bs' where Bs: "Bs = B # Bs'" "length B = 128"
    using assms(1) by (cases Bs) (auto simp: well_cut_def)
  obtain b0 A0 b1 A1 b2 A2 b3 A3 where B: "B = b0 # A0 @ b1 # A1 @ b2 # A2 @ b3 # A3"
    and A: "length A0 = 31" "length A1 = 31" "length A2 = 31" "length A3 = 31"
    using Bs(2) by (rule block_cases)
  have fields: "Bs ! 0 = B" "B ! 0 = b0" "B ! 32 = b1" "B ! 64 = b2" "B ! 96 = b3" "take 31 (drop 33 B) = A1"
    "take 31 (drop 65 B) = A2" "take 31 (drop 97 B) = A3"
    using A by (simp_all add: Bs B nth_append nth_Cons')
  have blob: "blob = (b0 # A0) @ b1 # A1 @ b2 # A2 @ b3 # A3 @ concat Bs'" "blob ! 0 = b0"
    "take 27 (drop 5 blob) = drop 4 A0"
    using A by (simp_all add: blob_def Bs B)
  let ?Z = "replicate (127 * 1023) (0 :: u8)"
  let ?out = "drop 4 A0 @ 0 # replicate 31 0 @ 0 # replicate 31 0 @ 0 # replicate 31 0 @ ?Z"
  let ?d = "\<lparr>dec_output_pos = 124, dec_input_pos = 128,
    dec_output = drop 4 A0 @ 0 # A1 @ 0 # A2 @ 0 # A3 @ ?Z\<rparr>"
  have "copy_from_slice (replicate MAX_BLOB_DATA_SIZE 0) 0 27 (drop 4 A0) = Some ?out"
  proof -
    have "drop 27 (replicate MAX_BLOB_DATA_SIZE (0 :: u8)) =
        0 # replicate 31 0 @ 0 # replicate 31 0 @ 0 # replicate 31 0 @ ?Z"
      by (simp add: MAX_BLOB_DATA_SIZE_def flip: replicate_add replicate_Suc)
    then show ?thesis
      using A by (simp add: copy_from_slice_def MAX_BLOB_DATA_SIZE_def)
  qed
  moreover have "decode_field_elements blob 3 \<lparr>dec_output_pos = 28, dec_input_pos = 32, dec_output = ?out\<rparr> =
      (if tail_ok B then Ok ([b1, b2, b3], ?d) else Err InvalidFieldElement :: ('kzg blob_error, _) outcome)"
    using decode_three [of "drop 4 A0 @ [0]" 28 "b0 # A0" 32 A1 A2 A3 "replicate 31 0" "replicate 31 0"
        "replicate 31 0" b1 b2 b3 "concat Bs'" 0 0 ?Z, where 'kzg = 'kzg] A
    by (simp add: blob B block_split)
  moreover have "reassemble_bytes [b0, b1, b2, b3] ?d = (Ok (decoder_after Bs 1) :: ('kzg blob_error, _) outcome)"
    using reassemble_block [of 124 "drop 4 A0" A1 A2 A3 b0 b1 b2 b3 128 0 0 0 ?Z, where 'kzg = 'kzg] A
    by (simp add: decoder_after_def Bs B block_split)
  ultimately show ?thesis
    unfolding fields blob(2,3) by blast
qed


text \<open>The whole decoder on a blob of 1024 blocks. The six high bits of byte 0 are read unmasked.\<close>

lemma decode_blob_blocks:
  assumes "well_cut Bs"
  defines "blob \<equiv> concat Bs"
  defines "L \<equiv> decoded_length (blob ! 2) (blob ! 3) (blob ! 4)"
  shows "decode_blob_data blob =
    (if blob ! 1 \<noteq> ENCODING_VERSION then Err (InvalidVersion ENCODING_VERSION (blob ! 1))
     else if MAX_BLOB_DATA_SIZE < L then Err (InvalidLength L MAX_BLOB_DATA_SIZE)
     else if \<not> tail_ok (Bs ! 0) then Err InvalidFieldElement
     else and_then (decode_rounds blob L 1023 (decoder_after Bs 1)) (decode_finish blob L) ::
       ('kzg blob_error, _) outcome)"
proof -
  have len: "length blob = 131072"
    using length_concat_const [of Bs 128] assms(1) by (simp add: blob_def well_cut_def)
  then have get: "index_get blob VERSION_OFFSET = Some (blob ! 1)" "index_get blob 2 = Some (blob ! 2)"
    "index_get blob 3 = Some (blob ! 3)" "index_get blob 4 = Some (blob ! 4)"
    "index_get blob 0 = Some (blob ! 0)" "slice_get blob 5 32 = Some (take 27 (drop 5 blob))"
    by (simp_all add: index_get_def slice_get_def VERSION_OFFSET_def)
  obtain out where
    o: "copy_from_slice (replicate MAX_BLOB_DATA_SIZE 0) 0 27 (take 27 (drop 5 blob)) = Some out" and
    three: "decode_field_elements blob 3 \<lparr>dec_output_pos = 28, dec_input_pos = 32, dec_output = out\<rparr> =
      (if tail_ok (Bs ! 0)
       then Ok ([Bs ! 0 ! 32, Bs ! 0 ! 64, Bs ! 0 ! 96],
              \<lparr>dec_output_pos = 124, dec_input_pos = 128,
               dec_output = take 27 (drop 5 blob) @ 0 # take 31 (drop 33 (Bs ! 0)) @ 0 #
                 take 31 (drop 65 (Bs ! 0)) @ 0 # take 31 (drop 97 (Bs ! 0)) @ replicate (127 * 1023) 0\<rparr>)
       else Err InvalidFieldElement :: ('kzg blob_error, _) outcome)" and
    join: "reassemble_bytes [blob ! 0, Bs ! 0 ! 32, Bs ! 0 ! 64, Bs ! 0 ! 96]
      \<lparr>dec_output_pos = 124, dec_input_pos = 128,
       dec_output = take 27 (drop 5 blob) @ 0 # take 31 (drop 33 (Bs ! 0)) @ 0 #
         take 31 (drop 65 (Bs ! 0)) @ 0 # take 31 (drop 97 (Bs ! 0)) @ replicate (127 * 1023) 0\<rparr> =
      (Ok (decoder_after Bs 1) :: ('kzg blob_error, _) outcome)"
    using decode_first_round [OF assms(1), where 'kzg = 'kzg] unfolding blob_def by blast
  show ?thesis
    unfolding decode_blob_data_def get or_panic.simps and_then.simps Let_def L_def [symmetric] o three
    by (simp add: join [simplified] ROUNDS_def)
qed


section \<open>Cutting a blob into blocks\<close>

definition cut_blocks :: "bytes \<Rightarrow> bytes list" where
  "cut_blocks blob = map (\<lambda>r. take 128 (drop (128 * r) blob)) [0..<1024]"

lemma concat_cut:
  "128 * n \<le> length xs \<Longrightarrow> concat (map (\<lambda>r. take 128 (drop (128 * r) xs)) [0..<n]) = take (128 * n) xs"
proof (induction n)
  case (Suc n)
  have "take (128 * n) xs @ take 128 (drop (128 * n) xs) = take (128 * n + 128) xs"
    by (simp only: take_add)
  with Suc show ?case by (simp add: add.commute)
qed simp

lemma cut_blocks:
  assumes "length blob = BYTES_PER_BLOB"
  shows "well_cut (cut_blocks blob)" and "concat (cut_blocks blob) = blob"
  using assms concat_cut [of 1024 blob]
  by (auto simp: well_cut_def cut_blocks_def BYTES_PER_BLOB_def simp del: upt.simps)

section \<open>The length in the header\<close>

lemma bit_0xFF: "bit (255 :: u32) k \<longleftrightarrow> k < 8" "bit (255 :: u8) k \<longleftrightarrow> k < 8"
  "bit (255 :: int) k \<longleftrightarrow> k < 8"
  using bit_mask_iff [of 8 k, where 'a = "32 word"] bit_mask_iff [of 8 k, where 'a = int] bit_mask_iff [of 8 k, where 'a = "8 word"]
  by (auto simp: mask_eq_exp_minus_1)

lemma u32_three_bytes:
  assumes "unat (w :: u32) < 2 ^ 24"
  shows "push_bit 16 (ucast (ucast (drop_bit 16 w AND 0xFF) :: u8)) OR
         push_bit 8 (ucast (ucast (drop_bit 8 w AND 0xFF) :: u8)) OR
         (ucast (ucast (w AND 0xFF) :: u8)) = w"
proof (rule bit_word_eqI)
  fix n assume n: "n < LENGTH(32)"
  have hi: "\<not> bit w n" if "24 \<le> n" for n
  proof -
    have "w = take_bit 24 w"
      using assms by (intro unat_inj) (simp add: unsigned_take_bit_eq take_bit_nat_eq_self)
    then show ?thesis using that by (metis bit_take_bit_iff not_le)
  qed
  show "bit (push_bit 16 (ucast (ucast (drop_bit 16 w AND 0xFF) :: u8)) OR
         push_bit 8 (ucast (ucast (drop_bit 8 w AND 0xFF) :: u8)) OR
         (ucast (ucast (w AND 0xFF) :: u8)) :: u32) n = bit w n"
    using n hi [of n] by (cases "n < 8"; cases "n < 16"; cases "n < 24") (auto simp: bit_simps bit_0xFF)
qed

lemma decoded_length_header:
  assumes "n < 2 ^ 24"
  shows "header_bytes n ! 0 = ENCODING_VERSION"
    and "decoded_length (header_bytes n ! 1) (header_bytes n ! 2) (header_bytes n ! 3) = n"
proof -
  have "unat (of_nat n :: u32) = n" using assms by (simp add: unat_of_nat take_bit_nat_eq_self)
  with u32_three_bytes [of "of_nat n"] assms
  show "decoded_length (header_bytes n ! 1) (header_bytes n ! 2) (header_bytes n ! 3) = n"
    by (simp add: decoded_length_def header_bytes_def Let_def)
qed (simp add: header_bytes_def Let_def)

lemma u8_three_bytes:
  fixes l2 l1 l0 :: u8
  defines "w \<equiv> push_bit 16 (ucast l2) OR push_bit 8 (ucast l1) OR (ucast l0 :: u32)"
  shows "ucast (drop_bit 16 w AND 0xFF) = l2" "ucast (drop_bit 8 w AND 0xFF) = l1" "ucast (w AND 0xFF) = l0"
proof -
  show "ucast (drop_bit 16 w AND 0xFF) = l2" "ucast (drop_bit 8 w AND 0xFF) = l1" "ucast (w AND 0xFF) = l0"
    unfolding w_def by (rule_tac [!] bit_word_eqI) (auto simp: bit_simps bit_0xFF dest: bit_imp_le_length)
qed

lemma header_decoded_length:
  "header_bytes (decoded_length l2 l1 l0) = [ENCODING_VERSION, l2, l1, l0]"
  using u8_three_bytes [of l2 l1 l0] by (simp add: header_bytes_def decoded_length_def Let_def)


section \<open>The encoder's blob through the decoder\<close>

definition encoded_list :: "bytes \<Rightarrow> bytes list" where
  "encoded_list data = map (\<lambda>r. enc_block (frame_chunk data r)) [0..<1024]"

lemma encoded_list:
  "well_cut (encoded_list data)" "concat (encoded_list data) = encoded_blocks data [0..<1024]"
  "k < 1024 \<Longrightarrow> encoded_list data ! k = enc_block (frame_chunk data k)"
  by (auto simp: well_cut_def encoded_list_def encoded_blocks_def simp del: upt.simps)

lemma concat_chunks: "concat (map (frame_chunk data) [0..<k]) = map (framed_byte data) [0..<127 * k]"
proof (induction k)
  case (Suc k)
  have "[0..<127 * k + 127] = [0..<127 * k] @ [127 * k..<127 * k + 127]"
    by (rule upt_split) simp_all
  with Suc show ?case by (simp add: frame_chunk_def add.commute del: upt.simps) (simp add: upt_conv_Nil)
qed simp

lemma decoded_encoded_list:
  assumes "k \<le> 1024"
  shows "decoded_blocks (take k (encoded_list data)) = map (framed_byte data) [0..<127 * k]"
proof -
  have "take k (encoded_list data) = map (\<lambda>r. enc_block (frame_chunk data r)) [0..<k]"
    using assms by (simp add: encoded_list_def take_map take_upt del: upt.simps)
  then have "decoded_blocks (take k (encoded_list data)) = concat (map (frame_chunk data) [0..<k])"
    by (simp add: decoded_blocks_def comp_def)
  then show ?thesis by (simp only: concat_chunks)
qed

lemma nth_encoded_header:
  assumes "i < 4"
  shows "encoded_blocks data [0..<1024] ! Suc i = header_bytes (length data) ! i"
proof -
  have "[0..<1024] = 0 # [Suc 0..<1024 :: nat]" by (rule upt_conv_Cons) simp
  then have "encoded_blocks data [0..<1024] ! Suc i = enc_block (frame_chunk data 0) ! Suc i"
    using assms by (simp only: encoded_blocks_Cons) (simp add: nth_append del: upt.simps)
  also have "\<dots> = frame_chunk data 0 ! i"
    using assms by (simp add: enc_block_def nth_append)
  also have "\<dots> = header_bytes (length data) ! i"
    using assms by (simp add: nth_frame_chunk framed_byte_def)
  finally show ?thesis .
qed

lemma decode_finish_encoded:
  assumes "length data \<le> 127 * j - 4 \<or> j = 1024" "j \<le> 1024" "0 < j" "length data \<le> MAX_BLOB_DATA_SIZE"
  shows "decode_finish (encoded_blocks data [0..<1024]) (length data) (decoder_after (encoded_list data) j) =
    (Ok data :: ('kzg blob_error, bytes) outcome)"
proof -
  have len: "length data \<le> 127 * j - 4" using assms by (auto simp: MAX_BLOB_DATA_SIZE_def)
  have "drop 4 (map (framed_byte data) [0..<127 * j]) = map (stream_byte data) [0..<127 * j - 4]"
    using assms(3) map_framed_shift31 [of 4 data "127 * j - 4"] by (simp add: drop_map)
  also have "\<dots> = take (127 * j - 4) data @ replicate (127 * j - 4 - length data) 0"
    using take_stream [of "127 * j - 4" 0 data] by simp
  finally have out: "dec_output (decoder_after (encoded_list data) j) =
      data @ replicate (127 * j - 4 - length data + 127 * (1024 - j)) 0"
    using assms(2) len by (simp add: decoder_after_def decoded_encoded_list replicate_add)
  have "[0..<1024] = [0..<j] @ [j..<1024]" using assms(2) upt_split [of 0 j 1024] by simp
  then have rest: "drop (128 * j) (encoded_blocks data [0..<1024]) = replicate (128 * (1024 - j)) 0"
    using len by (simp add: encoded_blocks_past_end del: upt.simps)
  have zeros: "\<forall>b \<in> set (drop (length data) (take n (data @ replicate m 0))). b = 0" for n m
    by (auto simp: take_append drop_append dest: in_set_takeD)
  show ?thesis
    unfolding decode_finish_def out decoder_after_simps rest using zeros by (auto simp: MAX_BLOB_DATA_SIZE_def)
qed

lemma decode_encoded:
  assumes "length data \<le> MAX_BLOB_DATA_SIZE"
  shows "decode_blob_data (encoded_blocks data [0..<1024]) = (Ok data :: ('kzg blob_error, bytes) outcome)"
proof -
  let ?Bs = "encoded_list data" and ?blob = "encoded_blocks data [0..<1024]"
  have small: "length data < 2 ^ 24" using assms by (simp add: MAX_BLOB_DATA_SIZE_def)
  have hdr: "?blob ! 1 = ENCODING_VERSION" "decoded_length (?blob ! 2) (?blob ! 3) (?blob ! 4) = length data"
    using decoded_length_header [OF small] nth_encoded_header [of 0 data] nth_encoded_header [of 1 data]
      nth_encoded_header [of 2 data] nth_encoded_header [of 3 data]
    by (simp_all add: numeral_eq_Suc del: upt.simps)
  have ok: "block_ok (?Bs ! r)" if "r < 1024" for r
    using that by (simp add: encoded_list(3))
  then have tail: "tail_ok (?Bs ! 0)" by (simp add: block_ok_def)
  obtain j where j: "stops_at ?Bs (length data) 1 j
      (decode_rounds ?blob (length data) 1023 (decoder_after ?Bs 1) :: ('kzg blob_error, _) outcome)"
    using decode_rounds_after [OF encoded_list(1), of 1 data "length data", where 'kzg = 'kzg]
    by (auto simp: encoded_list(2) simp del: upt.simps)
  then have run: "decode_rounds ?blob (length data) 1023 (decoder_after ?Bs 1) =
      (Ok (decoder_after ?Bs j) :: ('kzg blob_error, _) outcome)"
    and stop: "length data \<le> 127 * j - 4 \<or> j = 1024" "j \<le> 1024" "0 < j"
    using ok by (auto simp: stops_at_def)
  show ?thesis
    using decode_blob_blocks [OF encoded_list(1), of data, where 'kzg = 'kzg] assms tail
    by (simp add: encoded_list(2) hdr run decode_finish_encoded [OF stop assms] del: upt.simps One_nat_def)
qed


section \<open>What the decoder accepts\<close>

lemma zero_block: "B = replicate 128 0 \<Longrightarrow> dec_block B = replicate 127 0 \<and> block_ok B"
proof -
  assume B: "B = replicate 128 0"
  have "block_ok (enc_block (replicate 127 0))" "dec_block (enc_block (replicate 127 0)) = replicate 127 0"
    by simp_all
  then show ?thesis by (simp add: B enc_block_zeros)
qed

lemma decoded_blocks_zeros:
  "(\<And>B. B \<in> set Bs \<Longrightarrow> B = replicate 128 0) \<Longrightarrow> decoded_blocks Bs = replicate (127 * length Bs) 0"
proof (induction Bs)
  case (Cons B Bs)
  have "B = replicate 128 0" using Cons.prems by simp
  then have "dec_block B = replicate 127 0" using zero_block by blast
  moreover have "decoded_blocks Bs = replicate (127 * length Bs) 0" using Cons by simp
  ultimately show ?case by (simp add: replicate_add)
qed simp

lemma nth_block_eq:
  assumes "well_cut Bs" "r < 1024"
  shows "take 127 (drop (127 * r) (decoded_blocks Bs)) = dec_block (Bs ! r)"
proof -
  have len: "\<And>B. B \<in> set Bs \<Longrightarrow> length B = 128" "r < length Bs"
    using assms by (simp_all add: well_cut_def)
  have "decoded_blocks Bs = decoded_blocks (take r Bs) @ dec_block (Bs ! r) @ decoded_blocks (drop (Suc r) Bs)"
    by (metis decoded_blocks_simps(2,3) id_take_nth_drop len(2))
  moreover have "length (decoded_blocks (take r Bs)) = 127 * r"
    using length_decoded_blocks [of "take r Bs"] len by (auto dest: in_set_takeD)
  moreover have "length (dec_block (Bs ! r)) = 127" using len by simp
  ultimately show ?thesis by simp
qed

lemma decoded_header:
  assumes "well_cut Bs" "i < 4"
  shows "decoded_blocks Bs ! i = concat Bs ! Suc i"
proof -
  obtain B Bs' where B: "Bs = B # Bs'" "length B = 128"
    using assms(1) by (cases Bs) (auto simp: well_cut_def)
  then have "decoded_blocks Bs ! i = dec_block B ! i" "concat Bs ! Suc i = B ! Suc i"
    using assms(2) by (simp_all add: nth_append)
  moreover have "dec_block B ! i = B ! Suc i"
    using assms(2) B(2) by (simp add: dec_block_def nth_append)
  ultimately show ?thesis by simp
qed

text \<open>The framed stream of the data is determined by its header, its data and the padding.\<close>

lemma length_header_bytes [simp]: "length (header_bytes n) = 4"
  by (simp add: header_bytes_def Let_def)

lemma framed_stream_eq:
  assumes "D = header_bytes (length data) @ data @ replicate n 0" "i < length D"
  shows "framed_byte data i = D ! i"
  using assms by (auto simp: framed_byte_def stream_byte_def nth_append)

lemma encoded_blocks_of_decoded:
  assumes "well_cut Bs" "\<And>r. r < 1024 \<Longrightarrow> block_ok (Bs ! r)"
    and D: "decoded_blocks Bs = header_bytes (length data) @ data @ replicate n 0"
  shows "encoded_blocks data [0..<1024] = concat Bs"
proof -
  have dlen: "length (decoded_blocks Bs) = 127 * 1024"
    using length_decoded_blocks [of Bs] assms(1) by (simp add: well_cut_def)
  have "frame_chunk data r = dec_block (Bs ! r)" if r: "r < 1024" for r
  proof -
    have "frame_chunk data r = take 127 (drop (127 * r) (decoded_blocks Bs))"
      by (rule nth_equalityI) (use r dlen in \<open>simp_all add: nth_frame_chunk framed_stream_eq [OF D]\<close>)
    then show ?thesis using nth_block_eq [OF assms(1) r] by simp
  qed
  then have "enc_block (frame_chunk data r) = Bs ! r" if "r < 1024" for r
    using that assms by (simp add: enc_dec_block well_cut_def)
  then have "map (\<lambda>r. enc_block (frame_chunk data r)) [0..<1024] = Bs"
    using assms(1) by (intro nth_equalityI) (simp_all add: well_cut_def del: upt.simps)
  then show ?thesis by (simp add: encoded_blocks_def)
qed

lemma decoded_tail_zeros:
  assumes "well_cut Bs" "j \<le> 1024" "\<forall>b \<in> set (drop (128 * j) (concat Bs)). b = 0"
  shows "decoded_blocks (drop j Bs) = replicate (127 * (1024 - j)) 0"
    and "j \<le> r \<Longrightarrow> r < 1024 \<Longrightarrow> block_ok (Bs ! r)"
proof -
  have len: "\<And>B. B \<in> set Bs \<Longrightarrow> length B = 128" "length Bs = 1024"
    using assms(1) by (simp_all add: well_cut_def)
  have I: "length (concat (take j Bs)) = 128 * j"
    using length_concat_const [of "take j Bs" 128] len assms(2) by (auto dest: in_set_takeD)
  have "concat Bs = concat (take j Bs) @ concat (drop j Bs)"
    by (metis append_take_drop_id concat_append)
  then have rest: "drop (128 * j) (concat Bs) = concat (drop j Bs)" using I by simp
  have zero: "B = replicate 128 0" if "B \<in> set (drop j Bs)" for B
    using that assms(3) len(1) unfolding rest
    by (intro replicate_eqI) (auto dest: in_set_dropD)
  then show "decoded_blocks (drop j Bs) = replicate (127 * (1024 - j)) 0"
    using decoded_blocks_zeros [of "drop j Bs"] len(2) by simp
  show "block_ok (Bs ! r)" if "j \<le> r" "r < 1024"
  proof -
    have "Bs ! r \<in> set (drop j Bs)"
      using that len(2) nth_mem [of "r - j" "drop j Bs"] by simp
    then show ?thesis using zero zero_block by blast
  qed
qed

lemma if3_eq_Ok:
  "(if a then Err x else if b then Err y else if c then Err z else r) = Ok d \<longleftrightarrow> \<not> a \<and> \<not> b \<and> \<not> c \<and> r = Ok d"
  by simp

lemma decode_blob_OkD:
  assumes "well_cut Bs" and "canonical (concat Bs ! 0)"
    and ok: "decode_blob_data (concat Bs) = (Ok data :: ('kzg blob_error, bytes) outcome)"
  shows "length data \<le> MAX_BLOB_DATA_SIZE \<and> encoded_blocks data [0..<1024] = concat Bs"
proof -
  let ?blob = "concat Bs"
  let ?L = "decoded_length (?blob ! 2) (?blob ! 3) (?blob ! 4)"
  note cs = decode_blob_blocks [OF assms(1), where 'kzg = 'kzg, unfolded ok, symmetric]
  from cs [unfolded if3_eq_Ok] have v: "?blob ! 1 = ENCODING_VERSION" and L: "?L \<le> MAX_BLOB_DATA_SIZE"
    and t: "tail_ok (Bs ! 0)" and "and_then (decode_rounds ?blob ?L 1023 (decoder_after Bs 1))
      (decode_finish ?blob ?L) = (Ok data :: ('kzg blob_error, _) outcome)"
    by (blast, simp only: not_less, blast, blast)
  then obtain d where d: "decode_rounds ?blob ?L 1023 (decoder_after Bs 1) =
      (Ok d :: ('kzg blob_error, _) outcome)" and f: "decode_finish ?blob ?L d = (Ok data :: ('kzg blob_error, _) outcome)"
    unfolding and_then_eq_Ok by blast
  obtain j where "stops_at Bs ?L 1 j (decode_rounds ?blob ?L 1023 (decoder_after Bs 1) :: ('kzg blob_error, _) outcome)"
    using decode_rounds_after [OF assms(1), of 1 ?L, where 'kzg = 'kzg] by auto
  then have j: "1 \<le> j" "j \<le> 1024" "\<forall>r \<in> {1..<j}. block_ok (Bs ! r)" and dj: "d = decoder_after Bs j"
    unfolding d by (auto simp: stops_at_def)
  have zeros: "\<forall>b \<in> set (drop ?L (take MAX_BLOB_DATA_SIZE (dec_output d))). b = 0"
    and rest: "\<forall>b \<in> set (drop (128 * j) ?blob). b = 0" and data: "data = take ?L (dec_output d)"
    using f by (auto simp: decode_finish_def dj split: if_splits)
  note tail = decoded_tail_zeros [OF assms(1) j(2) rest]
  have len: "\<And>B. B \<in> set Bs \<Longrightarrow> length B = 128" "length Bs = 1024"
    using assms(1) by (simp_all add: well_cut_def)
  have "concat Bs ! 0 = Bs ! 0 ! 0" using len by (cases Bs) (auto simp: nth_append)
  then have ok0: "block_ok (Bs ! 0)" using assms(2) t by (simp add: block_ok_def)
  have all_ok: "block_ok (Bs ! r)" if "r < 1024" for r
    using that j(3) tail(2) [of r] ok0 by (cases "r = 0"; cases "r < j") auto
  have dlen: "length (decoded_blocks Bs) = 127 * 1024"
    using length_decoded_blocks [of Bs] len by simp
  have "length (decoded_blocks (take j Bs)) = 127 * j"
    using length_decoded_blocks [of "take j Bs"] len j(2) by (auto dest: in_set_takeD)
  moreover have "decoded_blocks Bs = decoded_blocks (take j Bs) @ decoded_blocks (drop j Bs)"
    by (metis append_take_drop_id decoded_blocks_simps(3))
  ultimately have out: "dec_output d = drop 4 (decoded_blocks Bs)"
    using j(1) by (simp add: dj decoder_after_def tail(1))
  then have olen: "length (dec_output d) = MAX_BLOB_DATA_SIZE" using dlen by (simp add: MAX_BLOB_DATA_SIZE_def)
  have dl: "length data = ?L" using data olen L by simp
  have "drop ?L (dec_output d) = replicate (MAX_BLOB_DATA_SIZE - ?L) 0"
    using zeros olen by (intro replicate_eqI) simp_all
  then have "dec_output d = data @ replicate (MAX_BLOB_DATA_SIZE - ?L) 0"
    unfolding data by (metis append_take_drop_id)
  moreover have "take 4 (decoded_blocks Bs) = header_bytes (length data)"
  proof (rule nth_equalityI)
    fix i assume "i < length (take 4 (decoded_blocks Bs))"
    then have "i = 0 \<or> i = 1 \<or> i = 2 \<or> i = 3" and i: "i < 4" by auto
    moreover have "?blob ! Suc 1 = ?blob ! 2" "?blob ! Suc 2 = ?blob ! 3" "?blob ! Suc 3 = ?blob ! 4"
      "?blob ! Suc 0 = ENCODING_VERSION"
      using v by (simp_all add: numeral_2_eq_2 numeral_3_eq_3 numeral_eq_Suc)
    ultimately show "take 4 (decoded_blocks Bs) ! i = header_bytes (length data) ! i"
      unfolding dl header_decoded_length nth_take [OF i] decoded_header [OF assms(1) i] by fastforce
  qed (use dlen in simp)
  ultimately have "decoded_blocks Bs = header_bytes (length data) @ data @ replicate (MAX_BLOB_DATA_SIZE - ?L) 0"
    using out by (metis append_take_drop_id)
  from encoded_blocks_of_decoded [OF assms(1) all_ok this] show ?thesis using dl L by simp
qed


section \<open>The unchecked prefix\<close>

text \<open>
  The decoder reads the first byte of a blob once, and of it only the six low bits.
\<close>

lemma and_then_cong_Ok:
  "m = m' \<Longrightarrow> (\<And>x. m = Ok x \<Longrightarrow> f x = g x) \<Longrightarrow> and_then m f = and_then m' g"
  by (cases m) auto

lemma and_then_pair_cong_Ok:
  "m = m' \<Longrightarrow> (\<And>x y. m = Ok (x, y) \<Longrightarrow> f x y = g x y) \<Longrightarrow>
   and_then m (\<lambda>(x, y). f x y) = and_then m' (\<lambda>(x, y). g x y)"
  by (cases m) auto

lemma field_element_tail:
  "0 < dec_input_pos d \<Longrightarrow> decode_field_element (b # r) d = decode_field_element (b' # r) d"
  unfolding decode_field_element_def
  by (cases "dec_input_pos d") (simp_all add: index_get_def slice_get_def)

lemma field_element_input_pos:
  "decode_field_element blob d = Ok (x, d') \<Longrightarrow> dec_input_pos d' = dec_input_pos d + 32"
  by (auto simp: decode_field_element_def and_then_eq_Ok split: if_splits)

lemma field_elements_tail:
  "0 < dec_input_pos d \<Longrightarrow>
   decode_field_elements (b # r) n d = (decode_field_elements (b' # r) n d :: ('kzg blob_error, _) outcome)"
proof (induction n arbitrary: d)
  case (Suc n)
  show ?case
    unfolding decode_field_elements.simps
  proof (rule and_then_pair_cong_Ok [OF field_element_tail [OF Suc.prems]])
    fix x d' assume "decode_field_element (b # r) d = (Ok (x, d') :: ('kzg blob_error, _) outcome)"
    then have "0 < dec_input_pos d'" by (auto dest: field_element_input_pos)
    then show "and_then (decode_field_elements (b # r) n d') (\<lambda>(rest, d''). Ok (x # rest, d'')) =
        (and_then (decode_field_elements (b' # r) n d') (\<lambda>(rest, d''). Ok (x # rest, d'')) :: ('kzg blob_error, _) outcome)"
      by (simp only: Suc.IH)
  qed
qed simp

lemma field_elements_input_pos:
  "decode_field_elements blob n d = Ok (xs, d') \<Longrightarrow> dec_input_pos d \<le> dec_input_pos d'"
proof (induction n arbitrary: d xs d')
  case (Suc n)
  then show ?case by (fastforce simp: and_then_eq_Ok dest: field_element_input_pos)
qed simp

lemma reassemble_input_pos: "reassemble_bytes bs d = Ok d' \<Longrightarrow> dec_input_pos d' = dec_input_pos d"
  by (auto simp: reassemble_bytes_def Let_def and_then_eq_Ok split: if_splits)

lemma rounds_tail:
  "0 < dec_input_pos d \<Longrightarrow>
   decode_rounds (b # r) len n d = (decode_rounds (b' # r) len n d :: ('kzg blob_error, _) outcome) \<and>
   (\<forall>d'. decode_rounds (b # r) len n d = (Ok d' :: ('kzg blob_error, _) outcome) \<longrightarrow> 0 < dec_input_pos d')"
proof (induction n arbitrary: d)
  case (Suc n)
  have step: "decode_round (b # r) d = (decode_round (b' # r) d :: ('kzg blob_error, _) outcome)"
    unfolding decode_round_def by (simp only: field_elements_tail [OF Suc.prems, of b r _ b'])
  have pos: "0 < dec_input_pos d1" if "decode_round (b # r) d = (Ok d1 :: ('kzg blob_error, _) outcome)" for d1
    using that Suc.prems unfolding decode_round_def and_then_eq_Ok
    by (auto dest!: field_elements_input_pos reassemble_input_pos)
  show ?case
  proof (cases "decode_round (b' # r) d :: ('kzg blob_error, _) outcome")
    case (Ok d1)
    then show ?thesis using Suc.IH [OF pos] Suc.prems step by simp
  qed (use Suc.prems step in simp_all)
qed simp

lemma reassemble_low_bits:
  "b AND 0x3F = b' AND 0x3F \<Longrightarrow> reassemble_bytes (b # bs) d = reassemble_bytes (b' # bs) d"
  by (simp add: reassemble_bytes_def)

lemma finish_tail: "0 < dec_input_pos d \<Longrightarrow> decode_finish (b # r) len d = decode_finish (b' # r) len d"
  by (cases "dec_input_pos d") (simp_all add: decode_finish_def)

lemma decode_low_bits:
  assumes "b AND 0x3F = b' AND 0x3F"
  shows "decode_blob_data (b # r) = (decode_blob_data (b' # r) :: ('kzg blob_error, bytes) outcome)"
proof -
  have rest: "and_then (decode_field_elements (b # r) 3 d) (\<lambda>(bytes, d1).
       and_then (reassemble_bytes (b # bytes) d1) (\<lambda>d2. and_then (decode_rounds (b # r) len n d2) (decode_finish (b # r) len))) =
     (and_then (decode_field_elements (b' # r) 3 d) (\<lambda>(bytes, d1).
       and_then (reassemble_bytes (b' # bytes) d1) (\<lambda>d2. and_then (decode_rounds (b' # r) len n d2) (decode_finish (b' # r) len)))
       :: ('kzg blob_error, bytes) outcome)"
    if d: "0 < dec_input_pos d" for d len n
  proof (rule and_then_pair_cong_Ok [OF field_elements_tail [OF d]], rule and_then_cong_Ok [OF reassemble_low_bits [OF assms]],
      rule and_then_cong_Ok)
    fix bytes d1 d2
    assume "decode_field_elements (b # r) 3 d = (Ok (bytes, d1) :: ('kzg blob_error, _) outcome)"
      "reassemble_bytes (b # bytes) d1 = (Ok d2 :: ('kzg blob_error, _) outcome)"
    then have "0 < dec_input_pos d2"
      using d by (auto dest!: field_elements_input_pos reassemble_input_pos)
    note tail = rounds_tail [OF this, of b r len n b', where 'kzg = 'kzg]
    show "decode_rounds (b # r) len n d2 = (decode_rounds (b' # r) len n d2 :: ('kzg blob_error, _) outcome)"
      using tail by blast
    show "decode_finish (b # r) len d3 = (decode_finish (b' # r) len d3 :: ('kzg blob_error, _) outcome)"
      if "decode_rounds (b # r) len n d2 = (Ok d3 :: ('kzg blob_error, _) outcome)" for d3
      using tail that by (intro finish_tail) blast
  qed
  show ?thesis
    unfolding decode_blob_data_def VERSION_OFFSET_def Let_def
    by (simp add: index_get_def slice_get_def rest cong: if_cong)
qed

lemma cleared_prefix: "(b AND 0x3F) AND 0x3F = b AND (0x3F :: u8)" "(b AND 0x3F) AND 0xC0 = (0 :: u8)"
  by (simp_all add: and.assoc)

section \<open>Several blobs, lemmas\<close>

lemma concat_chunks_list: "0 < n \<Longrightarrow> concat (chunks n xs) = xs"
proof (induction n xs rule: chunks.induct)
  case (1 n xs)
  show ?case
  proof (cases "xs = []")
    case False
    with 1 have "concat (chunks n (drop n xs)) = drop n xs" by simp
    with 1 False show ?thesis by (subst chunks.simps) simp
  qed (simp add: chunks.simps)
qed

lemma length_chunk: "c \<in> set (chunks n xs) \<Longrightarrow> length c \<le> n"
proof (induction n xs rule: chunks.induct)
  case (1 n xs)
  show ?case
  proof (cases "n = 0 \<or> xs = []")
    case False
    with 1 have "c = take n xs \<or> c \<in> set (chunks n (drop n xs))"
      using chunks.simps [of n xs] by auto
    with 1 False show ?thesis by auto
  qed (use 1 in \<open>simp add: chunks.simps\<close>)
qed

lemma create_blobs_Ok:
  "(\<And>c. c \<in> set cs \<Longrightarrow> length c \<le> MAX_BLOB_DATA_SIZE) \<Longrightarrow>
   create_blobs cs = (Ok (map (\<lambda>c. encoded_blocks c [0..<1024]) cs) :: ('kzg blob_error, _) outcome)"
  by (induction cs) (simp_all add: create_blob_blocks del: upt.simps)

lemma decode_blobs_encoded:
  assumes "\<And>c. c \<in> set cs \<Longrightarrow> length c \<le> MAX_BLOB_DATA_SIZE"
    and "list_all2 (\<lambda>c b. sidecar_blob b = encoded_blocks c [0..<1024]) cs blobs"
    and "\<And>b. b \<in> set blobs \<Longrightarrow>
           calculate_blob_versioned_hash keccak256 (sidecar_kzg_commitment b) \<in> set hashes"
  shows "decode_blobs keccak256 blobs hashes acc = (Ok (acc @ concat cs) :: ('kzg blob_error, _) outcome)"
  using assms(2,1,3)
proof (induction cs blobs arbitrary: acc rule: list_all2_induct)
  case (Cons c cs b blobs)
  have "length c \<le> MAX_BLOB_DATA_SIZE" using Cons.prems by simp
  then show ?case using Cons by (simp add: decode_encoded del: upt.simps)
qed simp

lemma MAX_pos: "0 < MAX_BLOB_DATA_SIZE"
  by (simp add: MAX_BLOB_DATA_SIZE_def)

lemma create_blob_too_large:
  "\<not> length data \<le> MAX_BLOB_DATA_SIZE \<Longrightarrow> create_blob_from_data data = Err (InputTooLarge (length data))"
  by (simp add: create_blob_from_data_def)

lemma decode_finish_no_panic: "decode_finish blob L d \<noteq> (Panic :: ('kzg blob_error, _) outcome)"
  by (simp add: decode_finish_def)

lemma decode_blob_no_panic:
  assumes "length blob = BYTES_PER_BLOB"
  shows "decode_blob_data blob \<noteq> (Panic :: ('kzg blob_error, _) outcome)"
proof -
  let ?Bs = "cut_blocks blob" and ?L = "decoded_length (blob ! 2) (blob ! 3) (blob ! 4)"
  note c = cut_blocks [OF assms]
  obtain j where "stops_at ?Bs ?L 1 j (decode_rounds blob ?L 1023 (decoder_after ?Bs 1) :: ('kzg blob_error, _) outcome)"
    using decode_rounds_after [OF c(1), of 1 ?L, where 'kzg = 'kzg] unfolding c(2) by auto
  then have "and_then (decode_rounds blob ?L 1023 (decoder_after ?Bs 1)) (decode_finish blob ?L) \<noteq>
      (Panic :: ('kzg blob_error, _) outcome)"
    by (auto simp: stops_at_def decode_finish_no_panic)
  then show ?thesis
    using decode_blob_blocks [OF c(1), where 'kzg = 'kzg] unfolding c(2) by simp
qed

lemma decode_blobs_no_panic:
  "(\<And>b. b \<in> set blobs \<Longrightarrow> length (sidecar_blob b) = BYTES_PER_BLOB) \<Longrightarrow>
   decode_blobs keccak256 blobs hashes acc \<noteq> (Panic :: ('kzg blob_error, _) outcome)"
proof (induction blobs arbitrary: acc)
  case (Cons b blobs)
  have "decode_blob_data (sidecar_blob b) \<noteq> (Panic :: ('kzg blob_error, _) outcome)"
    using Cons.prems by (intro decode_blob_no_panic) simp
  with Cons show ?case by (cases "decode_blob_data (sidecar_blob b) :: ('kzg blob_error, _) outcome") auto
qed simp

lemma join_blocking_id: "m \<noteq> Panic \<Longrightarrow> join_blocking m = m"
  by (cases m) auto

section \<open>Properties\<close>

text \<open>
  C7. Data of any size up to \<open>MAX_BLOB_DATA_SIZE\<close> is encoded into a blob of exactly
  \<open>BYTES_PER_BLOB\<close> bytes, and decoding that blob returns the data.
\<close>

theorem blob_round_trip:
  assumes "length data \<le> MAX_BLOB_DATA_SIZE"
  shows "\<exists>blob. create_blob_from_data data = (Ok blob :: ('kzg blob_error, bytes) outcome) \<and>
           length blob = BYTES_PER_BLOB \<and>
           decode_blob_data blob = (Ok data :: ('kzg blob_error, bytes) outcome)"
  using assms
  by (intro exI [of _ "encoded_blocks data [0..<1024]"])
     (simp add: create_blob_blocks decode_encoded BYTES_PER_BLOB_def del: upt.simps)

theorem blob_round_trip_witness:
  "\<exists>blob. create_blob_from_data [7, 0, 255, 0] = (Ok blob :: (unit blob_error, bytes) outcome) \<and>
     decode_blob_data blob = (Ok [7, 0, 255, 0] :: (unit blob_error, bytes) outcome)"
  using blob_round_trip [of "[7, 0, 255, 0]", where 'kzg = unit] by (auto simp: MAX_BLOB_DATA_SIZE_def)

text \<open>
  C30. What the decoder accepts: a blob of \<open>BYTES_PER_BLOB\<close> bytes decodes to some data if and only if the encoder
  turns that data into this blob with the two high bits of its first byte cleared. So it accepts exactly what the
  encoder produces, and for each of these blobs the three others that differ only in the two bits, the one prefix
  of a field element that the decoder does not check.
\<close>

theorem decode_accepts_exactly_encoded:
  assumes "length blob = BYTES_PER_BLOB"
  shows "decode_blob_data blob = (Ok data :: ('kzg blob_error, bytes) outcome) \<longleftrightarrow>
         create_blob_from_data data = (Ok (blob[0 := blob ! 0 AND 0x3F]) :: ('kzg blob_error, bytes) outcome)"
proof -
  let ?clear = "blob[0 := blob ! 0 AND 0x3F]"
  obtain b r where blob: "blob = b # r" using assms by (cases blob) (simp_all add: BYTES_PER_BLOB_def)
  have len: "length ?clear = BYTES_PER_BLOB" using assms by simp
  have prefix: "canonical (?clear ! 0)" by (simp add: blob canonical_def cleared_prefix)
  have "decode_blob_data blob = (decode_blob_data ?clear :: ('kzg blob_error, bytes) outcome)"
    unfolding blob by (simp add: decode_low_bits [where b = b and b' = "b AND 0x3F"] cleared_prefix)
  also have "\<dots> = Ok data \<longleftrightarrow> create_blob_from_data data = (Ok ?clear :: ('kzg blob_error, bytes) outcome)"
  proof
    assume "decode_blob_data ?clear = (Ok data :: ('kzg blob_error, bytes) outcome)"
    with decode_blob_OkD [OF cut_blocks(1) [OF len], of data, where 'kzg = 'kzg] prefix
    show "create_blob_from_data data = (Ok ?clear :: ('kzg blob_error, bytes) outcome)"
      unfolding cut_blocks(2) [OF len] by (simp add: create_blob_blocks del: upt.simps)
  next
    assume ok: "create_blob_from_data data = (Ok ?clear :: ('kzg blob_error, bytes) outcome)"
    then have small: "length data \<le> MAX_BLOB_DATA_SIZE"
      by (simp add: create_blob_from_data_def split: if_splits)
    with ok have "?clear = encoded_blocks data [0..<1024]"
      by (simp add: create_blob_blocks del: upt.simps)
    with small show "decode_blob_data ?clear = (Ok data :: ('kzg blob_error, bytes) outcome)"
      by (simp only: decode_encoded)
  qed
  finally show ?thesis .
qed

theorem decode_accepts_exactly_encoded_witness:
  "decode_blob_data (192 # replicate 131071 0) = (Ok [] :: (unit blob_error, bytes) outcome)"
proof -
  have "encoded_blocks [] [0..<1024] = replicate (Suc 131071) 0"
    using encoded_blocks_past_end [of "[]" 0 1024] by (simp del: upt.simps)
  moreover have "length (192 # replicate 131071 0 :: bytes) = BYTES_PER_BLOB" by (simp add: BYTES_PER_BLOB_def)
  from decode_accepts_exactly_encoded [OF this, of "[]", where 'kzg = unit]
  have "decode_blob_data (192 # replicate 131071 0) = (Ok [] :: (unit blob_error, bytes) outcome) \<longleftrightarrow>
      create_blob_from_data [] = (Ok (replicate (Suc 131071) 0) :: (unit blob_error, bytes) outcome)"
    unfolding replicate_Suc by simp
  ultimately show ?thesis
    by (simp add: create_blob_blocks del: upt.simps replicate_Suc)
qed

text \<open>
  C31. No input makes the codec panic: encoding fails only with \<open>InputTooLarge\<close>, and exactly for
  data that is too large; decoding a blob of \<open>BYTES_PER_BLOB\<close> bytes returns or reports an error,
  whatever the bytes are.
\<close>

theorem blob_codec_never_panics:
  "create_blob_from_data data =
     (if length data \<le> MAX_BLOB_DATA_SIZE then Ok (encoded_blocks data [0..<1024])
      else Err (InputTooLarge (length data)) :: ('kzg blob_error, bytes) outcome) \<and>
   (length blob = BYTES_PER_BLOB \<longrightarrow> decode_blob_data blob \<noteq> (Panic :: ('kzg blob_error, bytes) outcome))"
  using decode_blob_no_panic [of blob, where 'kzg = 'kzg]
  by (cases "length data \<le> MAX_BLOB_DATA_SIZE")
     (simp_all add: create_blob_blocks create_blob_too_large del: upt.simps)

theorem blob_codec_never_panics_witness:
  "decode_blob_data (replicate 131072 192) \<noteq> (Panic :: (unit blob_error, bytes) outcome)"
  using blob_codec_never_panics [of "[]" "replicate 131072 192", where 'kzg = unit]
  by (simp add: BYTES_PER_BLOB_def)

text \<open>
  Every one of the 4096 field elements that the encoder writes is canonical: the two high bits
  of its first byte are zero.
\<close>

theorem encoded_field_elements_canonical:
  assumes "create_blob_from_data data = (Ok blob :: ('kzg blob_error, bytes) outcome)" and "i < 4096"
  shows "blob ! (32 * i) AND 0xC0 = 0"
proof -
  have len: "length data \<le> MAX_BLOB_DATA_SIZE"
    using assms(1) by (simp add: create_blob_from_data_def split: if_splits)
  with assms(1) have blob: "blob = concat (encoded_list data)"
    by (simp add: create_blob_blocks encoded_list del: upt.simps)
  have "i = 4 * (i div 4) + i mod 4" by simp
  then have k: "i div 4 < 1024" "32 * i = 128 * (i div 4) + 32 * (i mod 4)" using assms(2) by linarith+
  let ?B = "enc_block (frame_chunk data (i div 4))"
  have "concat (encoded_list data) ! (32 * i) = ?B ! (32 * (i mod 4))"
  proof -
    let ?Bs = "encoded_list data"
    have len: "i div 4 < length ?Bs" using k by (simp add: encoded_list_def)
    have "concat ?Bs = concat (take (i div 4) ?Bs) @ ?B @ concat (drop (Suc (i div 4)) ?Bs)"
      using k(1) by (metis len encoded_list(3) id_take_nth_drop concat.simps(2) concat_append)
    moreover have "length (concat (take (i div 4) ?Bs)) = 128 * (i div 4)"
      using length_concat_const [of "take (i div 4) ?Bs" 128] encoded_list(1) [of data] len
      by (auto simp: well_cut_def dest: in_set_takeD)
    moreover have "32 * (i mod 4) < length ?B" by simp
    ultimately show ?thesis unfolding k(2) by (simp only: nth_append) simp
  qed
  moreover have "i mod 4 = 0 \<or> i mod 4 = 1 \<or> i mod 4 = 2 \<or> i mod 4 = 3" by auto
  moreover have "block_ok ?B" by simp
  ultimately show ?thesis unfolding blob by (auto simp: block_ok_def tail_ok_def canonical_def)
qed

theorem encoded_field_elements_canonical_witness:
  "\<exists>blob. create_blob_from_data [255, 255] = (Ok blob :: (unit blob_error, bytes) outcome) \<and>
     blob ! (32 * 4095) AND 0xC0 = 0"
proof -
  obtain blob where b: "create_blob_from_data [255, 255] = (Ok blob :: (unit blob_error, bytes) outcome)"
    using create_blob_blocks [of "[255, 255]", where 'kzg = unit] by (simp add: MAX_BLOB_DATA_SIZE_def del: upt.simps)
  have "blob ! (32 * 4095) AND 0xC0 = 0"
    by (rule encoded_field_elements_canonical [OF b]) simp
  with b show ?thesis by blast
qed

text \<open>
  C32. Data of any length makes the trip over several blobs: encoding it never fails before the KZG library is
  called, so the result is what that library answers to the encoded chunks, and decoding sidecars with these
  blobs in order, when the hashes of all their commitments are wanted, gives back the data without a panic of the
  worker thread.
\<close>

theorem blobs_round_trip:
  fixes kzg :: "bytes list \<Rightarrow> 'kzg + 'sidecar" and keccak256 :: "'commitment \<Rightarrow> bytes"
  shows "\<exists>bs. create_blobs (chunks MAX_BLOB_DATA_SIZE data) = (Ok bs :: ('kzg blob_error, _) outcome) \<and>
    create_blob_sidecar_from_data_async kzg data = (case kzg bs of Inl e \<Rightarrow> Err (KZGError e) | Inr s \<Rightarrow> Ok s) \<and>
    (\<forall>blobs hashes. map sidecar_blob blobs = bs \<and>
       (\<forall>b \<in> set blobs. calculate_blob_versioned_hash keccak256 (sidecar_kzg_commitment b) \<in> set hashes) \<longrightarrow>
       decode_blobs_into_bytes_async keccak256 blobs hashes = (Ok data :: ('kzg blob_error, bytes) outcome))"
proof -
  let ?cs = "chunks MAX_BLOB_DATA_SIZE data"
  let ?bs = "map (\<lambda>c. encoded_blocks c [0..<1024]) ?cs"
  have small: "\<And>c. c \<in> set ?cs \<Longrightarrow> length c \<le> MAX_BLOB_DATA_SIZE" by (rule length_chunk)
  then have ok: "create_blobs ?cs = (Ok ?bs :: ('kzg blob_error, _) outcome)" by (rule create_blobs_Ok)
  then have "create_blob_sidecar_from_data_async kzg data =
      (case kzg ?bs of Inl e \<Rightarrow> Err (KZGError e) | Inr s \<Rightarrow> Ok s)"
    by (simp add: create_blob_sidecar_from_data_async_def create_blob_sidecar_from_data_blocking_def
        del: upt.simps split: sum.split)
  moreover have "decode_blobs_into_bytes_async keccak256 blobs hashes = (Ok data :: ('kzg blob_error, bytes) outcome)"
    if "map sidecar_blob blobs = ?bs"
      and hashes: "\<forall>b \<in> set blobs. calculate_blob_versioned_hash keccak256 (sidecar_kzg_commitment b) \<in> set hashes"
    for blobs hashes
  proof -
    have "list_all2 (\<lambda>c b. sidecar_blob b = encoded_blocks c [0..<1024]) ?cs blobs"
      using that(1) by (auto simp: list_all2_conv_all_nth list_eq_iff_nth_eq simp del: upt.simps)
    from decode_blobs_encoded [OF small this, where 'kzg = 'kzg] hashes show ?thesis
      by (simp add: decode_blobs_into_bytes_async_def concat_chunks_list MAX_pos)
  qed
  ultimately show ?thesis using ok by blast
qed

theorem blobs_round_trip_witness:
  "\<exists>blobs. decode_blobs_into_bytes_async (\<lambda>c. replicate 32 c) blobs [1 # replicate 31 5] =
     (Ok [1, 2, 3] :: (unit blob_error, bytes) outcome)"
proof -
  from blobs_round_trip [of "[1, 2, 3]" "(\<lambda>bs. Inr ()) :: bytes list \<Rightarrow> unit + unit" "\<lambda>c. replicate 32 c"]
  obtain bs where bs: "\<forall>blobs hashes. map sidecar_blob blobs = bs \<and>
       (\<forall>b \<in> set blobs. calculate_blob_versioned_hash (\<lambda>c. replicate 32 c) (sidecar_kzg_commitment b) \<in> set hashes) \<longrightarrow>
       decode_blobs_into_bytes_async (\<lambda>c. replicate 32 c) blobs hashes = (Ok [1, 2, 3] :: (unit blob_error, bytes) outcome)"
    by blast
  let ?blobs = "map (\<lambda>b. \<lparr>sidecar_blob = b, sidecar_kzg_commitment = 5 :: u8\<rparr>) bs"
  have "map sidecar_blob ?blobs = bs" by (simp add: comp_def)
  moreover have "\<forall>b \<in> set ?blobs. calculate_blob_versioned_hash (\<lambda>c. replicate 32 c) (sidecar_kzg_commitment b) \<in>
      set [1 # replicate 31 5]"
    by (auto simp: calculate_blob_versioned_hash_def VERSIONED_HASH_VERSION_KZG_def)
  ultimately show ?thesis using bs by blast
qed


end
