(* ===== verification/Inbox.thy ===== *)
theory Inbox
  imports Chain_Types
begin

text \<open>
  The bindings of the Taiko inbox, \<open>crates/chainio/src/taiko/inbox.rs\<close>: the Solidity structures and
  errors that the program decodes, and the methods the program adds to them. A \<open>bytes32\<close> is a word, a
  hash of the ABI decoder's output is never computed. Also the parsing of transport errors of
  \<open>crates/chainio/src/lib.rs\<close>; the ABI decoder is its parameter.
\<close>

section \<open>Structures of the contract\<close>

record BaseFeeConfig =
  adjustmentQuotient :: u8
  sharingPctg :: u8
  gasIssuancePerSecond :: u32
  minGasExcess :: u64
  maxGasIssuancePerBlock :: u32

record BlockParams =
  numTransactions :: u16
  timeShift :: u8
  signalSlots :: "b256 list"

record BatchInfo =
  txsHash :: b256
  info_blocks :: "BlockParams list"
  info_blobHashes :: "bytes list"
  extraData :: b256
  info_coinbase :: address
  proposedIn :: u64
  blobCreatedIn :: u64
  blobByteOffset :: u32
  blobByteSize :: u32
  gasLimit :: u32
  lastBlockId :: u64
  info_lastBlockTimestamp :: u64
  info_anchorBlockId :: u64
  anchorBlockHash :: b256
  info_baseFeeConfig :: BaseFeeConfig

record BatchMetadata =
  infoHash :: b256
  meta_proposer :: address
  batchId :: u64
  proposedAt :: u64

record BatchProposed =
  proposed_info :: BatchInfo
  proposed_meta :: BatchMetadata
  proposed_txList :: bytes

record BlobParams =
  blobHashes :: "bytes list"
  firstBlobIndex :: u8
  numBlobs :: u8
  byteOffset :: u32
  byteSize :: u32
  createdIn :: u64

record BatchParams =
  proposer :: address
  params_coinbase :: address
  parentMetaHash :: b256
  anchorBlockId :: u64
  lastBlockTimestamp :: u64
  revertIfNotFirstProposal :: bool
  blobParams :: BlobParams
  params_blocks :: "BlockParams list"

record ForkHeights =
  ontake :: u64
  pacaya :: u64

record ProtocolConfig =
  chainId :: u64
  maxUnverifiedBatches :: u64
  batchRingBufferSize :: u64
  maxBatchesToVerify :: u64
  blockMaxGasLimit :: u32
  livenessBondBase :: "96 word"
  livenessBondPerBlock :: "96 word"
  stateRootSyncInternal :: u8
  maxAnchorHeightOffset :: u64
  baseFeeConfig :: BaseFeeConfig
  provingWindow :: u16
  cooldownWindow :: "24 word"
  maxSignalsToReceive :: u8
  maxBlocksPerBatch :: u16
  forkHeights :: ForkHeights

record InboxBatch =
  metaHash :: b256
  batch_lastBlockId :: u64
  reserved3 :: "96 word"
  livenessBond :: "96 word"
  batch_batchId :: u64
  batch_lastBlockTimestamp :: u64
  batch_anchorBlockId :: u64
  nextTransitionId :: "24 word"
  reserved4 :: u8
  verifiedTransitionId :: "24 word"

record Stats2 =
  numBatches :: u64
  lastVerifiedBatchId :: u64
  paused :: bool
  lastProposedIn :: "56 word"
  lastUnpausedAt :: u64

section \<open>Errors of the contract\<close>

datatype ITaikoInboxErrors =
    AnchorBlockIdSmallerThanParent | AnchorBlockIdTooLarge | AnchorBlockIdTooSmall | ArraySizesMismatch
  | BatchNotFound | BatchVerified | BeyondCurrentFork | BlobNotFound | BlockNotFound | BlobNotSpecified
  | ContractPaused | CustomProposerMissing | CustomProposerNotAllowed | EtherNotPaidAsBond
  | FirstBlockTimeShiftNotZero | ForkNotActivated | InsufficientBond | InvalidBlobCreatedIn
  | InvalidBlobParams | InvalidGenesisBlockHash | InvalidParams | InvalidTransitionBlockHash
  | InvalidTransitionParentHash | InvalidTransitionStateRoot | MetaHashMismatch | MsgValueNotZero
  | NoBlocksToProve | NotFirstProposal | NotInboxWrapper | ParentMetaHashMismatch | SameTransition
  | SignalNotSent | TimestampSmallerThanParent | TimestampTooLarge | TimestampTooSmall | TooManyBatches
  | TooManyBlocks | TooManySignals | TransitionNotFound | ZeroAnchorBlockHash | SolError string
  | ForcedInclusionNotSupported | NotFallbackPreconfer | NotPreconfer | ProposerIsNotPreconfer
  | InvalidLastBlockId "96 word" "96 word"
  | NotTheOperator
  | InvalidBlockTxs | InvalidBlobHashesSize | InvalidBlobHash | InvalidBlobByteOffset
  | InvalidBlobByteSize | InvalidBlockSize | InvalidTimeShift | InvalidSignalSlots
  | OldestForcedInclusionDue

text \<open>A transport error: the node's error response with its message and revert data, or another one.\<close>

datatype rpc_error = ErrorResp string "bytes option" | OtherRpc string

fun as_revert_data :: "rpc_error \<Rightarrow> bytes option" where
  "as_revert_data (ErrorResp message data) = data"
| "as_revert_data (OtherRpc e) = None"

datatype 'i try_parse_result = Decoded 'i | UnknownSelectorData bytes | Original rpc_error

definition try_parse_transport_error :: "(bytes \<Rightarrow> 'i option) \<Rightarrow> rpc_error \<Rightarrow> 'i try_parse_result" where
  "try_parse_transport_error abi_decode error =
     (let revert_data = as_revert_data error;
          decoded = Option.bind revert_data abi_decode
      in case decoded of
           Some d \<Rightarrow> Decoded d
         | None \<Rightarrow>
             (case revert_data of
                Some data \<Rightarrow> UnknownSelectorData data
              | None \<Rightarrow> Original error))"

section \<open>Methods\<close>

record primitive_base_fee_config =
  adjustment_quotient :: u8
  sharing_pctg :: u8
  gas_issuance_per_second :: u32
  min_gas_excess :: u64
  max_gas_issuance_per_block :: u32

definition into_primitive :: "BaseFeeConfig \<Rightarrow> primitive_base_fee_config" where
  "into_primitive self =
     \<lparr>adjustment_quotient = adjustmentQuotient self, sharing_pctg = sharingPctg self,
      gas_issuance_per_second = gasIssuancePerSecond self, min_gas_excess = minGasExcess self,
      max_gas_issuance_per_block = maxGasIssuancePerBlock self\<rparr>"

definition to_be_bytes_u64 :: "u64 \<Rightarrow> bytes" where
  "to_be_bytes_u64 x = map (\<lambda>i. ucast (drop_bit (8 * (7 - i)) x)) [0..<8]"

fun position_nonzero :: "bytes \<Rightarrow> nat option" where
  "position_nonzero [] = None"
| "position_nonzero (b # bs) = (if b \<noteq> 0 then Some 0 else map_option Suc (position_nonzero bs))"

definition encoded_extra_data :: "BaseFeeConfig \<Rightarrow> bytes option" where
  "encoded_extra_data self =
     (let bytes32_value = replicate 32 0;
          uint_bytes = to_be_bytes_u64 (ucast (sharingPctg self));
          first_nonzero = (case position_nonzero uint_bytes of Some i \<Rightarrow> i | None \<Rightarrow> length uint_bytes);
          minimal = drop first_nonzero uint_bytes;
          start = 32 - length minimal
      in copy_from_slice bytes32_value start 32 minimal)"

definition range_inclusive :: "u64 \<Rightarrow> u64 \<Rightarrow> u64 list" where
  "range_inclusive a b = map of_nat [unat a..<Suc (unat b)]"

definition block_numbers_proposed :: "BatchProposed \<Rightarrow> u64 list" where
  "block_numbers_proposed self =
     (let last = lastBlockId (proposed_info self);
          count = of_nat (length (info_blocks (proposed_info self)));
          first = sat_sub last count + 1
      in range_inclusive first last)"

definition last_block_number :: "BatchProposed \<Rightarrow> u64" where
  "last_block_number self = lastBlockId (proposed_info self)"

definition last_block_timestamp :: "BatchProposed \<Rightarrow> u64" where
  "last_block_timestamp self = info_lastBlockTimestamp (proposed_info self)"

text \<open>
  The results of the two calls that \<open>get_parent_meta_hash\<close> and \<open>get_head_l1_origin\<close> make are the
  arguments; the batch is looked up under \<open>numBatches - 1\<close>, which wraps for an empty inbox.
\<close>

definition get_head_l1_origin :: "'e + Stats2 \<Rightarrow> (u64 \<Rightarrow> 'e + InboxBatch) \<Rightarrow> 'e + u64" where
  "get_head_l1_origin get_stats2 get_batch =
     (case get_stats2 of
        Inl e \<Rightarrow> Inl e
      | Inr stats2 \<Rightarrow>
          (case get_batch (numBatches stats2 - 1) of
             Inl e \<Rightarrow> Inl e
           | Inr batch \<Rightarrow> Inr (batch_lastBlockId batch)))"

definition get_parent_meta_hash ::
  "('e \<Rightarrow> 'f) \<Rightarrow> 'e + Stats2 \<Rightarrow> (u64 \<Rightarrow> 'e + InboxBatch) \<Rightarrow> 'f + b256" where
  "get_parent_meta_hash decode get_stats2 get_batch =
     (case get_stats2 of
        Inr stats2 \<Rightarrow>
          (case get_batch (numBatches stats2 - 1) of
             Inr batch \<Rightarrow> Inr (metaHash batch)
           | Inl err \<Rightarrow> Inl (decode err))
      | Inl err \<Rightarrow> Inl (decode err))"

text \<open>The three numbers that both summaries print: the blocks, and the first and last timestamps.\<close>

definition total_shift :: "BlockParams list \<Rightarrow> u64" where
  "total_shift bs = sum_list (map (\<lambda>b. ucast (timeShift b)) bs)"

definition params_summary :: "BatchParams \<Rightarrow> u64 \<times> u64 \<times> u64" where
  "params_summary self =
     (let last_block_ts = lastBlockTimestamp self;
          first_block_ts = sat_sub last_block_ts (total_shift (params_blocks self))
      in (of_nat (length (params_blocks self)), first_block_ts, last_block_ts))"

definition proposed_summary :: "BatchProposed \<Rightarrow> u64 \<times> u64 \<times> u64" where
  "proposed_summary self =
     (let last_block_ts = info_lastBlockTimestamp (proposed_info self);
          first_block_ts = sat_sub last_block_ts (total_shift (info_blocks (proposed_info self)))
      in (of_nat (length (info_blocks (proposed_info self))), first_block_ts, last_block_ts))"

section \<open>Lemmas\<close>

lemma range_inclusive_sel [simp]:
  "length (range_inclusive a b) = Suc (unat b) - unat a"
  "i < Suc (unat b) - unat a \<Longrightarrow> range_inclusive a b ! i = a + of_nat i"
  by (simp_all add: range_inclusive_def del: upt_Suc)

lemma to_be_bytes_u64_byte: "to_be_bytes_u64 (ucast (b :: u8)) = replicate 7 0 @ [b]"
proof -
  have "drop_bit (8 * (7 - i)) (ucast b :: u64) = 0" if "i < 7" for i
  proof (rule bit_word_eqI)
    fix n assume "n < LENGTH(64)"
    have "8 \<le> 8 * (7 - i) + n" using that by simp
    then show "bit (drop_bit (8 * (7 - i)) (ucast b :: u64)) n = bit (0 :: u64) n"
      using bit_imp_le_length [of b "8 * (7 - i) + n"] by (auto simp: bit_drop_bit_eq bit_ucast_iff)
  qed
  then show ?thesis
    by (intro nth_equalityI) (auto simp: to_be_bytes_u64_def nth_append intro: bit_word_eqI simp: bit_ucast_iff)
qed

lemma position_nonzero_padded: "position_nonzero (replicate n 0 @ [b]) = (if b = 0 then None else Some n)"
  by (induction n) auto

section \<open>Properties\<close>

text \<open>
  The extra data of a block is the sharing percentage as a 32 byte big-endian number, also when the
  percentage is 0, where the minimal representation that is copied is empty; the copy never panics.
\<close>

lemma extra_data_is_big_endian:
  "encoded_extra_data c = Some (replicate 31 0 @ [sharingPctg c])"
proof -
  have "replicate 32 0 = replicate 31 0 @ [0 :: u8]"
    using replicate_append_same [of 31 "0 :: u8"] replicate_Suc [of 31 "0 :: u8"] by simp
  then show ?thesis
    by (simp add: encoded_extra_data_def to_be_bytes_u64_byte position_nonzero_padded copy_from_slice_def)
qed

lemma proposed_numbers_are_consecutive_parts:
  assumes "0 < length (info_blocks (proposed_info p))"
    and "length (info_blocks (proposed_info p)) \<le> unat (lastBlockId (proposed_info p))"
  defines "n \<equiv> length (info_blocks (proposed_info p))"
  shows "length (block_numbers_proposed p) = n"
    and "\<And>i. i < n \<Longrightarrow> unat (block_numbers_proposed p ! i) + n = unat (last_block_number p) + 1 + i"
    and "last (block_numbers_proposed p) = last_block_number p"
proof -
  let ?l = "lastBlockId (proposed_info p)"
  have n: "n < 2 ^ 64" using assms(2) unat_lt_power [of ?l] by (simp add: n_def)
  have le: "n \<le> unat ?l" using assms(2) by (simp only: n_def)
  have cnt: "unat (of_nat n :: u64) = n" using n by (simp add: unat_of_nat)
  have f: "unat (sat_sub ?l (of_nat n)) = unat ?l - n" by (simp add: cnt)
  have lt: "unat (sat_sub ?l (of_nat n)) + unat (1 :: u64) < 2 ^ LENGTH(64)"
  proof -
    have "0 < n" using assms(1) by (simp only: n_def)
    moreover have "unat ?l < 2 ^ 64" using unat_lt_power [of ?l] by simp
    ultimately show ?thesis unfolding f by simp
  qed
  have f1: "unat (sat_sub ?l (of_nat n) + 1) = unat ?l - n + 1"
    using unat_add_no_wrap [OF lt] by (simp only: f unat_1)
  have b: "block_numbers_proposed p = range_inclusive (sat_sub ?l (of_nat n) + 1) ?l"
    by (simp add: block_numbers_proposed_def n_def Let_def)
  show len: "length (block_numbers_proposed p) = n" using le by (simp only: b range_inclusive_sel f1)
  show nth: "unat (block_numbers_proposed p ! i) + n = unat (last_block_number p) + 1 + i" if "i < n" for i
  proof -
    have i: "i < Suc (unat ?l) - unat (sat_sub ?l (of_nat n) + 1)" using that le by (simp only: f1)
    have "unat (sat_sub ?l (of_nat n) + 1) + unat (of_nat i :: u64) < 2 ^ LENGTH(64)"
      using that n le unat_lt_power [of ?l] unfolding f1 by (simp add: unat_of_nat)
    then have "unat (sat_sub ?l (of_nat n) + 1 + of_nat i) = unat ?l - n + 1 + i"
      using that n by (simp only: unat_add_no_wrap f1) (simp add: unat_of_nat)
    then show ?thesis using i le by (simp only: b range_inclusive_sel last_block_number_def)
  qed
  have "last (block_numbers_proposed p) = block_numbers_proposed p ! (n - 1)"
    using len assms(1) by (metis last_conv_nth length_greater_0_conv n_def)
  moreover have "unat (block_numbers_proposed p ! (n - 1)) = unat (last_block_number p)"
    using nth [of "n - 1"] assms(1) n_def by linarith
  ultimately show "last (block_numbers_proposed p) = last_block_number p" by (metis unat_inj)
qed

text \<open>
  The block numbers of a batch that the inbox announces: as many consecutive numbers as the batch has
  blocks, the last of them the announced last block. The hypotheses hold for every batch of the inbox:
  a batch has a block, and the genesis block 0 is in none.
\<close>

theorem proposed_numbers_are_consecutive:
  assumes "0 < length (info_blocks (proposed_info p))"
    and "length (info_blocks (proposed_info p)) \<le> unat (lastBlockId (proposed_info p))"
  shows "length (block_numbers_proposed p) = length (info_blocks (proposed_info p)) \<and>
    (\<forall>i < length (info_blocks (proposed_info p)).
       unat (block_numbers_proposed p ! i) + length (info_blocks (proposed_info p)) = unat (last_block_number p) + 1 + i) \<and>
    last (block_numbers_proposed p) = last_block_number p"
  using proposed_numbers_are_consecutive_parts [OF assms] by blast

theorem proposed_numbers_are_consecutive_witness:
  "last (block_numbers_proposed
     \<lparr>proposed_info =
        \<lparr>txsHash = 0, info_blocks = replicate 3 \<lparr>numTransactions = 0, timeShift = 0, signalSlots = []\<rparr>,
         info_blobHashes = [], extraData = 0, info_coinbase = 0, proposedIn = 0, blobCreatedIn = 0,
         blobByteOffset = 0, blobByteSize = 0, gasLimit = 0, lastBlockId = 3, info_lastBlockTimestamp = 0,
         info_anchorBlockId = 0, anchorBlockHash = 0,
         info_baseFeeConfig = \<lparr>adjustmentQuotient = 0, sharingPctg = 0, gasIssuancePerSecond = 0,
           minGasExcess = 0, maxGasIssuancePerBlock = 0\<rparr>\<rparr>,
      proposed_meta = \<lparr>infoHash = 0, meta_proposer = 0, batchId = 0, proposedAt = 0\<rparr>,
      proposed_txList = []\<rparr>) = 3"
  by (subst proposed_numbers_are_consecutive [THEN conjunct2, THEN conjunct2]) (simp_all add: last_block_number_def)

end
