(* ===== verification/Config.thy ===== *)
theory Config
  imports Batch Blob Inbox
begin

text \<open>
  The configuration: the options of \<open>crates/config/src/\<close> that the driver reads and the
  \<open>RuntimeConfig\<close> of \<open>crates/driver/src/config.rs\<close> with its derived values. URLs, keys and the
  telemetry options have no model; the address of the operator stands for its key.
  \<open>MAX_BLOBS_PER_BLOCK_ELECTRA\<close> is the constant 9 of EIP-7691 that the code imports.
\<close>

record preconf_opts =
  min_tip_wei :: u64
  min_batch_tip_wei :: u128
  enable_building_empty_blocks :: bool
  handover_window_slots :: u64
  handover_skip_slots :: u64
  anchor_block_lag :: u64
  preconf_anchor_max_height_buffer :: u64
  batch_size_target_kb :: u64
  max_block_size_bytes :: u64
  da_throttling_factor :: u64
  disable_expected_last_block_id :: bool
  max_tx_lists_per_call :: u64

definition default_preconf_opts :: preconf_opts where
  "default_preconf_opts =
     \<lparr>min_tip_wei = 0, min_batch_tip_wei = 1000000, enable_building_empty_blocks = False,
      handover_window_slots = 4, handover_skip_slots = 1, anchor_block_lag = 4,
      preconf_anchor_max_height_buffer = 6, batch_size_target_kb = 380, max_block_size_bytes = 126976,
      da_throttling_factor = 12, disable_expected_last_block_id = False, max_tx_lists_per_call = 1\<rparr>"

record chain_opts =
  l2_block_time :: u64
  l1_block_time :: u64

record runtime_config =
  preconf :: preconf_opts
  chain :: chain_opts
  operator_address :: address
  min_eth_balance :: u256
  min_taiko_balance :: u256
  l1_genesis_timestamp :: u64
  pacaya_config :: ProtocolConfig

text \<open>The command line options of which the configuration keeps a part, and the defaults of the operator.\<close>

record opts =
  opts_preconf :: preconf_opts
  opts_chain :: chain_opts
  opts_operator :: address
  opts_min_eth_balance :: u256
  opts_min_taiko_balance :: u256

definition ETH_TO_WEI :: u256 where "ETH_TO_WEI = 1000000000000000000"

definition default_min_balances :: "u256 \<times> u256" where
  "default_min_balances = (ETH_TO_WEI, 1000 * ETH_TO_WEI)"

text \<open>
  Creating the configuration: the answers of the beacon node and of the inbox are arguments; the inbox is only
  asked after the beacon node has answered.
\<close>

datatype ('b, 'c) runtime_config_error = Beacon_Api 'b | Config_Contract 'c

definition from_opts ::
  "'b + u64 \<Rightarrow> 'c + ProtocolConfig \<Rightarrow> opts \<Rightarrow> ('b, 'c) runtime_config_error + runtime_config" where
  "from_opts get_genesis_time get_pacaya_config options =
     (case get_genesis_time of
        Inl e \<Rightarrow> Inl (Beacon_Api e)
      | Inr genesis_time \<Rightarrow>
          (case get_pacaya_config of
             Inl e \<Rightarrow> Inl (Config_Contract e)
           | Inr config \<Rightarrow>
               Inr \<lparr>preconf = opts_preconf options, chain = opts_chain options, operator_address = opts_operator options,
                 min_eth_balance = opts_min_eth_balance options, min_taiko_balance = opts_min_taiko_balance options,
                 l1_genesis_timestamp = genesis_time, pacaya_config = config\<rparr>))"

definition BYTES_PER_KB :: usize where "BYTES_PER_KB = 1024"
definition MAX_BLOBS_PER_BLOCK_ELECTRA :: usize where "MAX_BLOBS_PER_BLOCK_ELECTRA = 9"

definition current_slot :: "runtime_config \<Rightarrow> u64 \<Rightarrow> u64 option" where
  "current_slot cfg now = timestamp_to_l1_slot now (l1_genesis_timestamp cfg) (l1_block_time (chain cfg))"

definition cfg_timestamp_to_l1_slot :: "runtime_config \<Rightarrow> u64 \<Rightarrow> u64 option" where
  "cfg_timestamp_to_l1_slot cfg ts =
     timestamp_to_l1_slot ts (l1_genesis_timestamp cfg) (l1_block_time (chain cfg))"

definition cfg_slot_to_timestamp :: "runtime_config \<Rightarrow> u64 \<Rightarrow> u64" where
  "cfg_slot_to_timestamp cfg slot =
     slot_to_timestamp slot (l1_genesis_timestamp cfg) (l1_block_time (chain cfg))"

definition max_proposable_block_age_secs :: "runtime_config \<Rightarrow> u64" where
  "max_proposable_block_age_secs cfg =
     maxAnchorHeightOffset (pacaya_config cfg) * l1_block_time (chain cfg)"

definition default_proposal_time_buffer :: "runtime_config \<Rightarrow> u64" where
  "default_proposal_time_buffer cfg =
     preconf_anchor_max_height_buffer (preconf cfg) * l1_block_time (chain cfg)"

definition cfg_batch_settings :: "runtime_config \<Rightarrow> batch_settings" where
  "cfg_batch_settings cfg =
     \<lparr>capacity = unat (maxBlocksPerBatch (pacaya_config cfg)),
      target_compressed_size = unat (batch_size_target_kb (preconf cfg)) * BYTES_PER_KB,
      max_raw_size = MAX_BLOB_DATA_SIZE * MAX_BLOBS_PER_BLOCK_ELECTRA,
      default_coinbase = operator_address cfg,
      max_anchor_height_offset = maxAnchorHeightOffset (pacaya_config cfg),
      anchor_max_height_buffer = preconf_anchor_max_height_buffer (preconf cfg)\<rparr>"

text \<open>The time until the first tick of the slot clock, in seconds.\<close>

definition slot_clock_delay :: "runtime_config \<Rightarrow> u64 \<Rightarrow> u64 option" where
  "slot_clock_delay cfg now =
     (case cfg_timestamp_to_l1_slot cfg now of
        None \<Rightarrow> None
      | Some slot \<Rightarrow>
          let next_slot_ts = l1_genesis_timestamp cfg + slot * l1_block_time (chain cfg) + l1_block_time (chain cfg)
          in Some (sat_sub next_slot_ts now))"

text \<open>The configuration the examples use: 12 second slots, 2 second L2 blocks.\<close>

definition example_config :: runtime_config where
  "example_config =
     \<lparr>preconf = default_preconf_opts, chain = \<lparr>l2_block_time = 2, l1_block_time = 12\<rparr>,
      operator_address = 7, min_eth_balance = 0, min_taiko_balance = 0, l1_genesis_timestamp = 1000,
      pacaya_config =
        \<lparr>chainId = 167, maxUnverifiedBatches = 0, batchRingBufferSize = 0, maxBatchesToVerify = 0,
         blockMaxGasLimit = 240000000, livenessBondBase = 0, livenessBondPerBlock = 0,
         stateRootSyncInternal = 4, maxAnchorHeightOffset = 64,
         baseFeeConfig = \<lparr>adjustmentQuotient = 8, sharingPctg = 75, gasIssuancePerSecond = 5000000,
           minGasExcess = 1, maxGasIssuancePerBlock = 0\<rparr>,
         provingWindow = 0, cooldownWindow = 0, maxSignalsToReceive = 16, maxBlocksPerBatch = 768,
         forkHeights = \<lparr>ontake = 0, pacaya = 0\<rparr>\<rparr>\<rparr>"

section \<open>Slots and timestamps\<close>

text \<open>What \<open>timestamp_to_l1_slot\<close> computes when nothing wraps.\<close>

lemma timestamp_to_l1_slot_nat:
  "timestamp_to_l1_slot ts g bt = Some s \<longleftrightarrow> bt \<noteq> 0 \<and> unat s = (unat ts - unat g) div unat bt"
  by (auto simp: timestamp_to_l1_slot_def checked_div_def word_unat_eq_iff unat_div)

lemma unat_slot_to_timestamp:
  "unat g + unat s * unat bt < 2 ^ 64 \<Longrightarrow> unat (slot_to_timestamp s g bt) = unat g + unat s * unat bt"
  unfolding slot_to_timestamp_def
  by (subst unat_add_no_wrap; subst unat_mul_no_wrap) simp_all

end
