(* ===== verification/Lookahead.thy ===== *)
theory Lookahead
  imports Config "HOL-Library.Monad_Syntax"
begin

text \<open>
  Who may sequence and propose when: the windows of \<open>crates/driver/src/lookahead.rs\<close> and the driver
  status of \<open>crates/driver/src/status.rs\<close>. A window is a ring buffer of three epochs; its contract
  is the set of epochs it holds (\<open>epochs_of\<close>). The whitelist contract's answers, the system clock and
  the monotonic clock are arguments. A division by a zero block time of the configuration is \<open>None\<close>.
\<close>

section \<open>Driver status\<close>

type_synonym instant = nat

datatype driver_status =
    Inactive
  | HandoverWait instant
  | SequencingOnly
  | InclusionOnly
  | Active

definition can_propose :: "driver_status \<Rightarrow> bool" where
  "can_propose s = (case s of InclusionOnly \<Rightarrow> True | Active \<Rightarrow> True | _ \<Rightarrow> False)"

definition can_sequence :: "driver_status \<Rightarrow> bool" where
  "can_sequence s = (case s of SequencingOnly \<Rightarrow> True | Active \<Rightarrow> True | _ \<Rightarrow> False)"

section \<open>Windows\<close>

definition WINDOW_SIZE :: usize where "WINDOW_SIZE = 3"

record window =
  w_inner :: "(bool \<times> u64) list"
  w_offset :: u64

definition with_offset :: "u64 \<Rightarrow> window" where
  "with_offset offset = \<lparr>w_inner = replicate WINDOW_SIZE (False, 0), w_offset = offset\<rparr>"

definition default_window :: window where
  "default_window = \<lparr>w_inner = replicate WINDOW_SIZE (False, 0), w_offset = 0\<rparr>"

definition epoch_to_range_with_offset :: "window \<Rightarrow> u64 \<Rightarrow> u64 \<times> u64" where
  "epoch_to_range_with_offset w epoch =
     (let range = to_slot_range epoch
      in (sat_sub (fst range) (w_offset w), sat_sub (snd range) (w_offset w)))"

definition apply_epoch :: "window \<Rightarrow> u64 \<Rightarrow> window" where
  "apply_epoch w epoch = w\<lparr>w_inner := (w_inner w)[unat epoch mod WINDOW_SIZE := (True, epoch)]\<rparr>"

definition reset_at_epoch :: "window \<Rightarrow> u64 \<Rightarrow> window" where
  "reset_at_epoch w epoch = w\<lparr>w_inner := (w_inner w)[unat epoch mod WINDOW_SIZE := (False, 0)]\<rparr>"

definition window_contains :: "window \<Rightarrow> u64 \<Rightarrow> bool" where
  "window_contains w slot =
     (case find (\<lambda>(_, epoch). range_contains (epoch_to_range_with_offset w epoch) slot) (w_inner w) of
        Some (is_set, _) \<Rightarrow> is_set
      | None \<Rightarrow> False)"

fun window_end_loop :: "(bool \<times> u64) list \<Rightarrow> u64 \<times> bool \<Rightarrow> u64 \<times> bool" where
  "window_end_loop [] acc = acc"
| "window_end_loop ((is_set, epoch) # rest) (highest, any_set) =
     window_end_loop rest (if is_set \<and> highest \<le> epoch then (epoch, True) else (highest, any_set))"

definition window_end :: "window \<Rightarrow> u64" where
  "window_end w =
     (let (highest, any_set) = window_end_loop (w_inner w) (0, False)
      in if highest = 0 \<and> \<not> any_set then 0
         else sat_sub (sat_add (to_slot highest) EPOCH_SLOTS) (w_offset w))"

definition window_is_empty :: "window \<Rightarrow> bool" where
  "window_is_empty w = list_all (\<lambda>(is_set, _). \<not> is_set) (w_inner w)"

definition calculate_inclusion :: "window \<Rightarrow> u64 \<Rightarrow> bool \<Rightarrow> bool \<Rightarrow> window" where
  "calculate_inclusion w head_slot sequencer_current_epoch sequencer_next_epoch =
     (let current_epoch = to_epoch head_slot;
          current_epoch_start_slot = to_slot current_epoch;
          w = (if sequencer_current_epoch then apply_epoch w (to_epoch head_slot)
               else if window_contains w current_epoch_start_slot then reset_at_epoch w current_epoch
               else w);
          next_epoch = sat_add (to_epoch head_slot) 1;
          next_epoch_start_slot = to_slot next_epoch
      in if sequencer_next_epoch then apply_epoch w (sat_add (to_epoch head_slot) 1)
         else if window_contains w next_epoch_start_slot then reset_at_epoch w next_epoch
         else w)"

definition calculate_sequencing :: "window \<Rightarrow> window \<Rightarrow> window" where
  "calculate_sequencing w inclusion_window =
     (let epochs = map snd (filter fst (w_inner inclusion_window))
      in fold (\<lambda>epoch w. apply_epoch w epoch) epochs
           (w\<lparr>w_inner := replicate WINDOW_SIZE (False, 0)\<rparr>))"

definition window_is_new :: "window \<Rightarrow> u64 \<Rightarrow> bool" where
  "window_is_new w head_slot =
     (window_contains w head_slot \<and> \<not> window_contains w (sat_sub head_slot EPOCH_SLOTS))"

section \<open>The lookahead\<close>

record lookahead =
  la_cfg :: runtime_config
  sequencing_window :: window
  inclusion_window :: window
  end_of_sequencing_mark :: u64

definition lookahead_new :: "runtime_config \<Rightarrow> lookahead" where
  "lookahead_new cfg =
     \<lparr>la_cfg = cfg, sequencing_window = with_offset (handover_window_slots (preconf cfg)),
      inclusion_window = default_window, end_of_sequencing_mark = 0\<rparr>"

definition is_past_handover_buffer :: "lookahead \<Rightarrow> u64 \<Rightarrow> bool option" where
  "is_past_handover_buffer la ts = do {
     slot \<leftarrow> cfg_timestamp_to_l1_slot (la_cfg la) ts;
     if end_of_sequencing_mark la = to_epoch slot then Some True
     else
       let seq_window_first_slot =
             sat_sub (next_multiple_of slot EPOCH_SLOTS) (handover_window_slots (preconf (la_cfg la)));
           seq_window_ts = cfg_slot_to_timestamp (la_cfg la) seq_window_first_slot
       in Some (sat_sub ts seq_window_ts \<ge>
                handover_skip_slots (preconf (la_cfg la)) * l2_block_time (chain (la_cfg la)))
   }"

definition compute_driver_status :: "lookahead \<Rightarrow> u64 \<Rightarrow> u64 \<Rightarrow> instant \<Rightarrow> driver_status option" where
  "compute_driver_status la head_slot now inst =
     (let in_seq = window_contains (sequencing_window la) head_slot;
          in_incl = window_contains (inclusion_window la) head_slot
      in if in_seq \<and> in_incl then Some Active
         else if in_seq then do {
           past \<leftarrow> is_past_handover_buffer la now;
           Some (if past then SequencingOnly else HandoverWait inst)
         }
         else if in_incl then Some InclusionOnly
         else Some Inactive)"

text \<open>\<open>current\<close> and \<open>next\<close> are what the two reads of the whitelist contract return.\<close>

definition lookahead_sync ::
  "lookahead \<Rightarrow> u64 \<Rightarrow> 'e + address \<Rightarrow> 'e + address \<Rightarrow> u64 \<Rightarrow> instant \<Rightarrow> lookahead \<times> driver_status option" where
  "lookahead_sync la head_slot current next now inst =
     (if head_slot mod EPOCH_SLOTS = 0 then (la, compute_driver_status la head_slot now inst)
      else case (current, next) of
        (Inr current_operator, Inr next_operator) \<Rightarrow>
          let seq_current_epoch = (current_operator = operator_address (la_cfg la));
              seq_next_epoch = (next_operator = operator_address (la_cfg la));
              incl = calculate_inclusion (inclusion_window la) head_slot seq_current_epoch seq_next_epoch;
              la = la\<lparr>inclusion_window := incl,
                      sequencing_window := calculate_sequencing (sequencing_window la) incl\<rparr>
          in (la, compute_driver_status la head_slot now inst)
      | _ \<Rightarrow> (la, compute_driver_status la head_slot now inst))"

definition update_end_of_sequencing_mark :: "lookahead \<Rightarrow> u64 \<Rightarrow> lookahead" where
  "update_end_of_sequencing_mark la epoch = la\<lparr>end_of_sequencing_mark := epoch\<rparr>"

definition sequencing_slots_left :: "lookahead \<Rightarrow> u64 \<Rightarrow> u64" where
  "sequencing_slots_left la l1_head_slot = sat_sub (window_end (sequencing_window la)) l1_head_slot"

definition inclusion_window_end :: "lookahead \<Rightarrow> u64" where
  "inclusion_window_end la = window_end (inclusion_window la)"

definition is_new_inclusion_window :: "lookahead \<Rightarrow> u64 \<Rightarrow> bool" where
  "is_new_inclusion_window la l1_head_slot = window_is_new (inclusion_window la) l1_head_slot"

text \<open>The timestamp that \<open>is_whitelisted\<close> passes to the contract, and its answer (false on errors).\<close>

definition whitelist_epoch_ts :: "lookahead \<Rightarrow> u64 \<Rightarrow> u64 option" where
  "whitelist_epoch_ts la now = do {
     slot \<leftarrow> current_slot (la_cfg la) now;
     let current_epoch = to_epoch slot;
     Some (l1_genesis_timestamp (la_cfg la) + current_epoch * EPOCH_SLOTS * l1_block_time (chain (la_cfg la)))
   }"

definition is_whitelisted :: "(address \<Rightarrow> u64 \<Rightarrow> 'e + bool) \<Rightarrow> lookahead \<Rightarrow> u64 \<Rightarrow> bool option" where
  "is_whitelisted contract la now = do {
     epoch_ts \<leftarrow> whitelist_epoch_ts la now;
     Some (case contract (operator_address (la_cfg la)) epoch_ts of Inr b \<Rightarrow> b | Inl e \<Rightarrow> False)
   }"

definition is_last_block_in_sequencing_window :: "lookahead \<Rightarrow> u64 \<Rightarrow> bool option" where
  "is_last_block_in_sequencing_window la ts = do {
     slot \<leftarrow> cfg_timestamp_to_l1_slot (la_cfg la) ts;
     if sat_sub (window_end (sequencing_window la)) 1 \<noteq> slot then Some False
     else
       let slot_ts = cfg_slot_to_timestamp (la_cfg la) slot;
           last_ts = slot_ts + l1_block_time (chain (la_cfg la)) - l2_block_time (chain (la_cfg la))
       in Some (ts = last_ts)
   }"

section \<open>Merging ranges\<close>

fun merge_loop :: "('a \<times> 'a) \<Rightarrow> ('a \<times> 'a) list \<Rightarrow> ('a \<times> 'a) list \<Rightarrow> ('a \<times> 'a) list" where
  "merge_loop current [] collapsed = collapsed @ [current]"
| "merge_loop current (r # rs) collapsed =
     (if snd current = fst r then merge_loop (fst current, snd r) rs collapsed
      else merge_loop r rs (collapsed @ [current]))"

definition merge_adjacent_ranges :: "('a::linorder \<times> 'a) list \<Rightarrow> ('a \<times> 'a) list" where
  "merge_adjacent_ranges ranges =
     (case sort_key fst ranges of [] \<Rightarrow> [] | first # rest \<Rightarrow> merge_loop first rest [])"

section \<open>Windows as sets of epochs\<close>

definition epoch_fits :: "u64 \<Rightarrow> bool" where
  "epoch_fits e = ((unat e + 1) * 32 < 2 ^ 64)"

text \<open>
  The invariant of the ring: three entries, a set entry sits at its epoch modulo three, and an entry
  that is not set is the initial one.
\<close>

definition entry_ok :: "nat \<Rightarrow> bool \<times> u64 \<Rightarrow> bool" where
  "entry_ok i x = (if fst x then unat (snd x) mod 3 = i \<and> epoch_fits (snd x) else snd x = 0)"

definition ring_ok :: "window \<Rightarrow> bool" where
  "ring_ok w =
     (case w_inner w of
        [x0, x1, x2] \<Rightarrow> entry_ok 0 x0 \<and> entry_ok 1 x1 \<and> entry_ok 2 x2
      | _ \<Rightarrow> False)"

definition epochs_of :: "window \<Rightarrow> nat set" where
  "epochs_of w = {unat e | e. (True, e) \<in> set (w_inner w)}"

lemma ring_cases:
  assumes "ring_ok w"
  obtains x0 x1 x2 where "w_inner w = [x0, x1, x2]" "entry_ok 0 x0" "entry_ok 1 x1" "entry_ok 2 x2"
  using assms by (auto simp: ring_ok_def split: list.splits)

lemma ring_okI:
  "w_inner w = [x0, x1, x2] \<Longrightarrow> entry_ok 0 x0 \<Longrightarrow> entry_ok 1 x1 \<Longrightarrow> entry_ok 2 x2 \<Longrightarrow> ring_ok w"
  by (simp add: ring_ok_def)

lemma entry_ok_pair [simp]:
  "entry_ok i (True, e) \<longleftrightarrow> unat e mod 3 = i \<and> epoch_fits e" "entry_ok i (False, e) \<longleftrightarrow> e = 0"
  by (simp_all add: entry_ok_def)

lemma ring_ok_initial [simp]: "ring_ok default_window" "ring_ok (with_offset off)"
  by (simp_all add: ring_ok_def default_window_def with_offset_def WINDOW_SIZE_def numeral_3_eq_3)

lemma epochs_initial [simp]: "epochs_of default_window = {}" "epochs_of (with_offset off) = {}"
  by (auto simp: epochs_of_def default_window_def with_offset_def WINDOW_SIZE_def)

lemma mod3_cases: "(n :: nat) mod 3 = 0 \<or> n mod 3 = 1 \<or> n mod 3 = 2"
  by auto

lemma list_update_3: "[a, b, c][0 := y] = [y, b, c]" "[a, b, c][Suc 0 := y] = [a, y, c]" "[a, b, c][2 := y] = [a, b, y]"
  by (simp_all add: numeral_2_eq_2)

lemma ring_ok_apply:
  assumes "ring_ok w" "epoch_fits e"
  shows "ring_ok (apply_epoch w e)"
  using assms(1) mod3_cases [of "unat e"]
  by (elim ring_cases disjE) (simp_all add: ring_ok_def apply_epoch_def WINDOW_SIZE_def list_update_3 assms(2) del: list_update.simps)

lemma ring_ok_reset:
  assumes "ring_ok w"
  shows "ring_ok (reset_at_epoch w e)"
  using assms mod3_cases [of "unat e"]
  by (elim ring_cases disjE) (simp_all add: ring_ok_def reset_at_epoch_def WINDOW_SIZE_def list_update_3 del: list_update.simps)

text \<open>The epochs of three given entries.\<close>

lemma epochs_of_3:
  "w_inner w = [x0, x1, x2] \<Longrightarrow> d \<in> epochs_of w \<longleftrightarrow>
     fst x0 \<and> d = unat (snd x0) \<or> fst x1 \<and> d = unat (snd x1) \<or> fst x2 \<and> d = unat (snd x2)"
  by (cases x0; cases x1; cases x2) (auto simp: epochs_of_def)

lemma entry_ok_mod: "entry_ok i x \<Longrightarrow> fst x \<Longrightarrow> unat (snd x) mod 3 = i"
  by (simp add: entry_ok_def)

lemma epochs_apply:
  assumes "ring_ok w"
  shows "epochs_of (apply_epoch w e) = insert (unat e) {d \<in> epochs_of w. d mod 3 \<noteq> unat e mod 3}"
  using assms
proof (rule ring_cases)
  fix x0 x1 x2 assume w: "w_inner w = [x0, x1, x2]" and ok: "entry_ok 0 x0" "entry_ok 1 x1" "entry_ok 2 x2"
  note m = entry_ok_mod [OF ok(1)] entry_ok_mod [OF ok(2)] entry_ok_mod [OF ok(3)]
  have "w_inner (apply_epoch w e) =
      (if unat e mod 3 = 0 then [(True, e), x1, x2] else if unat e mod 3 = 1 then [x0, (True, e), x2]
       else [x0, x1, (True, e)])"
    using mod3_cases [of "unat e"] by (auto simp: apply_epoch_def WINDOW_SIZE_def w list_update_3 simp del: list_update.simps)
  then show ?thesis
    using mod3_cases [of "unat e"] m
    by (intro set_eqI) (elim disjE; simp add: epochs_of_3 [where w = "apply_epoch w e"] epochs_of_3 [OF w]; auto)
qed

lemma epochs_reset:
  assumes "ring_ok w"
  shows "epochs_of (reset_at_epoch w e) = {d \<in> epochs_of w. d mod 3 \<noteq> unat e mod 3}"
  using assms
proof (rule ring_cases)
  fix x0 x1 x2 assume w: "w_inner w = [x0, x1, x2]" and ok: "entry_ok 0 x0" "entry_ok 1 x1" "entry_ok 2 x2"
  note m = entry_ok_mod [OF ok(1)] entry_ok_mod [OF ok(2)] entry_ok_mod [OF ok(3)]
  have "w_inner (reset_at_epoch w e) =
      (if unat e mod 3 = 0 then [(False, 0), x1, x2] else if unat e mod 3 = 1 then [x0, (False, 0), x2]
       else [x0, x1, (False, 0)])"
    using mod3_cases [of "unat e"] by (auto simp: reset_at_epoch_def WINDOW_SIZE_def w list_update_3 simp del: list_update.simps)
  then show ?thesis
    using mod3_cases [of "unat e"] m
    by (intro set_eqI) (elim disjE; simp add: epochs_of_3 [where w = "reset_at_epoch w e"] epochs_of_3 [OF w]; auto)
qed

lemma offset_apply [simp]: "w_offset (apply_epoch w e) = w_offset w" "w_offset (reset_at_epoch w e) = w_offset w"
  by (simp_all add: apply_epoch_def reset_at_epoch_def)


section \<open>What a window contains\<close>

lemma unat_range:
  assumes "epoch_fits e"
  shows "unat (fst (epoch_to_range_with_offset w e)) = unat e * 32 - unat (w_offset w)"
    and "unat (snd (epoch_to_range_with_offset w e)) = (unat e + 1) * 32 - unat (w_offset w)"
proof -
  have s: "unat (to_slot e) = unat e * 32"
    using assms by (intro unat_to_slot) (simp add: epoch_fits_def)
  moreover have "unat (sat_add (to_slot e) EPOCH_SLOTS) = (unat e + 1) * 32"
    using assms by (simp add: unat_sat_add s epoch_fits_def)
  ultimately show "unat (fst (epoch_to_range_with_offset w e)) = unat e * 32 - unat (w_offset w)"
    and "unat (snd (epoch_to_range_with_offset w e)) = (unat e + 1) * 32 - unat (w_offset w)"
    by (simp_all add: epoch_to_range_with_offset_def to_slot_range_def Let_def)
qed

lemma div32_iff: "(x :: nat) div 32 = e \<longleftrightarrow> e * 32 \<le> x \<and> x < (e + 1) * 32"
  by (auto intro: div_nat_eqI)

lemma range_contains_iff:
  assumes "epoch_fits e"
  shows "range_contains (epoch_to_range_with_offset w e) slot \<longleftrightarrow>
    (unat slot + unat (w_offset w)) div 32 = unat e"
proof -
  have "unat e * 32 - o' \<le> s \<and> s < (unat e + 1) * 32 - o' \<longleftrightarrow> unat e * 32 \<le> s + o' \<and> s + o' < (unat e + 1) * 32"
    for s o' :: nat by linarith
  then show ?thesis
    by (simp add: range_contains_def word_le_nat_alt word_less_nat_alt unat_range [OF assms] div32_iff)
qed

lemma epoch_fits_0 [simp]: "epoch_fits 0"
  by (simp add: epoch_fits_def)

lemma entry_ok_fits: "entry_ok i x \<Longrightarrow> epoch_fits (snd x)"
  by (auto simp: entry_ok_def split: if_splits)

text \<open>An unset entry may shadow the slots of epoch 0, but epoch 0 itself comes first in the ring.\<close>

lemma window_contains_iff:
  assumes "ring_ok w"
  shows "window_contains w slot \<longleftrightarrow> (unat slot + unat (w_offset w)) div 32 \<in> epochs_of w"
  using assms
proof (rule ring_cases)
  fix x0 x1 x2 assume w: "w_inner w = [x0, x1, x2]" and ok: "entry_ok 0 x0" "entry_ok 1 x1" "entry_ok 2 x2"
  let ?d = "(unat slot + unat (w_offset w)) div 32"
  have m: "fst x0 \<Longrightarrow> unat (snd x0) mod 3 = 0" "fst x1 \<Longrightarrow> unat (snd x1) mod 3 = 1" "fst x2 \<Longrightarrow> unat (snd x2) mod 3 = 2"
    using ok by (simp_all add: entry_ok_def)
  have z: "\<not> fst x0 \<Longrightarrow> snd x0 = 0" "\<not> fst x1 \<Longrightarrow> snd x1 = 0" "\<not> fst x2 \<Longrightarrow> snd x2 = 0"
    using ok by (simp_all add: entry_ok_def)
  have "window_contains w slot \<longleftrightarrow>
      (if ?d = unat (snd x0) then fst x0 else if ?d = unat (snd x1) then fst x1
       else if ?d = unat (snd x2) then fst x2 else False)"
    by (simp add: window_contains_def w case_prod_unfold range_contains_iff entry_ok_fits [OF ok(1)]
        entry_ok_fits [OF ok(2)] entry_ok_fits [OF ok(3)])
  moreover have "?d \<in> epochs_of w \<longleftrightarrow>
      fst x0 \<and> ?d = unat (snd x0) \<or> fst x1 \<and> ?d = unat (snd x1) \<or> fst x2 \<and> ?d = unat (snd x2)"
    by (rule epochs_of_3 [OF w])
  moreover have "unat (0 :: u64) = 0" by simp
  ultimately show ?thesis
    using m z by (cases "fst x0"; cases "fst x1"; cases "fst x2") (auto split: if_splits)
qed

lemma window_is_empty_iff: "window_is_empty w \<longleftrightarrow> epochs_of w = {}"
  by (fastforce simp: window_is_empty_def epochs_of_def list_all_iff)

section \<open>The two windows\<close>

text \<open>The head slot is far enough from the end of time that the next epoch has slot numbers.\<close>

definition slot_fits :: "u64 \<Rightarrow> bool" where
  "slot_fits s = (unat s + 64 < 2 ^ 64)"

lemma unat_next_epoch:
  assumes "slot_fits s"
  shows "unat (sat_add (to_epoch s) 1) = unat s div 32 + 1"
  using assms by (simp add: unat_sat_add slot_fits_def)

lemma epoch_fits_head:
  assumes "slot_fits s"
  shows "epoch_fits (to_epoch s)" "epoch_fits (sat_add (to_epoch s) 1)"
proof -
  have "unat s div 32 * 32 \<le> unat s" by simp
  then show "epoch_fits (to_epoch s)" "epoch_fits (sat_add (to_epoch s) 1)"
    using assms unfolding epoch_fits_def unat_next_epoch [OF assms] unat_to_epoch
    by (simp_all add: slot_fits_def)
qed

lemma contains_epoch_start:
  assumes "ring_ok w" "w_offset w = 0" "epoch_fits e"
  shows "window_contains w (to_slot e) \<longleftrightarrow> unat e \<in> epochs_of w"
  using assms(3) by (simp add: window_contains_iff [OF assms(1)] assms(2) unat_to_slot epoch_fits_def)

text \<open>Setting or clearing one epoch of a ring.\<close>

definition put_epoch :: "window \<Rightarrow> u64 \<Rightarrow> bool \<Rightarrow> window" where
  "put_epoch w e on =
     (if on then apply_epoch w e else if window_contains w (to_slot e) then reset_at_epoch w e else w)"

lemma calculate_inclusion_put:
  "calculate_inclusion w s c n = put_epoch (put_epoch w (to_epoch s) c) (sat_add (to_epoch s) 1) n"
  by (simp add: calculate_inclusion_def put_epoch_def Let_def)

lemma put_epoch_offset [simp]: "w_offset (put_epoch w e on) = w_offset w"
  by (simp add: put_epoch_def)

lemma put_epoch_ok: "ring_ok w \<Longrightarrow> epoch_fits e \<Longrightarrow> ring_ok (put_epoch w e on)"
  by (simp add: put_epoch_def ring_ok_apply ring_ok_reset)

lemma put_epoch_epochs:
  assumes "ring_ok w" "w_offset w = 0" "epoch_fits e"
  shows "unat e \<in> epochs_of (put_epoch w e on) \<longleftrightarrow> on"
    and "d mod 3 \<noteq> unat e mod 3 \<Longrightarrow> d \<in> epochs_of (put_epoch w e on) \<longleftrightarrow> d \<in> epochs_of w"
    and "epochs_of (put_epoch w e on) \<subseteq> insert (unat e) (epochs_of w)"
  using assms by (auto simp: put_epoch_def epochs_apply epochs_reset contains_epoch_start)

lemma suc_mod3: "(n + 1) mod 3 \<noteq> n mod (3 :: nat)"
  by presburger

lemma pred_mod3: "Suc d = n \<Longrightarrow> d mod 3 \<noteq> n mod (3 :: nat) \<and> d mod 3 \<noteq> (n + 1) mod 3"
  by presburger

lemma calculate_inclusion_epochs:
  fixes c n :: bool
  assumes "ring_ok w" "w_offset w = 0" "slot_fits s"
  defines "e \<equiv> unat s div 32" and "w' \<equiv> calculate_inclusion w s c n"
  shows "ring_ok w'" "w_offset w' = 0" "e \<in> epochs_of w' \<longleftrightarrow> c" "e + 1 \<in> epochs_of w' \<longleftrightarrow> n"
    "Suc d = e \<Longrightarrow> d \<in> epochs_of w' \<longleftrightarrow> d \<in> epochs_of w"
    "epochs_of w' \<subseteq> epochs_of w \<union> {e, e + 1}"
proof -
  let ?w1 = "put_epoch w (to_epoch s) c" and ?n = "sat_add (to_epoch s) 1"
  note fits = epoch_fits_head [OF assms(3)]
  have e: "unat (to_epoch s) = e" "unat ?n = e + 1"
    using unat_next_epoch [OF assms(3)] by (simp_all add: e_def)
  have ok1: "ring_ok ?w1" "w_offset ?w1 = 0" using assms fits by (simp_all add: put_epoch_ok)
  note p1 = put_epoch_epochs [OF assms(1,2) fits(1), unfolded e] and p2 = put_epoch_epochs [OF ok1 fits(2), unfolded e]
  show "ring_ok w'" "w_offset w' = 0"
    using ok1 fits by (simp_all add: w'_def calculate_inclusion_put put_epoch_ok)
  show "e \<in> epochs_of w' \<longleftrightarrow> c" "e + 1 \<in> epochs_of w' \<longleftrightarrow> n"
    using p1(1) [of c] p2(1) [of n] p2(2) [of e n] suc_mod3 [of e] by (simp_all add: w'_def calculate_inclusion_put)
  show "d \<in> epochs_of w' \<longleftrightarrow> d \<in> epochs_of w" if "Suc d = e"
    using p1(2) [of d c] p2(2) [of d n] pred_mod3 [OF that] by (simp add: w'_def calculate_inclusion_put)
  show "epochs_of w' \<subseteq> epochs_of w \<union> {e, e + 1}"
    using p1(3) [of c] p2(3) [of n] by (auto simp: w'_def calculate_inclusion_put)
qed

text \<open>The sequencing window holds the epochs of the inclusion window, shifted by its offset.\<close>

lemma calculate_sequencing_ring:
  assumes "ring_ok incl"
  shows "ring_ok (calculate_sequencing w incl)" "w_offset (calculate_sequencing w incl) = w_offset w"
    "epochs_of (calculate_sequencing w incl) = epochs_of incl"
proof -
  obtain x0 x1 x2 where i: "w_inner incl = [x0, x1, x2]" and ok: "entry_ok 0 x0" "entry_ok 1 x1" "entry_ok 2 x2"
    using assms by (rule ring_cases)
  let ?w = "w\<lparr>w_inner := replicate WINDOW_SIZE (False, 0)\<rparr>"
  have "w_inner (calculate_sequencing w incl) = [x0, x1, x2] \<and> w_offset (calculate_sequencing w incl) = w_offset w"
  proof -
    have "x0 = (False, 0) \<or> (\<exists>e. x0 = (True, e) \<and> unat e mod 3 = 0)"
      "x1 = (False, 0) \<or> (\<exists>e. x1 = (True, e) \<and> unat e mod 3 = 1)"
      "x2 = (False, 0) \<or> (\<exists>e. x2 = (True, e) \<and> unat e mod 3 = 2)"
      using ok by (cases x0; cases x1; cases x2; auto simp: entry_ok_def split: if_splits)+
    moreover have "replicate WINDOW_SIZE (False, 0 :: u64) = [(False, 0), (False, 0), (False, 0)]"
      by (simp add: WINDOW_SIZE_def numeral_3_eq_3)
    ultimately show ?thesis
      unfolding calculate_sequencing_def i apply_epoch_def
      by (elim disjE exE conjE) (simp_all add: WINDOW_SIZE_def list_update_3 del: list_update.simps replicate.simps)
  qed
  then show "ring_ok (calculate_sequencing w incl)" "w_offset (calculate_sequencing w incl) = w_offset w"
    "epochs_of (calculate_sequencing w incl) = epochs_of incl"
    using ok i by (auto simp: epochs_of_def intro: ring_okI)
qed

section \<open>The end of a window\<close>

lemma window_end_loop_max:
  "window_end_loop xs (h, s) =
     (let es = map snd (filter fst xs) in (fold max es h, s \<or> (\<exists>e \<in> set es. h \<le> e)))"
proof (induction xs arbitrary: h s)
  case (Cons x xs)
  obtain on e where x: "x = (on, e)" by (cases x)
  show ?case
  proof (cases "on \<and> h \<le> e")
    case True
    then show ?thesis by (simp add: x Cons.IH Let_def max_absorb1)
  next
    case False
    then show ?thesis by (auto simp: x Cons.IH Let_def max_absorb2)
  qed
qed simp

lemma unat_max: "unat (max a b) = max (unat a) (unat b)" for a b :: "'a::len word"
  by (simp add: max_def word_le_nat_alt)

lemma unat_fold_max: "unat (fold max es h) = fold max (map unat es) (unat h)" for h :: "'a::len word"
  by (induction es arbitrary: h) (simp_all add: unat_max)

lemma epochs_of_list: "epochs_of w = set (map unat (map snd (filter fst (w_inner w))))"
  by (force simp: epochs_of_def)

lemma window_end_nat:
  assumes "ring_ok w"
  shows "unat (window_end w) =
    (if epochs_of w = {} then 0 else (Max (epochs_of w) + 1) * 32 - unat (w_offset w))"
proof -
  let ?es = "map snd (filter fst (w_inner w))"
  define h where "h = fold max ?es 0"
  have h: "unat h = fold max (map unat ?es) 0" by (simp add: h_def unat_fold_max)
  have any: "(\<exists>e \<in> set ?es. (0 :: u64) \<le> e) \<longleftrightarrow> epochs_of w \<noteq> {}"
    by (auto simp: epochs_of_list)
  show ?thesis
  proof (cases "epochs_of w = {}")
    case True
    then have "?es = []" by (metis epochs_of_list set_empty map_is_Nil_conv)
    then show ?thesis by (simp add: window_end_def window_end_loop_max Let_def True)
  next
    case False
    then have ne: "map unat ?es \<noteq> []" by (metis epochs_of_list set_empty)
    have "fold max (map unat ?es) 0 = Max (insert 0 (set (map unat ?es)))"
      by (simp only: Max.set_eq_fold [symmetric] list.set)
    also have "\<dots> = Max (set (map unat ?es))"
      by (subst Max_insert) (use ne in \<open>simp_all only: finite_set set_empty max_0L simp_thms\<close>)
    finally have M: "unat h = Max (epochs_of w)" using h by (simp add: epochs_of_list)
    have "unat h \<in> epochs_of w" unfolding M using False by (intro Max_in) (simp_all add: epochs_of_list)
    then have "epoch_fits h"
      using assms by (elim ring_cases) (auto simp: epochs_of_3 entry_ok_def word_unat_eq_iff epoch_fits_def)
    then have f: "(unat h + 1) * 32 < 2 ^ 64" by (simp add: epoch_fits_def)
    have "unat (to_slot h) = unat h * 32" using f by (intro unat_to_slot) simp
    then have "unat (sat_add (to_slot h) EPOCH_SLOTS) = (unat h + 1) * 32"
      using f by (simp add: unat_sat_add)
    moreover have "window_end_loop (w_inner w) (0, False) = (h, True)"
      using any False by (simp only: window_end_loop_max Let_def h_def simp_thms not_False_eq_True)
    then have "window_end w = sat_sub (sat_add (to_slot h) EPOCH_SLOTS) (w_offset w)"
      by (simp add: window_end_def)
    ultimately show ?thesis using False by (simp add: M)
  qed
qed

section \<open>Invariant of the lookahead\<close>

definition lookahead_ok :: "lookahead \<Rightarrow> bool" where
  "lookahead_ok la =
     (ring_ok (inclusion_window la) \<and> w_offset (inclusion_window la) = 0 \<and>
      ring_ok (sequencing_window la) \<and>
      w_offset (sequencing_window la) = handover_window_slots (preconf (la_cfg la)) \<and>
      epochs_of (sequencing_window la) = epochs_of (inclusion_window la))"

text \<open>The epochs for which this operator is the sequencer, as far as it knows.\<close>

definition own_epochs :: "lookahead \<Rightarrow> nat set" where
  "own_epochs la = epochs_of (inclusion_window la)"

definition handover :: "lookahead \<Rightarrow> nat" where
  "handover la = unat (handover_window_slots (preconf (la_cfg la)))"

lemma lookahead_new_ok: "lookahead_ok (lookahead_new cfg)" "own_epochs (lookahead_new cfg) = {}"
  by (simp_all add: lookahead_ok_def lookahead_new_def own_epochs_def)
     (simp_all add: default_window_def with_offset_def)

lemma in_windows:
  assumes "lookahead_ok la"
  shows "window_contains (inclusion_window la) s \<longleftrightarrow> unat s div 32 \<in> own_epochs la"
    and "window_contains (sequencing_window la) s \<longleftrightarrow> (unat s + handover la) div 32 \<in> own_epochs la"
  using assms by (simp_all add: lookahead_ok_def window_contains_iff own_epochs_def handover_def)

lemma is_past_total: "l1_block_time (chain (la_cfg la)) \<noteq> 0 \<Longrightarrow> \<exists>b. is_past_handover_buffer la ts = Some b"
  by (auto simp: is_past_handover_buffer_def cfg_timestamp_to_l1_slot_def timestamp_to_l1_slot_def checked_div_def)

lemma compute_status_total:
  assumes "l1_block_time (chain (la_cfg la)) \<noteq> 0"
  shows "\<exists>st. compute_driver_status la s now inst = Some st"
proof -
  obtain b where "is_past_handover_buffer la now = Some b" using is_past_total [OF assms] by blast
  then show ?thesis by (simp add: compute_driver_status_def Let_def)
qed

lemma sync_result:
  fixes cur nxt :: address and now :: u64 and inst :: instant
  assumes "lookahead_ok la" "slot_fits s" "s mod EPOCH_SLOTS \<noteq> 0"
  defines "la' \<equiv> fst (lookahead_sync la s (Inr cur :: 'e + address) (Inr nxt) now inst)"
  defines "e \<equiv> unat s div 32"
  shows "lookahead_ok la'" "la_cfg la' = la_cfg la"
    "e \<in> own_epochs la' \<longleftrightarrow> cur = operator_address (la_cfg la)"
    "e + 1 \<in> own_epochs la' \<longleftrightarrow> nxt = operator_address (la_cfg la)"
    "Suc d = e \<Longrightarrow> d \<in> own_epochs la' \<longleftrightarrow> d \<in> own_epochs la"
    "own_epochs la' \<subseteq> own_epochs la \<union> {e, e + 1}"
proof -
  have ring: "ring_ok (inclusion_window la)" "w_offset (inclusion_window la) = 0"
    using assms(1) by (simp_all add: lookahead_ok_def)
  let ?c = "cur = operator_address (la_cfg la)" and ?n = "nxt = operator_address (la_cfg la)"
  define incl where "incl = calculate_inclusion (inclusion_window la) s ?c ?n"
  have la': "la' = la\<lparr>inclusion_window := incl, sequencing_window := calculate_sequencing (sequencing_window la) incl\<rparr>"
    using assms(3) by (simp add: la'_def lookahead_sync_def Let_def incl_def)
  note c = calculate_inclusion_epochs [OF ring assms(2), where c = ?c and n = ?n, folded incl_def e_def]
  show "lookahead_ok la'"
    using assms(1) c(1,2) calculate_sequencing_ring [OF c(1)] by (simp add: lookahead_ok_def la')
  show "la_cfg la' = la_cfg la" by (simp add: la')
  show "e \<in> own_epochs la' \<longleftrightarrow> ?c" "e + 1 \<in> own_epochs la' \<longleftrightarrow> ?n"
    using c(3,4) by (simp_all add: own_epochs_def la')
  show "d \<in> own_epochs la' \<longleftrightarrow> d \<in> own_epochs la" if "Suc d = e"
    using c(5) [OF that] by (simp add: own_epochs_def la')
  show "own_epochs la' \<subseteq> own_epochs la \<union> {e, e + 1}"
    using c(6) by (simp add: own_epochs_def la')
qed

lemma add_div32: "h \<le> 32 \<Longrightarrow> (x + h) div 32 = x div 32 \<or> (x + h) div 32 = x div 32 + 1" for x h :: nat
proof -
  assume h: "h \<le> 32"
  obtain q m where q: "x div 32 = q" "x = q * 32 + m" "m < 32"
    by (metis div_mult_mod_eq mod_less_divisor zero_less_numeral)
  show ?thesis unfolding q(1) div32_iff using q(2,3) h by (cases "x + h < (q + 1) * 32") simp_all
qed

lemma status_cases:
  assumes "lookahead_ok la" "compute_driver_status la s now inst = Some st"
  shows "can_propose st \<longleftrightarrow> unat s div 32 \<in> own_epochs la"
    and "can_sequence st \<Longrightarrow> (unat s + handover la) div 32 \<in> own_epochs la"
    and "st = Active \<longleftrightarrow> unat s div 32 \<in> own_epochs la \<and> (unat s + handover la) div 32 \<in> own_epochs la"
    and "st = Inactive \<longleftrightarrow> unat s div 32 \<notin> own_epochs la \<and> (unat s + handover la) div 32 \<notin> own_epochs la"
  using assms(2)
  by (auto simp: compute_driver_status_def Let_def in_windows [OF assms(1)] can_propose_def can_sequence_def
      bind_eq_Some_conv split: if_splits)

section \<open>Histories of a lookahead\<close>

text \<open>
  The lookahead of a sequencer, after any history: created, then synchronised at slots of its choice
  with what the whitelist answers, \<open>op e\<close> being the operator of epoch \<open>e\<close>. A read may fail (\<open>Inl\<close>),
  and the first slot of an epoch reads nothing, so its answers are arbitrary.
\<close>

definition whitelist_answers :: "(nat \<Rightarrow> address) \<Rightarrow> u64 \<Rightarrow> 'e + address \<Rightarrow> 'e + address \<Rightarrow> bool" where
  "whitelist_answers op slot current next =
     (slot mod EPOCH_SLOTS = 0 \<or>
      (case current of Inl _ \<Rightarrow> True | Inr a \<Rightarrow> a = op (unat slot div 32)) \<and>
      (case next of Inl _ \<Rightarrow> True | Inr a \<Rightarrow> a = op (unat slot div 32 + 1)))"

inductive informed :: "(nat \<Rightarrow> address) \<Rightarrow> lookahead \<Rightarrow> bool" for op :: "nat \<Rightarrow> address" where
  created: "informed op (lookahead_new cfg)"
| synced: "informed op la \<Longrightarrow> slot_fits slot \<Longrightarrow>
    whitelist_answers op slot (current :: unit + address) next \<Longrightarrow>
    informed op (fst (lookahead_sync la slot current next now inst))"
| marked: "informed op la \<Longrightarrow> informed op (update_end_of_sequencing_mark la e)"

lemma sync_follows_answers:
  fixes current "next" :: "'e + address" and now :: u64 and inst :: instant
  assumes la: "lookahead_ok la" "\<forall>e\<in>own_epochs la. op e = operator_address (la_cfg la)"
    and fits: "slot_fits s" and answers: "whitelist_answers op s current next"
  defines "la' \<equiv> fst (lookahead_sync la s current next now inst)"
  shows "lookahead_ok la' \<and> la_cfg la' = la_cfg la \<and>
    (\<forall>e\<in>own_epochs la'. op e = operator_address (la_cfg la'))"
proof (cases "s mod EPOCH_SLOTS = 0 \<or> (\<exists>x. current = Inl x) \<or> (\<exists>x. next = Inl x)")
  case True
  then have "la' = la" by (auto simp: la'_def lookahead_sync_def split: sum.splits)
  with la show ?thesis by simp
next
  case False
  then obtain cur nxt where read: "current = Inr cur" "next = Inr nxt" and s: "s mod EPOCH_SLOTS \<noteq> 0"
    by (cases current; cases "next") auto
  note r = sync_result [OF la(1) fits s, where cur = cur and nxt = nxt and now = now and inst = inst and 'e = 'e, folded read, folded la'_def]
  have whitelist: "cur = op (unat s div 32)" "nxt = op (unat s div 32 + 1)"
    using answers s by (simp_all add: whitelist_answers_def read)
  have own: "op e = operator_address (la_cfg la)" if "e \<in> own_epochs la'" for e
  proof -
    from that r(6) consider "e \<in> own_epochs la" | "e = unat s div 32" | "e = unat s div 32 + 1" by blast
    then show ?thesis using that r(3,4) la(2) whitelist by cases simp_all
  qed
  then show ?thesis by (simp add: r(1,2))
qed

lemma informed_owns:
  "informed op la \<Longrightarrow> lookahead_ok la \<and> (\<forall>e\<in>own_epochs la. op e = operator_address (la_cfg la))"
proof (induction rule: informed.induct)
  case (synced la slot current "next" now inst)
  then show ?case using sync_follows_answers [of la op slot current "next" now inst] by blast
next
  case (marked la e)
  then show ?case by (simp add: update_end_of_sequencing_mark_def lookahead_ok_def own_epochs_def)
qed (simp add: lookahead_new_ok)

text \<open>Two operators that read at slot 100 that 7 has epoch 3 and 9 has epoch 4.\<close>

definition example_whitelist :: "nat \<Rightarrow> address" where
  "example_whitelist e = (if e = 3 then 7 else 9)"

definition example_sequencer :: "address \<Rightarrow> lookahead" where
  "example_sequencer a =
     fst (lookahead_sync (lookahead_new (example_config\<lparr>operator_address := a\<rparr>)) 100
       (Inr 7 :: unit + address) (Inr 9) 2200 0)"

lemma example_sequencer_informed: "informed example_whitelist (example_sequencer a)"
  unfolding example_sequencer_def
  by (intro informed.intros)
     (simp_all add: whitelist_answers_def example_whitelist_def slot_fits_def EPOCH_SLOTS_def)

section \<open>Properties\<close>

text \<open>
  A synchronisation in the middle of an epoch records exactly what the whitelist says: the
  operator owns the current and the next epoch if and only if it is their sequencer, the epoch before
  is left as it was, and both windows follow: the inclusion window holds the slots of the owned
  epochs, the sequencing window the same slots moved earlier by the handover window.
\<close>

theorem lookahead_sync_follows_whitelist:
  fixes cur nxt :: address and now :: u64 and inst :: instant
  assumes "lookahead_ok la" and "slot_fits s" and "s mod EPOCH_SLOTS \<noteq> 0"
  defines "la' \<equiv> fst (lookahead_sync la s (Inr cur :: 'e + address) (Inr nxt) now inst)"
  shows "lookahead_ok la' \<and>
    (unat s div 32 \<in> own_epochs la' \<longleftrightarrow> cur = operator_address (la_cfg la)) \<and>
    (unat s div 32 + 1 \<in> own_epochs la' \<longleftrightarrow> nxt = operator_address (la_cfg la)) \<and>
    (\<forall>d. Suc d = unat s div 32 \<longrightarrow> (d \<in> own_epochs la' \<longleftrightarrow> d \<in> own_epochs la)) \<and>
    (\<forall>x. window_contains (inclusion_window la') x \<longleftrightarrow> unat x div 32 \<in> own_epochs la') \<and>
    (\<forall>x. window_contains (sequencing_window la') x \<longleftrightarrow> (unat x + handover la) div 32 \<in> own_epochs la')"
  using sync_result [OF assms(1-3), where cur = cur and nxt = nxt and now = now and inst = inst and 'e = 'e] in_windows
  by (auto simp: la'_def [symmetric] handover_def)

theorem lookahead_sync_follows_whitelist_witness:
  "unat (100 :: u64) div 32 \<in>
     own_epochs (fst (lookahead_sync (lookahead_new example_config) 100 (Inr 7 :: unit + address) (Inr 8) 2200 0))"
proof -
  have "slot_fits 100" "(100 :: u64) mod EPOCH_SLOTS \<noteq> 0"
    by (simp_all add: slot_fits_def EPOCH_SLOTS_def)
  from lookahead_sync_follows_whitelist [OF lookahead_new_ok(1) this, of example_config 7 8 2200 0, where 'e = unit]
  show ?thesis by (simp add: lookahead_new_def example_config_def)
qed

text \<open>
  The driver status matches the windows: batches may be proposed exactly in the epochs of the
  operator, blocks may be sequenced only in the shifted window, both at once make the driver active
  and neither makes it inactive. The status is defined whenever the block time is not zero.
\<close>

theorem driver_status_matches_windows:
  assumes "lookahead_ok la" and "l1_block_time (chain (la_cfg la)) \<noteq> 0"
  shows "\<exists>st. compute_driver_status la s now inst = Some st \<and>
    (can_propose st \<longleftrightarrow> unat s div 32 \<in> own_epochs la) \<and>
    (can_sequence st \<longrightarrow> (unat s + handover la) div 32 \<in> own_epochs la) \<and>
    (st = Active \<longleftrightarrow> unat s div 32 \<in> own_epochs la \<and> (unat s + handover la) div 32 \<in> own_epochs la) \<and>
    (st = Inactive \<longleftrightarrow> unat s div 32 \<notin> own_epochs la \<and> (unat s + handover la) div 32 \<notin> own_epochs la)"
proof -
  obtain st where "compute_driver_status la s now inst = Some st"
    using compute_status_total [OF assms(2)] by blast
  with status_cases [OF assms(1) this] show ?thesis by blast
qed

theorem driver_status_matches_windows_witness:
  "compute_driver_status (lookahead_new example_config) 100 2200 0 = Some Inactive"
proof -
  have "l1_block_time (chain (la_cfg (lookahead_new example_config))) \<noteq> 0"
    by (simp add: lookahead_new_def example_config_def)
  from driver_status_matches_windows [OF lookahead_new_ok(1) this, of 100 2200 0] show ?thesis
    by (auto simp: lookahead_new_ok)
qed

text \<open>
  C5. Two sequencers never overlap: two operators with different addresses and the same handover
  window, each with any history of its own (creation, synchronisations at any slots, failing reads of
  the whitelist, marks of the end of sequencing), never both may sequence and never both may propose
  at a slot, whatever the slot (the first one of an epoch and slots long after the last read too). The
  whitelist is a contract outside the repository; what is relied on is that it assigns one operator
  to each epoch, \<open>op\<close>, and that a read that succeeds outside the first slot of an epoch returns it for
  the current and for the next epoch.
\<close>

theorem sequencers_never_overlap:
  assumes "informed op la1" and "informed op la2"
    and "operator_address (la_cfg la1) \<noteq> operator_address (la_cfg la2)"
    and "handover la1 = handover la2"
    and "compute_driver_status la1 s now1 inst1 = Some st1"
    and "compute_driver_status la2 s now2 inst2 = Some st2"
  shows "\<not> (can_sequence st1 \<and> can_sequence st2) \<and> \<not> (can_propose st1 \<and> can_propose st2)"
proof -
  note own1 = informed_owns [OF assms(1)] and own2 = informed_owns [OF assms(2)]
  have disjoint: "e \<notin> own_epochs la1 \<or> e \<notin> own_epochs la2" for e
    using own1 own2 assms(3) by metis
  show ?thesis
    using status_cases(1,2) [OF conjunct1 [OF own1] assms(5)] status_cases(1,2) [OF conjunct1 [OF own2] assms(6)]
      disjoint assms(4) by metis
qed

theorem sequencers_never_overlap_witness:
  "\<exists>st1 st2. compute_driver_status (example_sequencer 7) 128 2536 0 = Some st1 \<and>
     compute_driver_status (example_sequencer 9) 128 2536 0 = Some st2 \<and> can_propose st2 \<and> \<not> can_propose st1"
proof -
  have s: "slot_fits 100" "(100 :: u64) mod EPOCH_SLOTS \<noteq> 0"
    by (simp_all add: slot_fits_def EPOCH_SLOTS_def)
  have cfg: "la_cfg (example_sequencer a) = example_config\<lparr>operator_address := a\<rparr>" for a
    using s(2) by (simp add: example_sequencer_def lookahead_sync_def Let_def lookahead_new_def)
  have "4 \<in> own_epochs (example_sequencer 9)"
    unfolding example_sequencer_def
    using sync_result(4) [OF lookahead_new_ok(1) s, of "example_config\<lparr>operator_address := 9\<rparr>" 7 9 2200 0, where 'e = unit]
    by (simp add: lookahead_new_def)
  moreover have "l1_block_time (chain (la_cfg (example_sequencer a))) \<noteq> 0" for a
    by (simp add: cfg example_config_def)
  then obtain st1 st2 where st: "compute_driver_status (example_sequencer 7) 128 2536 0 = Some st1"
    "compute_driver_status (example_sequencer 9) 128 2536 0 = Some st2"
    using compute_status_total by blast
  ultimately have "can_propose st2"
    using status_cases(1) [OF _ st(2)] informed_owns [OF example_sequencer_informed, of 9] by simp
  moreover have "operator_address (la_cfg (example_sequencer 7)) \<noteq> operator_address (la_cfg (example_sequencer 9))"
    "handover (example_sequencer 7) = handover (example_sequencer 9)"
    by (simp_all add: cfg handover_def)
  note sequencers_never_overlap [OF example_sequencer_informed example_sequencer_informed this st]
  ultimately show ?thesis using st by blast
qed

text \<open>
  The block that is flagged as the end of sequencing really is the last one: its slot belongs to
  the sequencing window, and the next L2 block, one L2 block time later, falls into the next L1 slot,
  which does not.
\<close>

theorem flagged_block_is_last:
  assumes "lookahead_ok la" and "own_epochs la \<noteq> {}" and "handover la < 32"
    and "is_last_block_in_sequencing_window la ts = Some True"
    and "l1_genesis_timestamp (la_cfg la) \<le> ts" and "unat ts + unat (l1_block_time (chain (la_cfg la))) < 2 ^ 64"
    and "l2_block_time (chain (la_cfg la)) \<le> l1_block_time (chain (la_cfg la))"
  shows "\<exists>slot slot'. cfg_timestamp_to_l1_slot (la_cfg la) ts = Some slot \<and>
    cfg_timestamp_to_l1_slot (la_cfg la) (ts + l2_block_time (chain (la_cfg la))) = Some slot' \<and>
    window_contains (sequencing_window la) slot \<and> \<not> window_contains (sequencing_window la) slot' \<and>
    unat slot' = unat slot + 1"
proof -
  let ?g = "l1_genesis_timestamp (la_cfg la)" and ?b1 = "l1_block_time (chain (la_cfg la))"
    and ?b2 = "l2_block_time (chain (la_cfg la))" and ?E = "own_epochs la"
  let ?W = "window_end (sequencing_window la)"
  from assms(4) obtain slot where slot: "cfg_timestamp_to_l1_slot (la_cfg la) ts = Some slot"
    and W: "sat_sub ?W 1 = slot" and ts: "ts = cfg_slot_to_timestamp (la_cfg la) slot + ?b1 - ?b2"
    by (auto simp: is_last_block_in_sequencing_window_def Let_def bind_eq_Some_conv split: if_splits)
  have s: "?b1 \<noteq> 0" "unat slot = (unat ts - unat ?g) div unat ?b1"
    using slot by (simp_all add: cfg_timestamp_to_l1_slot_def timestamp_to_l1_slot_nat)
  then have pos: "0 < unat ?b1" by (simp add: unat_gt_0)
  have le: "unat ?g \<le> unat ts" "unat ?b2 \<le> unat ?b1" using assms(5,7) by (simp_all add: word_le_nat_alt)
  have sb: "unat slot * unat ?b1 \<le> unat ts - unat ?g" using s(2) by simp
  have st: "unat (cfg_slot_to_timestamp (la_cfg la) slot) = unat ?g + unat slot * unat ?b1"
    unfolding cfg_slot_to_timestamp_def by (rule unat_slot_to_timestamp) (use sb le(1) assms(6) in linarith)
  have "unat (cfg_slot_to_timestamp (la_cfg la) slot + ?b1) = unat ?g + unat slot * unat ?b1 + unat ?b1"
    unfolding st [symmetric] by (rule unat_add_no_wrap) (use st sb le(1) assms(6) in simp)
  then have ts_nat: "unat ts = unat ?g + unat slot * unat ?b1 + unat ?b1 - unat ?b2"
    using le(2) by (subst ts, subst unat_sub_no_wrap) (simp_all add: word_le_nat_alt)
  have sum: "unat (ts + ?b2) = unat ts + unat ?b2"
    by (rule unat_add_no_wrap) (use assms(6) le(2) in simp)
  have "unat (ts + ?b2) - unat ?g = (unat slot + 1) * unat ?b1"
    using ts_nat sum le by simp
  then have q: "(unat (ts + ?b2) - unat ?g) div unat ?b1 = unat slot + 1" using pos by simp
  have fits: "(unat slot + 1) < 2 ^ 64"
    using unat_u64_bound [of "ts + ?b2"] pos q by (metis diff_le_self div_le_dividend le_less_trans)
  let ?slot' = "slot + 1"
  have s': "unat ?slot' = unat slot + 1" by (subst unat_add_no_wrap) (use fits in simp_all)
  have slot': "cfg_timestamp_to_l1_slot (la_cfg la) (ts + ?b2) = Some ?slot'"
    using s(1) q s' by (simp add: cfg_timestamp_to_l1_slot_def timestamp_to_l1_slot_nat)
  have ring: "ring_ok (sequencing_window la)" "epochs_of (sequencing_window la) = ?E"
    "unat (w_offset (sequencing_window la)) = handover la"
    using assms(1) by (simp_all add: lookahead_ok_def own_epochs_def handover_def)
  have Wn: "unat ?W = (Max ?E + 1) * 32 - handover la"
    using window_end_nat [OF ring(1)] assms(2) by (simp add: ring(2,3))
  have fin: "finite ?E" using ring(2) by (metis epochs_of_list finite_set)
  have "unat slot + 1 = (Max ?E + 1) * 32 - handover la"
    using W Wn assms(3) by auto
  then have sum: "unat slot + handover la + 1 = (Max ?E + 1) * 32" using assms(3) by simp
  have "(unat slot + handover la) div 32 = Max ?E" unfolding div32_iff using sum by simp
  moreover have "(unat ?slot' + handover la) div 32 = Max ?E + 1" unfolding div32_iff s' using sum by simp
  moreover have "Max ?E \<in> ?E" using fin assms(2) by (rule Max_in)
  moreover have "Max ?E + 1 \<notin> ?E"
  proof
    assume "Max ?E + 1 \<in> ?E"
    from Max_ge [OF fin this] show False by simp
  qed
  ultimately show ?thesis
    using slot slot' s' in_windows(2) [OF assms(1)] by auto
qed

definition example_lookahead :: lookahead where
  "example_lookahead =
     fst (lookahead_sync (lookahead_new example_config) 40 (Inr 7 :: unit + address) (Inr 8) 2200 0)"

lemma example_lookahead_facts:
  "lookahead_ok example_lookahead" "la_cfg example_lookahead = example_config" "own_epochs example_lookahead = {1}"
proof -
  have h: "slot_fits 40" "(40 :: u64) mod EPOCH_SLOTS \<noteq> 0"
    by (simp_all add: slot_fits_def EPOCH_SLOTS_def)
  note r = sync_result [OF lookahead_new_ok(1) [of example_config] h, where cur = 7 and nxt = 8 and now = 2200
      and inst = 0 and 'e = unit, folded example_lookahead_def]
  show "lookahead_ok example_lookahead" by (rule r(1))
  show "la_cfg example_lookahead = example_config" using r(2) by (simp add: lookahead_new_def)
  have own: "own_epochs (lookahead_new example_config) = {}" and cfg: "operator_address (la_cfg (lookahead_new example_config)) = 7"
    by (simp_all add: lookahead_new_ok) (simp add: lookahead_new_def example_config_def)
  show "own_epochs example_lookahead = {1}" using r(3,4,6) unfolding own cfg by auto
qed

theorem flagged_block_is_last_witness:
  "\<exists>slot. cfg_timestamp_to_l1_slot example_config 1718 = Some slot \<and>
     window_contains (sequencing_window example_lookahead) slot"
proof -
  note f = example_lookahead_facts
  have seq: "ring_ok (sequencing_window example_lookahead)" "w_offset (sequencing_window example_lookahead) = 4"
    "epochs_of (sequencing_window example_lookahead) = {1}"
    using f by (simp_all add: lookahead_ok_def own_epochs_def example_config_def default_preconf_opts_def)
  have "unat (window_end (sequencing_window example_lookahead)) = 60"
    using window_end_nat [OF seq(1)] by (simp add: seq)
  then have W: "window_end (sequencing_window example_lookahead) = 60"
    by (intro unat_inj) simp
  have slot: "cfg_timestamp_to_l1_slot example_config 1718 = Some 59"
    by (simp add: example_config_def cfg_timestamp_to_l1_slot_def timestamp_to_l1_slot_def checked_div_def sat_sub_def)
  have "sat_sub 60 1 = (59 :: u64)" by (intro unat_inj) simp
  then have last: "is_last_block_in_sequencing_window example_lookahead 1718 = Some True"
    using slot by (simp add: is_last_block_in_sequencing_window_def f(2) W)
      (simp add: example_config_def cfg_slot_to_timestamp_def slot_to_timestamp_def)
  have "handover example_lookahead < 32" "own_epochs example_lookahead \<noteq> {}"
    "l1_genesis_timestamp (la_cfg example_lookahead) \<le> 1718"
    "unat (1718 :: u64) + unat (l1_block_time (chain (la_cfg example_lookahead))) < 2 ^ 64"
    "l2_block_time (chain (la_cfg example_lookahead)) \<le> l1_block_time (chain (la_cfg example_lookahead))"
    by (simp_all add: f(2,3)) (simp_all add: handover_def f(2) example_config_def default_preconf_opts_def)
  from flagged_block_is_last [OF f(1) this(2) this(1) last this(3-5)] show ?thesis
    by (auto simp: f(2))
qed


section \<open>Merged ranges\<close>

definition covered :: "('a::linorder \<times> 'a) list \<Rightarrow> 'a set" where
  "covered rs = {x. \<exists>r \<in> set rs. fst r \<le> x \<and> x < snd r}"

lemma covered_simps [simp]:
  "covered [] = {}" "covered (r # rs) = {x. fst r \<le> x \<and> x < snd r} \<union> covered rs"
  "covered (rs @ ss) = covered rs \<union> covered ss"
  by (auto simp: covered_def)

lemma merge_loop_spec:
  assumes "fst cur \<le> snd cur" "\<forall>r \<in> set rs. fst r \<le> snd r"
    and "successively (\<lambda>r s. snd r \<noteq> fst s) (acc @ [cur])"
  shows "covered (merge_loop cur rs acc) = covered acc \<union> covered (cur # rs) \<and>
         successively (\<lambda>r s. snd r \<noteq> fst s) (merge_loop cur rs acc)"
  using assms
proof (induction rs arbitrary: cur acc)
  case Nil
  then show ?case by simp
next
  case (Cons r rs)
  show ?case
  proof (cases "snd cur = fst r")
    case True
    have "fst (fst cur, snd r) \<le> snd (fst cur, snd r)" using Cons.prems True by (auto intro: order.trans)
    moreover have "successively (\<lambda>r s. snd r \<noteq> fst s) (acc @ [(fst cur, snd r)])"
      using Cons.prems(3) by (auto simp: successively_append_iff)
    moreover have "{x. fst cur \<le> x \<and> x < snd r} = {x. fst cur \<le> x \<and> x < snd cur} \<union> {x. fst r \<le> x \<and> x < snd r}"
      using Cons.prems True by (auto intro: order.trans less_le_trans)
    ultimately show ?thesis using Cons.IH [of "(fst cur, snd r)" acc] Cons.prems(2) True by auto
  next
    case False
    have "successively (\<lambda>r s. snd r \<noteq> fst s) ((acc @ [cur]) @ [r])"
      using Cons.prems(3) False by (simp add: successively_append_iff)
    with Cons.IH [of r "acc @ [cur]"] Cons.prems(2) False show ?thesis by auto
  qed
qed

text \<open>
  Merging adjacent ranges covers exactly the slots that the given ranges cover, and leaves no two
  neighbours that could still be joined.
\<close>

theorem merge_adjacent_ranges_correct:
  assumes "\<forall>r \<in> set rs. fst r \<le> snd r"
  shows "covered (merge_adjacent_ranges rs) = covered rs \<and>
         successively (\<lambda>r s. snd r \<noteq> fst s) (merge_adjacent_ranges rs)"
proof (cases "sort_key fst rs")
  case Nil
  then have "rs = []" by (metis length_0_conv length_sort)
  then show ?thesis by (simp add: merge_adjacent_ranges_def)
next
  case (Cons r rest)
  have set: "set (r # rest) = set rs" by (metis Cons set_sort)
  then have "covered (r # rest) = covered rs" unfolding covered_def by simp
  moreover have "fst r \<le> snd r" "\<forall>r \<in> set rest. fst r \<le> snd r" using set assms by auto
  ultimately show ?thesis
    using merge_loop_spec [of r rest "[]"] by (simp add: merge_adjacent_ranges_def Cons)
qed

theorem merge_adjacent_ranges_correct_witness:
  "merge_adjacent_ranges [(0, 32), (32, 64), (100, 120), (120, 140 :: nat)] = [(0, 64), (100, 140)] \<and>
   covered [(0, 64), (100, 140 :: nat)] = covered [(0, 32), (32, 64), (100, 120), (120, 140)]"
proof -
  have e: "merge_adjacent_ranges [(0, 32), (32, 64), (100, 120), (120, 140 :: nat)] = [(0, 64), (100, 140)]"
    by (simp add: merge_adjacent_ranges_def)
  with merge_adjacent_ranges_correct [of "[(0, 32), (32, 64), (100, 120), (120, 140 :: nat)]"] show ?thesis
    by simp
qed

text \<open>
  A slot is in a new inclusion window exactly when the operator owns its epoch but not the one
  before; in epoch 0 there is no epoch before, and the answer is always no.
\<close>

theorem new_inclusion_window_correct:
  assumes "lookahead_ok la"
  shows "is_new_inclusion_window la s \<longleftrightarrow>
           unat s div 32 \<in> own_epochs la \<and> 0 < unat s div 32 \<and> unat s div 32 - 1 \<notin> own_epochs la"
proof -
  have d: "(unat s - 32) div 32 = unat s div 32 - 1"
  proof (cases "unat s < 32")
    case False
    then obtain t where "unat s = 32 + t" by (metis le_Suc_ex not_less)
    then show ?thesis by simp
  qed simp
  show ?thesis
    unfolding is_new_inclusion_window_def window_is_new_def in_windows(1) [OF assms] unat_sat_sub unat_EPOCH_SLOTS d
    by (cases "unat s div 32") auto
qed

theorem new_inclusion_window_correct_witness:
  "is_new_inclusion_window example_lookahead 40"
  using new_inclusion_window_correct [OF example_lookahead_facts(1), of 40] by (simp add: example_lookahead_facts(3))


end
