(* ===== verification/Batch_Errors.thy ===== *)
theory Batch_Errors
  imports Inbox "HOL-Library.Sublist" "HOL-Library.Char_ord"
begin

text \<open>
  The errors of batch proposals, \<open>crates/driver/src/batch_submitter/errors.rs\<close>: the error types, the
  classification of RPC error messages and the parser of the base fee in them. Messages are ASCII
  text.
\<close>

section \<open>Text\<close>

definition to_lower :: "char \<Rightarrow> char" where
  "to_lower c = (if 65 \<le> (of_char c :: nat) \<and> (of_char c :: nat) \<le> 90 then char_of ((of_char c :: nat) + 32) else c)"

definition to_lowercase :: "string \<Rightarrow> string" where
  "to_lowercase s = map to_lower s"

definition is_ascii_digit :: "char \<Rightarrow> bool" where
  "is_ascii_digit c = (48 \<le> (of_char c :: nat) \<and> (of_char c :: nat) \<le> 57)"

definition is_space :: "char \<Rightarrow> bool" where
  "is_space c = ((of_char c :: nat) = 32 \<or> 9 \<le> (of_char c :: nat) \<and> (of_char c :: nat) \<le> 13)"

definition trim :: "string \<Rightarrow> string" where
  "trim s = rev (dropWhile is_space (rev (dropWhile is_space s)))"

text \<open>\<open>find\<close> and \<open>contains\<close> of \<open>str\<close> with a text as the pattern.\<close>

fun find_str :: "string \<Rightarrow> string \<Rightarrow> nat option" where
  "find_str [] p = (if p = [] then Some 0 else None)"
| "find_str (c # s) p = (if prefix p (c # s) then Some 0 else map_option Suc (find_str s p))"

definition contains_str :: "string \<Rightarrow> string \<Rightarrow> bool" where
  "contains_str s p = (find_str s p \<noteq> None)"

definition digit_value :: "char \<Rightarrow> nat" where
  "digit_value c = of_char c - 48"

definition digits_value :: "string \<Rightarrow> nat" where
  "digits_value s = foldl (\<lambda>n c. n * 10 + digit_value c) 0 s"

text \<open>\<open>parse::<u128>\<close> on a text of digits: it fails on the empty text and on an overflow.\<close>

definition parse_u128 :: "string \<Rightarrow> u128 option" where
  "parse_u128 s =
     (if s \<noteq> [] \<and> list_all is_ascii_digit s \<and> digits_value s < 2 ^ 128
      then Some (of_nat (digits_value s)) else None)"

section \<open>Errors\<close>

definition BLOB_GAS_TOO_LOW_ERROR :: string where
  "BLOB_GAS_TOO_LOW_ERROR = ''max fee per blob gas less than block blob gas fee''"
definition MAX_FEE_PER_GAS_TOO_LOW_ERROR :: string where
  "MAX_FEE_PER_GAS_TOO_LOW_ERROR = ''max fee per gas less than block base fee''"
definition NONCE_TOO_LOW_ERROR :: string where
  "NONCE_TOO_LOW_ERROR = ''nonce too low''"

datatype retry_error =
    Retry_RpcError rpc_error
  | TaikoInboxError ITaikoInboxErrors
  | UnknownSelector bytes
  | FeesTooHigh u128 u128

datatype 'blob proposal_error =
    ZlibError
  | BlobSidecarError 'blob
  | Proposal_RpcError rpc_error
  | DeadlineReached
  | FailedToConvertIntoTxEnvelop
  | FailedToParseContractError
  | SolidityError
  | BatchRetryError retry_error
  | NoHead
  | Reverted b256 "u64 option"

definition retry_matches_not_preconfer :: "retry_error \<Rightarrow> bool" where
  "retry_matches_not_preconfer e = (e = TaikoInboxError NotPreconfer \<or> e = TaikoInboxError NotTheOperator)"

fun matches_not_preconfer :: "'blob proposal_error \<Rightarrow> bool" where
  "matches_not_preconfer (BatchRetryError e) = retry_matches_not_preconfer e"
| "matches_not_preconfer _ = False"

fun matches_nonce_too_low :: "'blob proposal_error \<Rightarrow> bool" where
  "matches_nonce_too_low (BatchRetryError (Retry_RpcError (ErrorResp message data))) =
     contains_str (to_lowercase message) NONCE_TOO_LOW_ERROR"
| "matches_nonce_too_low _ = False"

fun retry_error_from :: "ITaikoInboxErrors try_parse_result \<Rightarrow> retry_error" where
  "retry_error_from (UnknownSelectorData s) = UnknownSelector s"
| "retry_error_from (Original e) = Retry_RpcError e"
| "retry_error_from (Decoded e) = TaikoInboxError e"

definition extract_base_fee_from_err :: "string \<Rightarrow> u128 option" where
  "extract_base_fee_from_err err =
     (let err = to_lowercase (trim err);
          pre = ''basefee: ''
      in case find_str err pre of
           None \<Rightarrow> None
         | Some start \<Rightarrow>
             let start_idx = start + length pre
             in parse_u128 (takeWhile is_ascii_digit (drop start_idx err)))"

section \<open>Searching and parsing\<close>

lemma find_str_Some: "find_str s p = Some i \<Longrightarrow> prefix p (drop i s) \<and> i \<le> length s"
  by (induction s p arbitrary: i rule: find_str.induct) (auto split: if_splits)

lemma find_str_None: "find_str s p = None \<Longrightarrow> \<not> sublist p s"
  by (induction s p rule: find_str.induct) (auto simp: sublist_Cons_right split: if_splits)

lemma contains_str_sublist: "contains_str s p \<longleftrightarrow> sublist p s"
proof
  assume "contains_str s p"
  then obtain i where "find_str s p = Some i" by (auto simp: contains_str_def)
  then have "prefix p (drop i s)" using find_str_Some by blast
  then show "sublist p s" by (metis append_take_drop_id prefix_imp_sublist sublist_append_leftI sublist_order.order_trans)
next
  assume "sublist p s"
  then show "contains_str s p" using find_str_None [of s p] by (auto simp: contains_str_def)
qed

lemma find_str_first:
  assumes "\<not> sublist p (butlast (a @ p))"
  shows "find_str (a @ p @ b) p = Some (length a)"
  using assms
proof (induction a)
  case Nil
  have pre: "prefix p (p @ b)" by simp
  show ?case
  proof (cases "p @ b")
    case (Cons c s)
    then show ?thesis using pre by (simp only: append_Nil find_str.simps if_True list.size)
  qed simp
next
  case (Cons c a)
  have ne: "a @ p \<noteq> []" using Cons.prems by (auto simp: sublist_def)
  then have split: "butlast ((c # a) @ p) = c # butlast (a @ p)" by (cases "a @ p") simp_all
  have "\<not> prefix p ((c # a) @ p @ b)"
  proof
    assume "prefix p ((c # a) @ p @ b)"
    moreover have "prefix (butlast ((c # a) @ p)) ((c # a) @ p @ b)"
      by (metis append.assoc append_butlast_last_id append_is_Nil_conv list.distinct(1) prefixI append_Cons)
    moreover have "length p \<le> length (butlast ((c # a) @ p))" by simp
    ultimately have "prefix p (butlast ((c # a) @ p))" by (metis prefix_length_prefix)
    then show False using Cons.prems by (simp add: prefix_imp_sublist)
  qed
  moreover have "\<not> sublist p (butlast (a @ p))" using Cons.prems unfolding split by (simp add: sublist_Cons_right)
  ultimately show ?case using Cons.IH by simp
qed

text \<open>Decimal notation, as a specification of what the parser reads.\<close>

fun decimal :: "nat \<Rightarrow> string" where
  "decimal n = (if n < 10 then [char_of (n + 48)] else decimal (n div 10) @ [char_of (n mod 10 + 48)])"

declare decimal.simps [simp del]

lemma digit_char: "d < 10 \<Longrightarrow> is_ascii_digit (char_of (d + 48 :: nat)) \<and> digit_value (char_of (d + 48 :: nat)) = d"
  by (simp add: is_ascii_digit_def digit_value_def of_char_of)

lemma decimal_digits: "list_all is_ascii_digit (decimal n) \<and> digits_value (decimal n) = n \<and> decimal n \<noteq> []"
proof (induction n rule: decimal.induct)
  case (1 n)
  show ?case
  proof (cases "n < 10")
    case True
    then show ?thesis using digit_char [of n] by (simp add: decimal.simps digits_value_def)
  next
    case False
    then show ?thesis using 1 digit_char [of "n mod 10"] by (simp add: decimal.simps [of n] digits_value_def)
  qed
qed

lemma parse_decimal: "n < 2 ^ 128 \<Longrightarrow> parse_u128 (decimal n) = Some (of_nat n)"
  using decimal_digits [of n] by (simp add: parse_u128_def)

lemma takeWhile_decimal:
  "rest = [] \<or> \<not> is_ascii_digit (hd rest) \<Longrightarrow> takeWhile is_ascii_digit (decimal n @ rest) = decimal n"
  using decimal_digits [of n] by (cases rest) (auto simp: list_all_iff takeWhile_append)

section \<open>Properties\<close>

text \<open>
  The base fee that a node prints in its error message is read back: whatever text comes before
  (without the marker) and whatever follows the number, the parser returns it. The text is given
  as the parser sees it, trimmed and in lower case.
\<close>

theorem base_fee_is_parsed:
  assumes "to_lowercase (trim err) = before @ ''basefee: '' @ decimal n @ rest"
    and "\<not> sublist ''basefee: '' (butlast (before @ ''basefee: ''))"
    and "rest = [] \<or> \<not> is_ascii_digit (hd rest)" and "n < 2 ^ 128"
  shows "extract_base_fee_from_err err = Some (of_nat n)"
proof -
  have "find_str (before @ ''basefee: '' @ decimal n @ rest) ''basefee: '' = Some (length before)"
    using find_str_first [OF assms(2), of "decimal n @ rest"] by simp
  then show ?thesis
    using takeWhile_decimal [OF assms(3), of n] parse_decimal [OF assms(4)]
    by (simp add: extract_base_fee_from_err_def assms(1) Let_def)
qed

theorem base_fee_is_parsed_witness:
  "extract_base_fee_from_err '' gas fee: 9, BaseFee: 64546698'' = Some 64546698"
proof -
  have d: "decimal 64546698 = ''64546698''" by (simp add: decimal.simps) code_simp
  have t: "to_lowercase (trim '' gas fee: 9, BaseFee: 64546698'') = ''gas fee: 9, '' @ ''basefee: '' @ decimal 64546698 @ []"
    unfolding d by code_simp
  have "\<not> sublist ''basefee: '' (butlast (''gas fee: 9, '' @ ''basefee: ''))"
    unfolding contains_str_sublist [symmetric] by code_simp
  from base_fee_is_parsed [OF t this] show ?thesis by simp
qed

end
