(* ===== verification/Transitions.thy ===== *)
theory Transitions
  imports Mk1_Prelude "HOL-Library.Sublist"
begin

text \<open>
  The concurrent parts of the program as labelled transition systems: runs, and the contracts under which
  a part is composed with others. A part that keeps an invariant (\<open>invariant_part\<close>), a part that hands on
  what it is given in order but may drop some of it (\<open>lossy_fifo\<close>), a part that drops nothing
  (\<open>lossless_fifo\<close>), a part whose work ends (\<open>draining\<close>), and a queue behind a channel that is served
  in order (\<open>served_queue\<close>). What follows for whole runs is proved once here; the batch submitter, the execution
  client and the composed system interpret them.
\<close>

section \<open>Runs\<close>

inductive runs :: "('s \<Rightarrow> 'e \<Rightarrow> 's \<Rightarrow> bool) \<Rightarrow> 's \<Rightarrow> 'e list \<Rightarrow> 's \<Rightarrow> bool" for step where
  init: "runs step s [] s"
| step: "runs step s es t \<Longrightarrow> step t e u \<Longrightarrow> runs step s (es @ [e]) u"

inductive_simps runs_Nil [simp]: "runs step s [] t"

lemma runs_single: "step s e t \<Longrightarrow> runs step s [e] t"
  using runs.step [OF runs.init] by fastforce

lemma runs_trans: "runs step t fs u \<Longrightarrow> runs step s es t \<Longrightarrow> runs step s (es @ fs) u"
proof (induction rule: runs.induct)
  case (step t fs u f v)
  then have "runs step s ((es @ fs) @ [f]) v" by (blast intro: runs.step)
  then show ?case by simp
qed simp

lemma runs_Cons: "step s e t \<Longrightarrow> runs step t es u \<Longrightarrow> runs step s (e # es) u"
  using runs_trans [OF _ runs_single] by fastforce

lemma runs_mono:
  "runs step s es t \<Longrightarrow> (\<And>s e t. step s e t \<Longrightarrow> step' s e t) \<Longrightarrow> runs step' s es t"
  by (induction rule: runs.induct) (auto intro: runs.intros)

text \<open>The steps of a part whose label is allowed in the state in which they are taken.\<close>

definition limited :: "('s \<Rightarrow> 'e \<Rightarrow> bool) \<Rightarrow> ('s \<Rightarrow> 'e \<Rightarrow> 's \<Rightarrow> bool) \<Rightarrow> 's \<Rightarrow> 'e \<Rightarrow> 's \<Rightarrow> bool" where
  "limited allowed step s e t = (allowed s e \<and> step s e t)"

lemma runs_limited:
  "runs step s es t \<Longrightarrow> (\<And>e. e \<in> set es \<Longrightarrow> allowed e) \<Longrightarrow> runs (limited (\<lambda>_. allowed) step) s es t"
proof (induction rule: runs.induct)
  case (step s es t e u)
  have "runs (limited (\<lambda>_. allowed) step) s es t" by (rule step.IH) (simp add: step.prems)
  moreover have "limited (\<lambda>_. allowed) step t e u" using step.hyps step.prems by (simp add: limited_def)
  ultimately show ?case by (rule runs.step)
qed (rule runs.init)

section \<open>Contracts of a part\<close>

locale invariant_part =
  fixes step :: "'s \<Rightarrow> 'e \<Rightarrow> 's \<Rightarrow> bool" and good :: "'s \<Rightarrow> bool"
  assumes preserved: "good s \<Longrightarrow> step s e t \<Longrightarrow> good t"
begin

lemma run_good: "runs step s es t \<Longrightarrow> good s \<Longrightarrow> good t"
  by (induction rule: runs.induct) (auto intro: preserved)

lemma run_prefix_good:
  assumes "runs step s es t" and "good s" and "\<And>s e t. good s \<Longrightarrow> good t \<Longrightarrow> step s e t \<Longrightarrow> P e"
  shows "\<forall>e \<in> set es. P e"
  using assms(1,2)
proof (induction rule: runs.induct)
  case (step s es t e u)
  have "good t" using run_good step.hyps(1) step.prems by blast
  then have "P e" using assms(3) preserved step.hyps(2) by blast
  then show ?case using step.IH [OF step.prems] by simp
qed simp

end

text \<open>
  \<open>content\<close> is what the part holds, \<open>taken\<close> and \<open>given\<close> are what a step takes in and hands on.
\<close>

lemma subseq_add_right: "subseq xs ys \<Longrightarrow> subseq (xs @ zs) (ys @ zs)"
  by (rule list_emb_append_mono [OF _ subseq_order.order_refl])

lemma subseq_add_left: "subseq xs ys \<Longrightarrow> subseq (zs @ xs) (zs @ ys)"
  by (rule list_emb_append_mono [OF subseq_order.order_refl])

locale lossy_fifo = invariant_part step good
  for step :: "'s \<Rightarrow> 'e \<Rightarrow> 's \<Rightarrow> bool" and good :: "'s \<Rightarrow> bool" +
  fixes content :: "'s \<Rightarrow> 'x list" and taken :: "'e \<Rightarrow> 'x list" and given :: "'e \<Rightarrow> 'x list"
  assumes step_subseq: "good s \<Longrightarrow> step s e t \<Longrightarrow> subseq (given e @ content t) (content s @ taken e)"
begin

lemma run_subseq:
  "runs step s es t \<Longrightarrow> good s \<Longrightarrow>
   subseq (concat (map given es) @ content t) (content s @ concat (map taken es))"
proof (induction rule: runs.induct)
  case (step s es t e u)
  have "subseq (given e @ content u) (content t @ taken e)"
    using step_subseq run_good step.hyps step.prems by blast
  then have "subseq (concat (map given es) @ (given e @ content u)) (concat (map given es) @ content t @ taken e)"
    by (rule subseq_add_left)
  also have "subseq \<dots> ((content s @ concat (map taken es)) @ taken e)"
    using subseq_add_right [OF step.IH [OF step.prems], of "taken e"] by (simp only: append.assoc)
  finally show ?case by simp
qed simp

text \<open>What is handed on was taken in or held before, in this order, and each at most once.\<close>

lemma run_given: "runs step s es t \<Longrightarrow> good s \<Longrightarrow> subseq (concat (map given es)) (content s @ concat (map taken es))"
  using run_subseq subseq_order.order_trans list_emb_append2 by (metis subseq_rev_drop_many append_Nil2 list_emb_prefix subseq_order.order_refl)

end

locale lossless_fifo = invariant_part step good
  for step :: "'s \<Rightarrow> 'e \<Rightarrow> 's \<Rightarrow> bool" and good :: "'s \<Rightarrow> bool" +
  fixes content :: "'s \<Rightarrow> 'x list" and taken :: "'e \<Rightarrow> 'x list" and given :: "'e \<Rightarrow> 'x list"
  assumes step_conserves: "good s \<Longrightarrow> step s e t \<Longrightarrow> given e @ content t = content s @ taken e"
begin

lemma run_conserves:
  "runs step s es t \<Longrightarrow> good s \<Longrightarrow>
   concat (map given es) @ content t = content s @ concat (map taken es)"
proof (induction rule: runs.induct)
  case (step s es t e u)
  have "given e @ content u = content t @ taken e"
    using step_conserves run_good step.hyps step.prems by blast
  then have "concat (map given (es @ [e])) @ content u = (concat (map given es) @ content t) @ taken e" by simp
  then show ?case using step.IH [OF step.prems] by simp
qed simp

end

sublocale lossless_fifo \<subseteq> lossy_fifo step good content taken given
  by unfold_locales (metis step_conserves subseq_order.order_refl)

text \<open>No step makes work, and every \<open>fair\<close> one does some while there is any: enough of them finish it.\<close>

locale draining = invariant_part step good
  for step :: "'s \<Rightarrow> 'e \<Rightarrow> 's \<Rightarrow> bool" and good :: "'s \<Rightarrow> bool" +
  fixes work :: "'s \<Rightarrow> nat" and fair :: "'e \<Rightarrow> bool"
  assumes step_work: "good s \<Longrightarrow> step s e t \<Longrightarrow> work t \<le> work s"
    and fair_work: "good s \<Longrightarrow> step s e t \<Longrightarrow> fair e \<Longrightarrow> work s \<noteq> 0 \<Longrightarrow> work t < work s"
begin

lemma run_drains: "runs step s es t \<Longrightarrow> good s \<Longrightarrow> work t \<le> work s - length (filter fair es)"
proof (induction rule: runs.induct)
  case (step s es t e u)
  note good = run_good [OF step.hyps(1) step.prems]
  note below = step_work [OF good step.hyps(2)] fair_work [OF good step.hyps(2)]
  show ?case using step.IH [OF step.prems] below by (cases "fair e"; cases "work t") auto
qed simp

end

text \<open>
  A queue and a channel in front of it, in lists of what waits. A step either leaves the queue alone and only adds to the
  channel, or takes what is in the channel behind the queue, of which the part that is still \<open>ordered\<close> loses nothing.
  One that is \<open>fair\<close> is of the second kind and hands on the first element of the queue if there is one. Served once
  more often than elements wait at first, all of these have been handed on, before anything that came later.
\<close>

locale served_queue = invariant_part step good
  for step :: "'s \<Rightarrow> 'e \<Rightarrow> 's \<Rightarrow> bool" and good :: "'s \<Rightarrow> bool" +
  fixes queue :: "'s \<Rightarrow> 'x list" and channel :: "'s \<Rightarrow> 'x list" and given :: "'e \<Rightarrow> 'x list"
    and fair :: "'e \<Rightarrow> bool" and ordered :: "'x list \<Rightarrow> bool"
  assumes step_queue: "good s \<Longrightarrow> step s e t \<Longrightarrow> prefix (queue s) (given e @ queue t)"
    and step_kind: "good s \<Longrightarrow> step s e t \<Longrightarrow>
      \<not> fair e \<and> given e = [] \<and> queue t = queue s \<and> prefix (channel s) (channel t) \<or>
      (\<forall>xs. prefix xs (channel s) \<longrightarrow> ordered (queue s @ xs) \<longrightarrow> prefix (queue s @ xs) (given e @ queue t))"
    and fair_given: "good s \<Longrightarrow> step s e t \<Longrightarrow> fair e \<Longrightarrow> queue s \<noteq> [] \<Longrightarrow> given e \<noteq> []"
begin

lemma run_serves:
  "runs step s es t \<Longrightarrow> good s \<Longrightarrow> ordered (queue s @ channel s) \<Longrightarrow>
   filter fair es = [] \<and> concat (map given es) = [] \<and> queue t = queue s \<and> prefix (channel s) (channel t) \<or>
   prefix (queue s @ channel s) (concat (map given es) @ queue t) \<and>
   (length (filter fair es) \<le> Suc (length (concat (map given es))) \<or>
    prefix (queue s @ channel s) (concat (map given es)))"
proof (induction rule: runs.induct)
  case (step s es t e u)
  define X where "X = queue s @ channel s"
  define G where "G = concat (map given es)"
  define F where "F = filter fair es"
  let ?F = "if fair e then F @ [e] else F"
  note here = run_good [OF step.hyps(1) step.prems(1)] step.hyps(2)
  from step.IH [OF step.prems] consider
      (waits) "F = []" "G = []" "queue t = queue s" "prefix (channel s) (channel t)"
    | (queued) "prefix X (G @ queue t)" "length F \<le> Suc (length G) \<or> prefix X G"
    unfolding X_def G_def F_def by blast
  then have "?F = [] \<and> G @ given e = [] \<and> queue u = queue s \<and> prefix (channel s) (channel u) \<or>
      prefix X ((G @ given e) @ queue u) \<and> (length ?F \<le> Suc (length (G @ given e)) \<or> prefix X (G @ given e))"
  proof cases
    case waits
    from step_kind [OF here] show ?thesis
    proof
      assume "\<not> fair e \<and> given e = [] \<and> queue u = queue t \<and> prefix (channel t) (channel u)"
      then show ?thesis using waits prefix_order.trans by auto
    next
      assume "\<forall>xs. prefix xs (channel t) \<longrightarrow> ordered (queue t @ xs) \<longrightarrow> prefix (queue t @ xs) (given e @ queue u)"
      then have "prefix X (given e @ queue u)" using waits step.prems(2) by (simp add: X_def)
      then show ?thesis using waits by simp
    qed
  next
    case queued
    have "prefix X ((G @ given e) @ queue u)"
      by (rule prefix_order.trans [OF queued(1)]) (simp add: step_queue [OF here])
    moreover have "length ?F \<le> Suc (length (G @ given e)) \<or> prefix X (G @ given e)"
    proof (cases "prefix X G")
      case False
      then have "queue t \<noteq> []" using queued(1) by auto
      then have "given e \<noteq> []" if "fair e" using fair_given [OF here that] by simp
      then show ?thesis using queued(2) False by (cases "given e") auto
    qed (simp add: prefix_append)
    ultimately show ?thesis by blast
  qed
  then show ?case unfolding X_def G_def F_def by (cases "fair e") simp_all
qed simp

lemma run_given:
  assumes "runs step s es t" and "good s" and "ordered (queue s @ channel s)"
    and "length (queue s @ channel s) < length (filter fair es)"
  shows "prefix (queue s @ channel s) (concat (map given es))"
proof -
  let ?X = "queue s @ channel s" and ?G = "concat (map given es)"
  from run_serves [OF assms(1-3)] assms(4) have run: "prefix ?X (?G @ queue t)"
    "length (filter fair es) \<le> Suc (length ?G) \<or> prefix ?X ?G" by auto
  show ?thesis
  proof (cases "prefix ?X ?G")
    case False
    then have "length ?X \<le> length ?G" using run(2) assms(4) by linarith
    then show ?thesis by (intro prefix_length_prefix [OF run(1)]) simp_all
  qed
qed

end

end
