(* ===== verification/Submission.thy ===== *)
theory Submission
  imports Batch_Map Batch_Errors Lookahead Transitions
begin

text \<open>
  The submission queue, \<open>crates/driver/src/batch_submitter/processor.rs\<close> and \<open>mod.rs\<close>: an actor that
  takes commands from a channel, keeps the accepted batches in a queue and posts them one at a
  time. A pending proposal is represented by the batch and the deadline it posts; what its future
  returns, and when, is the environment's choice. The channel of results holds at most
  \<open>MAX_BUFFERED_BATCHES\<close> results that the driver has not taken yet, and sending to a full one panics
  (\<open>None\<close>). A receipt is an arbitrary value.
\<close>

section \<open>State and commands\<close>

definition MAX_BUFFERED_BATCHES :: usize where "MAX_BUFFERED_BATCHES = 32"
definition DA_THROTTLE_THRESHOLD :: usize where "DA_THROTTLE_THRESHOLD = 1"

type_synonym ('b, 'r) batch_result = "'b proposal_error + 'r"

text \<open>\<open>GetSuggestedMaxSize\<close> carries the sender of a oneshot channel; the model keeps whether its receiver
  still waits, since sending to a dropped one panics.\<close>

datatype submission_cmd = Submit batch u64 | ClearQueue | GetSuggestedMaxSize bool

record ('b, 'r) processor =
  request_queue :: "(batch \<times> u64) list"
  pending_proposal :: "(batch \<times> u64) option"
  result_channel :: "('b, 'r) batch_result list"
  max_block_size :: u64
  throttling_factor :: u64

definition processor_new :: "runtime_config \<Rightarrow> ('b, 'r) processor" where
  "processor_new cfg =
     \<lparr>request_queue = [], pending_proposal = None, result_channel = [],
      max_block_size = max_block_size_bytes (preconf cfg),
      throttling_factor = da_throttling_factor (preconf cfg)\<rparr>"

definition queue_to_ranges :: "(batch \<times> u64) list \<Rightarrow> (u64 \<times> u64) list" where
  "queue_to_ranges queue = map (\<lambda>(b, _). blocks_range b) queue"

definition ranges_overlap :: "u64 \<times> u64 \<Rightarrow> u64 \<times> u64 \<Rightarrow> bool" where
  "ranges_overlap a b = (fst a \<le> snd b \<and> fst b \<le> snd a)"

fun throttle :: "nat \<Rightarrow> u64 \<Rightarrow> u64 \<Rightarrow> u64 option" where
  "throttle 0 factor sz = Some sz"
| "throttle (Suc n) factor sz =
     (case checked_div sz factor of
        None \<Rightarrow> None
      | Some d \<Rightarrow> throttle n factor (sat_sub sz d))"

definition calc_max_next_block_size :: "('b, 'r) processor \<Rightarrow> u64 option" where
  "calc_max_next_block_size p =
     (let queue_size = length (request_queue p)
      in if DA_THROTTLE_THRESHOLD \<le> queue_size
         then throttle queue_size (throttling_factor p) (max_block_size p)
         else Some (max_block_size p))"

definition send_result :: "('b, 'r) processor \<Rightarrow> ('b, 'r) batch_result \<Rightarrow> ('b, 'r) processor option" where
  "send_result p r =
     (if length (result_channel p) < MAX_BUFFERED_BATCHES
      then Some (p\<lparr>result_channel := result_channel p @ [r]\<rparr>) else None)"

definition on_proposal :: "('b, 'r) processor \<Rightarrow> ('b, 'r) batch_result \<Rightarrow> ('b, 'r) processor option" where
  "on_proposal p res =
     (case res of
        Inr receipt \<Rightarrow> send_result p (Inr receipt)
      | Inl e \<Rightarrow>
          if matches_nonce_too_low e then Some p
          else send_result (p\<lparr>request_queue := []\<rparr>) (Inl e))"

definition handle_batch_submission_request ::
  "('b, 'r) processor \<Rightarrow> batch \<Rightarrow> u64 \<Rightarrow> ('b, 'r) processor" where
  "handle_batch_submission_request p b deadline =
     (let ranges = queue_to_ranges (request_queue p);
          batch_range = blocks_range b
      in if list_ex (\<lambda>r. ranges_overlap r batch_range) ranges then p
         else p\<lparr>request_queue := request_queue p @ [(b, deadline)]\<rparr>)"

text \<open>The answer is what \<open>GetSuggestedMaxSize\<close> sends back.\<close>

definition on_cmd :: "('b, 'r) processor \<Rightarrow> submission_cmd \<Rightarrow> (('b, 'r) processor \<times> u64 option) option" where
  "on_cmd p cmd =
     (case cmd of
        Submit b deadline \<Rightarrow> Some (handle_batch_submission_request p b deadline, None)
      | ClearQueue \<Rightarrow> Some (p\<lparr>request_queue := []\<rparr>, None)
      | GetSuggestedMaxSize waiting \<Rightarrow>
          (case calc_max_next_block_size p of
             None \<Rightarrow> None
           | Some m \<Rightarrow> if waiting then Some (p, Some m) else None))"

fun on_cmds :: "('b, 'r) processor \<Rightarrow> submission_cmd list \<Rightarrow> (('b, 'r) processor \<times> u64 list) option" where
  "on_cmds p [] = Some (p, [])"
| "on_cmds p (c # cs) =
     (case on_cmd p c of
        None \<Rightarrow> None
      | Some (p, a) \<Rightarrow>
          (case on_cmds p cs of
             None \<Rightarrow> None
           | Some (p, as) \<Rightarrow> Some (p, (case a of None \<Rightarrow> as | Some m \<Rightarrow> m # as))))"

section \<open>Polling\<close>

text \<open>
  One round of the loop in \<open>poll\<close>: \<open>ready\<close> is what the pending future yields in this round (\<open>None\<close>
  for \<open>Pending\<close>), \<open>cmds\<close> are the commands that are in the channel. The round also returns the proposal
  it started, the answers it gave and whether it made progress.
\<close>

record ('b, 'r) round_result =
  after_round :: "('b, 'r) processor"
  started :: "(batch \<times> u64) option"
  answers :: "u64 list"
  progress :: bool

definition poll_proposal ::
  "('b, 'r) processor \<Rightarrow> ('b, 'r) batch_result option \<Rightarrow> (('b, 'r) processor \<times> bool) option" where
  "poll_proposal p ready =
     (case (pending_proposal p, ready) of
        (Some proposal, Some res) \<Rightarrow>
          map_option (\<lambda>p. (p, True)) (on_proposal (p\<lparr>pending_proposal := None\<rparr>) res)
      | _ \<Rightarrow> Some (p, False))"

definition start_proposal :: "('b, 'r) processor \<Rightarrow> ('b, 'r) processor \<times> (batch \<times> u64) option" where
  "start_proposal p =
     (case (pending_proposal p, request_queue p) of
        (None, req # queue) \<Rightarrow> (p\<lparr>request_queue := queue, pending_proposal := Some req\<rparr>, Some req)
      | _ \<Rightarrow> (p, None))"

definition poll_round ::
  "('b, 'r) processor \<Rightarrow> ('b, 'r) batch_result option \<Rightarrow> submission_cmd list \<Rightarrow> ('b, 'r) round_result option" where
  "poll_round p ready cmds =
     (case poll_proposal p ready of
        None \<Rightarrow> None
      | Some (p, done) \<Rightarrow>
          (case start_proposal p of (p, start) \<Rightarrow>
             (case on_cmds p cmds of
                None \<Rightarrow> None
              | Some (p, as) \<Rightarrow>
                  Some \<lparr>after_round = p, started = start, answers = as,
                        progress = (done \<or> start \<noteq> None \<or> cmds \<noteq> [])\<rparr>)))"

section \<open>The handle of the driver\<close>

text \<open>
  The driver's end of the command channel. It holds at most \<open>MAX_BUFFERED_BATCHES\<close> commands that the
  processor has not taken yet; sending to a full one panics. An empty batch is not sent at all.
\<close>

definition send_cmd :: "submission_cmd list \<Rightarrow> submission_cmd \<Rightarrow> submission_cmd list option" where
  "send_cmd handle cmd = (if length handle < MAX_BUFFERED_BATCHES then Some (handle @ [cmd]) else None)"

definition trigger_batch_submission :: "submission_cmd list \<Rightarrow> batch \<Rightarrow> u64 \<Rightarrow> submission_cmd list option" where
  "trigger_batch_submission handle b deadline =
     (if blocks b = [] then Some handle else send_cmd handle (Submit b deadline))"

definition clear_batch_submissions :: "submission_cmd list \<Rightarrow> submission_cmd list option" where
  "clear_batch_submissions handle = send_cmd handle ClearQueue"

definition get_suggested_max_size :: "submission_cmd list \<Rightarrow> submission_cmd list option" where
  "get_suggested_max_size handle = send_cmd handle (GetSuggestedMaxSize True)"

section \<open>Runs\<close>

text \<open>
  The actor as a transition system. A label says what happened: a round, which may start a batch, or
  the driver taking one result out of the channel.
\<close>

datatype ('b, 'r) event =
    Round "('b, 'r) batch_result option" "submission_cmd list" "(batch \<times> u64) option"
  | Result_Taken

inductive proc_step :: "('b, 'r) processor \<Rightarrow> ('b, 'r) event \<Rightarrow> ('b, 'r) processor \<Rightarrow> bool" where
  round: "poll_round p ready cmds = Some r \<Longrightarrow>
    proc_step p (Round ready cmds (started r)) (after_round r)"
| taken: "result_channel p = x # xs \<Longrightarrow> proc_step p Result_Taken (p\<lparr>result_channel := xs\<rparr>)"

inductive_cases proc_step_Round [elim!]: "proc_step p (Round ready cmds start) p'"
inductive_cases proc_step_Taken [elim!]: "proc_step p Result_Taken p'"

abbreviation proc_run :: "('b, 'r) processor \<Rightarrow> ('b, 'r) event list \<Rightarrow> ('b, 'r) processor \<Rightarrow> bool" where
  "proc_run \<equiv> runs proc_step"

text \<open>The batches that were submitted and that were started in a run, in order.\<close>

definition submitted_in :: "submission_cmd list \<Rightarrow> (batch \<times> u64) list" where
  "submitted_in cmds = concat (map (\<lambda>c. case c of Submit b d \<Rightarrow> [(b, d)] | _ \<Rightarrow> []) cmds)"

fun event_submitted :: "('b, 'r) event \<Rightarrow> (batch \<times> u64) list" where
  "event_submitted (Round ready cmds start) = submitted_in cmds"
| "event_submitted Result_Taken = []"

fun event_started :: "('b, 'r) event \<Rightarrow> (batch \<times> u64) list" where
  "event_started (Round ready cmds start) = (case start of None \<Rightarrow> [] | Some s \<Rightarrow> [s])"
| "event_started Result_Taken = []"

definition run_submitted :: "('b, 'r) event list \<Rightarrow> (batch \<times> u64) list" where
  "run_submitted es = concat (map event_submitted es)"

definition run_started :: "('b, 'r) event list \<Rightarrow> (batch \<times> u64) list" where
  "run_started es = concat (map event_started es)"

section \<open>The queue invariant\<close>

definition disjoint_ranges :: "(u64 \<times> u64) list \<Rightarrow> bool" where
  "disjoint_ranges rs = sorted_wrt (\<lambda>a b. \<not> ranges_overlap a b) rs"

definition queue_ok :: "('b, 'r) processor \<Rightarrow> bool" where
  "queue_ok p = (disjoint_ranges (queue_to_ranges (request_queue p)) \<and>
                 length (result_channel p) \<le> MAX_BUFFERED_BATCHES)"

lemma disjoint_simps [simp]:
  "disjoint_ranges []"
  "disjoint_ranges (r # rs) \<longleftrightarrow> (\<forall>s \<in> set rs. \<not> ranges_overlap r s) \<and> disjoint_ranges rs"
  "disjoint_ranges (rs @ [r]) \<longleftrightarrow> disjoint_ranges rs \<and> (\<forall>s \<in> set rs. \<not> ranges_overlap s r)"
  by (auto simp: disjoint_ranges_def sorted_wrt_append)

lemma queue_to_ranges_simps [simp]:
  "queue_to_ranges [] = []" "queue_to_ranges (x # q) = blocks_range (fst x) # queue_to_ranges q"
  "queue_to_ranges (q @ q') = queue_to_ranges q @ queue_to_ranges q'"
  by (simp_all add: queue_to_ranges_def case_prod_unfold)

lemma send_result_sel:
  "send_result p r = Some p' \<Longrightarrow> request_queue p' = request_queue p \<and> pending_proposal p' = pending_proposal p \<and>
     result_channel p' = result_channel p @ [r] \<and> length (result_channel p') \<le> MAX_BUFFERED_BATCHES"
  by (auto simp: send_result_def split: if_splits)

text \<open>What each part of a round does to the queue.\<close>

lemma on_proposal_queue:
  "on_proposal p res = Some p' \<Longrightarrow> request_queue p' \<in> {request_queue p, []} \<and> pending_proposal p' = pending_proposal p \<and>
     (length (result_channel p) \<le> MAX_BUFFERED_BATCHES \<longrightarrow> length (result_channel p') \<le> MAX_BUFFERED_BATCHES)"
  by (auto simp: on_proposal_def split: sum.splits if_splits dest: send_result_sel)

lemma poll_proposal_queue:
  "poll_proposal p ready = Some (p', d) \<Longrightarrow> request_queue p' \<in> {request_queue p, []} \<and>
     (length (result_channel p) \<le> MAX_BUFFERED_BATCHES \<longrightarrow> length (result_channel p') \<le> MAX_BUFFERED_BATCHES)"
  by (auto simp: poll_proposal_def split: option.splits prod.splits dest!: on_proposal_queue)

lemma start_proposal_queue:
  "start_proposal p = (p', s) \<Longrightarrow>
     request_queue p = (case s of None \<Rightarrow> [] | Some x \<Rightarrow> [x]) @ request_queue p' \<and> result_channel p' = result_channel p"
  by (auto simp: start_proposal_def split: option.splits list.splits)

lemma handle_request_queue:
  "request_queue (handle_batch_submission_request p b d) =
     (if list_ex (\<lambda>r. ranges_overlap r (blocks_range b)) (queue_to_ranges (request_queue p))
      then request_queue p else request_queue p @ [(b, d)])"
  "result_channel (handle_batch_submission_request p b d) = result_channel p"
  by (simp_all add: handle_batch_submission_request_def Let_def)

lemma handle_request_ok:
  assumes "queue_ok p"
  shows "queue_ok (handle_batch_submission_request p b d)"
proof (cases "list_ex (\<lambda>r. ranges_overlap r (blocks_range b)) (queue_to_ranges (request_queue p))")
  case True
  then show ?thesis using assms by (simp add: queue_ok_def handle_request_queue)
next
  case False
  then have "\<forall>s \<in> set (queue_to_ranges (request_queue p)). \<not> ranges_overlap s (blocks_range b)"
    by (auto simp: list_ex_iff)
  with False assms show ?thesis by (simp add: queue_ok_def handle_request_queue del: ball_simps)
qed

lemma on_cmd_ok: "queue_ok p \<Longrightarrow> on_cmd p c = Some (p', a) \<Longrightarrow> queue_ok p'"
proof (cases c)
  case Submit
  assume "queue_ok p" "on_cmd p c = Some (p', a)"
  with Submit show ?thesis by (auto simp: on_cmd_def handle_request_ok)
qed (auto simp: on_cmd_def queue_ok_def split: option.splits if_splits)

lemma on_cmds_Cons:
  assumes "on_cmds p (c # cs) = Some (p', as)"
  obtains p1 a as1 where "on_cmd p c = Some (p1, a)" "on_cmds p1 cs = Some (p', as1)"
    "as = (case a of None \<Rightarrow> as1 | Some m \<Rightarrow> m # as1)"
proof (cases "on_cmd p c")
  case (Some x)
  obtain p1 a where x: "x = (p1, a)" by (cases x)
  show thesis
  proof (cases "on_cmds p1 cs")
    case (Some y)
    then show thesis using assms \<open>on_cmd p c = Some x\<close> x by (cases y) (simp add: that)
  qed (use assms Some x in simp)
qed (use assms in simp)

lemma on_cmds_ok: "queue_ok p \<Longrightarrow> on_cmds p cs = Some (p', as) \<Longrightarrow> queue_ok p'"
proof (induction cs arbitrary: p as)
  case (Cons c cs)
  from Cons.prems(2) obtain p1 a as1 where "on_cmd p c = Some (p1, a)" "on_cmds p1 cs = Some (p', as1)"
    by (rule on_cmds_Cons)
  then show ?case using Cons on_cmd_ok by blast
qed simp

lemma queue_ok_shrink:
  "queue_ok p \<Longrightarrow> request_queue p' \<in> {request_queue p, []} \<Longrightarrow>
   length (result_channel p') \<le> MAX_BUFFERED_BATCHES \<Longrightarrow> queue_ok p'"
  by (auto simp: queue_ok_def)

lemma poll_round_cases:
  assumes "poll_round p ready cmds = Some r"
  obtains p1 d p2 as where "poll_proposal p ready = Some (p1, d)" "start_proposal p1 = (p2, started r)"
    "on_cmds p2 cmds = Some (after_round r, as)"
  using assms by (auto simp: poll_round_def split: option.splits prod.splits)

text \<open>A result after which the queue goes on.\<close>

definition smooth_result :: "('b, 'r) batch_result option \<Rightarrow> bool" where
  "smooth_result ready = (case ready of Some (Inl e) \<Rightarrow> matches_nonce_too_low e | _ \<Rightarrow> True)"

lemma poll_proposal_smooth:
  "poll_proposal p ready = Some (p', fin) \<Longrightarrow> smooth_result ready \<Longrightarrow> request_queue p' = request_queue p"
  by (auto simp: poll_proposal_def on_proposal_def smooth_result_def split: option.splits sum.splits if_splits
      dest: send_result_sel)

lemma poll_round_ok:
  assumes "queue_ok p" "poll_round p ready cmds = Some r"
  shows "queue_ok (after_round r)"
proof -
  from assms(2) obtain p1 d p2 as where parts: "poll_proposal p ready = Some (p1, d)"
    "start_proposal p1 = (p2, started r)" "on_cmds p2 cmds = Some (after_round r, as)"
    by (rule poll_round_cases)
  have "queue_ok p1"
    using poll_proposal_queue [OF parts(1)] assms(1) by (auto simp: queue_ok_def)
  then have "queue_ok p2"
    using start_proposal_queue [OF parts(2)] by (auto simp: queue_ok_def split: option.splits)
  then show ?thesis using on_cmds_ok parts(3) by blast
qed

interpretation actor: invariant_part
  "proc_step :: ('b, 'r) processor \<Rightarrow> ('b, 'r) event \<Rightarrow> ('b, 'r) processor \<Rightarrow> bool" queue_ok
proof
  fix p :: "('b, 'r) processor" and e :: "('b, 'r) event" and p' :: "('b, 'r) processor"
  assume "proc_step p e p'" and "queue_ok p"
  then show "queue_ok p'"
    by (cases rule: proc_step.cases) (auto simp: queue_ok_def dest: poll_round_ok [rotated])
qed

section \<open>Order of the proposals\<close>

lemma on_cmd_subseq:
  "on_cmd p c = Some (p', a) \<Longrightarrow> subseq (request_queue p') (request_queue p @ submitted_in [c])"
  by (cases c) (auto simp: on_cmd_def submitted_in_def handle_request_queue split: option.splits if_splits)

lemma submitted_in_Cons: "submitted_in (c # cs) = submitted_in [c] @ submitted_in cs"
  by (simp add: submitted_in_def)

lemma on_cmds_subseq:
  "on_cmds p cs = Some (p', as) \<Longrightarrow> subseq (request_queue p') (request_queue p @ submitted_in cs)"
proof (induction cs arbitrary: p as)
  case Nil
  then show ?case by (simp add: submitted_in_def)
next
  case (Cons c cs)
  from Cons.prems obtain p1 a as1 where c: "on_cmd p c = Some (p1, a)" and cs: "on_cmds p1 cs = Some (p', as1)"
    by (rule on_cmds_Cons)
  note Cons.IH [OF cs]
  also have "subseq (request_queue p1 @ submitted_in cs) ((request_queue p @ submitted_in [c]) @ submitted_in cs)"
    by (rule subseq_add_right [OF on_cmd_subseq [OF c]])
  finally show ?case by (simp only: submitted_in_Cons [of c cs] append.assoc)
qed

lemma round_subseq:
  assumes "poll_round p ready cmds = Some r"
  shows "subseq (event_started (Round ready cmds (started r)) @ request_queue (after_round r))
           (request_queue p @ submitted_in cmds)"
proof -
  from assms obtain p1 d p2 as where parts: "poll_proposal p ready = Some (p1, d)"
    "start_proposal p1 = (p2, started r)" "on_cmds p2 cmds = Some (after_round r, as)"
    by (rule poll_round_cases)
  have "request_queue p1 = event_started (Round ready cmds (started r)) @ request_queue p2"
    using start_proposal_queue [OF parts(2)] by (auto split: option.splits)
  moreover have q1: "subseq (request_queue p1) (request_queue p)" using poll_proposal_queue [OF parts(1)] by auto
  moreover have "subseq (request_queue (after_round r)) (request_queue p2 @ submitted_in cmds)"
    by (rule on_cmds_subseq [OF parts(3)])
  ultimately have "subseq (event_started (Round ready cmds (started r)) @ request_queue (after_round r))
      (request_queue p1 @ submitted_in cmds)"
    by (simp only: append.assoc) (rule subseq_add_left)
  also have "subseq \<dots> (request_queue p @ submitted_in cmds)"
    by (rule subseq_add_right [OF q1])
  finally show ?thesis .
qed

interpretation proposals: lossy_fifo
  "proc_step :: ('b, 'r) processor \<Rightarrow> ('b, 'r) event \<Rightarrow> ('b, 'r) processor \<Rightarrow> bool" "\<lambda>p. True" request_queue event_submitted event_started
proof
  fix p :: "('b, 'r) processor" and e :: "('b, 'r) event" and p' :: "('b, 'r) processor"
  assume "proc_step p e p'"
  then show "subseq (event_started e @ request_queue p') (request_queue p @ event_submitted e)"
  proof (cases rule: proc_step.cases)
    case (round ready cmds r)
    then show ?thesis using round_subseq by simp
  qed simp
qed simp

lemmas run_subseq = proposals.run_subseq [OF _ TrueI, folded run_started_def run_submitted_def]

section \<open>Throttling\<close>

text \<open>One step keeps the share \<open>(f - 1) / f\<close> of the size, rounded up.\<close>

lemma throttle_step:
  assumes "checked_div sz f = Some d"
  shows "0 < unat f" "unat d = unat sz div unat f"
    "(unat f - 1) * unat sz \<le> unat f * unat (sat_sub sz d)"
    "unat f * unat (sat_sub sz d) \<le> (unat f - 1) * unat sz + (unat f - 1)"
proof -
  show f: "0 < unat f" and d: "unat d = unat sz div unat f"
    using assms by (auto simp: checked_div_def unat_div unat_gt_0 split: if_splits)
  have le: "unat sz div unat f \<le> unat sz" by simp
  have mult: "unat f * unat (sat_sub sz d) = unat f * unat sz - unat f * (unat sz div unat f)"
    by (simp add: d diff_mult_distrib2)
  have mod: "unat f * (unat sz div unat f) = unat sz - unat sz mod unat f" by (rule minus_mod_eq_mult_div [symmetric])
  have "unat sz mod unat f \<le> unat f - 1" "unat sz mod unat f \<le> unat sz" using f mod_less_divisor [OF f, of "unat sz"] by linarith (rule mod_less_eq_dividend)
  moreover have "(unat f - 1) * unat sz = unat f * unat sz - unat sz" by (simp add: diff_mult_distrib)
  moreover have "unat sz \<le> unat f * unat sz" using f by simp
  ultimately show "(unat f - 1) * unat sz \<le> unat f * unat (sat_sub sz d)"
    "unat f * unat (sat_sub sz d) \<le> (unat f - 1) * unat sz + (unat f - 1)"
    unfolding mult mod by linarith+
qed

lemma throttle_None: "throttle n f sz = None \<longleftrightarrow> f = 0 \<and> 0 < n"
  by (induction n f sz rule: throttle.induct) (auto simp: checked_div_def split: option.splits)

lemma throttle_bounds:
  assumes "throttle n f sz = Some r" "unat f = Suc g"
  shows "g ^ n * unat sz \<le> Suc g ^ n * unat r \<and>
         Suc g ^ n * unat r + g * g ^ n \<le> g ^ n * unat sz + g * Suc g ^ n"
  using assms
proof (induction n f sz rule: throttle.induct)
  case (2 n f sz)
  from "2.prems" obtain d where d: "checked_div sz f = Some d" "throttle n f (sat_sub sz d) = Some r"
    by (auto split: option.splits)
  let ?s = "unat (sat_sub sz d)"
  note IH = "2.IH" [OF d "2.prems"(2)]
  have lo: "g * unat sz \<le> Suc g * ?s" and hi: "Suc g * ?s \<le> g * unat sz + g"
    using throttle_step(3,4) [OF d(1)] "2.prems"(2) by simp_all
  have "g ^ Suc n * unat sz \<le> g ^ n * (Suc g * ?s)" using mult_le_mono2 [OF lo, of "g ^ n"] by (simp add: ac_simps)
  also have "\<dots> \<le> Suc g * (Suc g ^ n * unat r)" using IH [THEN conjunct1] mult_le_mono2 [of _ _ "Suc g"] by (metis mult.left_commute)
  finally have 1: "g ^ Suc n * unat sz \<le> Suc g ^ Suc n * unat r" by (simp only: power_Suc mult.assoc)
  have "Suc g * (Suc g ^ n * unat r + g * g ^ n) \<le> Suc g * (g ^ n * ?s + g * Suc g ^ n)"
    using IH [THEN conjunct2] by (rule mult_le_mono2)
  also have "\<dots> = g ^ n * (Suc g * ?s) + g * Suc g ^ Suc n" by (simp add: algebra_simps)
  also have "\<dots> \<le> g ^ n * (g * unat sz + g) + g * Suc g ^ Suc n" by (rule add_le_mono1 [OF mult_le_mono2 [OF hi]])
  finally have 2: "Suc g ^ Suc n * unat r + g * g ^ Suc n \<le> g ^ Suc n * unat sz + g * Suc g ^ Suc n"
    by (simp add: algebra_simps)
  from 1 2 show ?case by simp
qed simp

lemma throttle_le: "throttle n f sz = Some r \<Longrightarrow> r \<le> sz"
  by (induction n f sz rule: throttle.induct) (auto split: option.splits intro: order_trans sat_sub_le)

lemma poll_round_idle:
  assumes "poll_round p ready cmds = Some r" "\<not> progress r"
  obtains p1 d p2 as where "poll_proposal p ready = Some (p1, d)" "start_proposal p1 = (p2, started r)"
    "on_cmds p2 cmds = Some (after_round r, as)" "\<not> d" "started r = None" "cmds = []"
proof -
  from assms(1) obtain p1 d p2 s p3 as where *: "poll_proposal p ready = Some (p1, d)"
    "start_proposal p1 = (p2, s)" "on_cmds p2 cmds = Some (p3, as)"
    "r = \<lparr>after_round = p3, started = s, answers = as, progress = (d \<or> s \<noteq> None \<or> cmds \<noteq> [])\<rparr>"
    by (auto simp: poll_round_def split: option.splits prod.splits)
  then show thesis using assms(2) by (intro that [of p1 d p2 as]; cases s) simp_all
qed

lemma on_cmd_channel: "on_cmd p c = Some (p', a) \<Longrightarrow> result_channel p' = result_channel p"
  by (cases c) (auto simp: on_cmd_def handle_request_queue split: option.splits if_splits)

lemma on_cmds_channel: "on_cmds p cs = Some (p', as) \<Longrightarrow> result_channel p' = result_channel p"
proof (induction cs arbitrary: p as)
  case (Cons c cs)
  from Cons.prems obtain p1 a as1 where "on_cmd p c = Some (p1, a)" "on_cmds p1 cs = Some (p', as1)"
    by (rule on_cmds_Cons)
  then show ?case using Cons.IH on_cmd_channel by metis
qed simp

section \<open>An example run\<close>

text \<open>
  Three submissions, of which the second overlaps with the first, then the first proposal starts and
  fails while the second is queued.
\<close>

definition example_batch2 :: batch where
  "example_batch2 = example_batch\<lparr>blocks := [example_block 4 1003 7 10]\<rparr>"

definition example_cmds :: "submission_cmd list" where
  "example_cmds = [Submit example_batch 10, Submit example_batch 11, Submit example_batch2 12]"

definition example_queued :: "(unit, unit) processor" where
  "example_queued = (processor_new example_config)\<lparr>request_queue := [(example_batch, 10), (example_batch2, 12)]\<rparr>"

definition example_pending :: "(unit, unit) processor" where
  "example_pending = (processor_new example_config)
     \<lparr>request_queue := [(example_batch2, 12)], pending_proposal := Some (example_batch, 10)\<rparr>"

lemma example_ranges: "blocks_range example_batch = (2, 3)" "blocks_range example_batch2 = (4, 4)"
  by (simp_all add: blocks_range_def example_batch2_def example_defs)

lemma example_round1:
  "poll_round (processor_new example_config :: (unit, unit) processor) None example_cmds =
     Some \<lparr>after_round = example_queued, started = None, answers = [], progress = True\<rparr>"
  by (simp add: poll_round_def poll_proposal_def start_proposal_def processor_new_def example_cmds_def on_cmd_def
      handle_batch_submission_request_def example_ranges ranges_overlap_def example_queued_def)

lemma example_round2:
  "poll_round example_queued None [] =
     Some \<lparr>after_round = example_pending, started = Some (example_batch, 10), answers = [], progress = True\<rparr>"
  by (simp add: poll_round_def poll_proposal_def start_proposal_def processor_new_def example_queued_def
      example_pending_def)

lemma example_round_failed:
  "poll_round example_pending (Some (Inl NoHead)) [] =
     Some \<lparr>after_round = (processor_new example_config)\<lparr>result_channel := [Inl NoHead]\<rparr>, started = None,
           answers = [], progress = True\<rparr>"
  by (simp add: poll_round_def poll_proposal_def start_proposal_def processor_new_def on_proposal_def send_result_def
      example_pending_def MAX_BUFFERED_BATCHES_def)

definition example_events :: "(unit, unit) event list" where
  "example_events = [Round None example_cmds None, Round None [] (Some (example_batch, 10))]"

lemma example_run: "proc_run (processor_new example_config) example_events example_pending"
proof -
  have "proc_step (processor_new example_config :: (unit, unit) processor) (Round None example_cmds None) example_queued"
    using proc_step.round [OF example_round1] by simp
  moreover have "proc_step example_queued (Round None [] (Some (example_batch, 10))) example_pending"
    using proc_step.round [OF example_round2] by simp
  ultimately have "proc_run (processor_new example_config :: (unit, unit) processor)
      (([]  @ [Round None example_cmds None]) @ [Round None [] (Some (example_batch, 10))]) example_pending"
    by (rule runs.step [OF runs.step [OF runs.init]])
  then show ?thesis by (simp add: example_events_def)
qed

section \<open>Properties\<close>

lemma queue_never_overlaps_parts:
  assumes "proc_run (processor_new cfg) es p"
  shows "sorted_wrt (\<lambda>a b. \<not> ranges_overlap a b) (queue_to_ranges (request_queue p))"
    and "length (result_channel p) \<le> MAX_BUFFERED_BATCHES"
  using actor.run_good [OF assms] by (simp_all add: queue_ok_def disjoint_ranges_def processor_new_def)

text \<open>
  C9. The queue never holds two batches whose block ranges overlap, in whatever order commands and
  proposal results arrive, and the result channel never holds more than 32 results.
\<close>

theorem queue_never_overlaps:
  assumes "proc_run (processor_new cfg) es p"
  shows "sorted_wrt (\<lambda>a b. \<not> ranges_overlap a b) (queue_to_ranges (request_queue p)) \<and>
         length (result_channel p) \<le> MAX_BUFFERED_BATCHES"
  using queue_never_overlaps_parts [OF assms] by simp

theorem queue_never_overlaps_witness:
  "sorted_wrt (\<lambda>a b. \<not> ranges_overlap a b) (queue_to_ranges (request_queue example_queued)) \<and>
   length (result_channel example_queued) \<le> MAX_BUFFERED_BATCHES"
proof -
  have "proc_run (processor_new example_config) ([] @ [Round None example_cmds None]) example_queued"
    using runs_single [of proc_step, OF proc_step.round [OF example_round1]] by simp
  from queue_never_overlaps [OF this] show ?thesis by simp
qed


text \<open>
  C11. Batches are posted in the order in which they were submitted, each at most once: what was
  started so far, followed by what waits in the queue, is a subsequence of what was submitted.
\<close>

theorem proposals_keep_submission_order:
  assumes "proc_run (processor_new cfg) es p"
  shows "subseq (run_started es @ request_queue p) (run_submitted es)"
  using run_subseq [OF assms] by (simp add: processor_new_def)

theorem proposals_keep_submission_order_witness:
  "subseq [(example_batch, 10), (example_batch2, 12)]
     [(example_batch, 10), (example_batch, 11), (example_batch2, 12)]"
  using proposals_keep_submission_order [OF example_run]
  by (simp add: run_started_def run_submitted_def submitted_in_def example_events_def example_cmds_def
      example_pending_def)


lemma suggested_size_is_throttled_parts:
  shows "calc_max_next_block_size p = None \<longleftrightarrow> throttling_factor p = 0 \<and> request_queue p \<noteq> []"
    and "\<And>m. calc_max_next_block_size p = Some m \<Longrightarrow> m \<le> max_block_size p"
    and "\<And>m n f. calc_max_next_block_size p = Some m \<Longrightarrow> n = length (request_queue p) \<Longrightarrow>
           f = unat (throttling_factor p) \<Longrightarrow> 0 < f \<Longrightarrow>
           (f - 1) ^ n * unat (max_block_size p) \<le> f ^ n * unat m \<and>
           f ^ n * unat m \<le> (f - 1) ^ n * unat (max_block_size p) + (f - 1) * (f ^ n - (f - 1) ^ n)"
proof -
  have calc: "calc_max_next_block_size p =
      throttle (length (request_queue p)) (throttling_factor p) (max_block_size p)"
    by (cases "request_queue p") (simp_all add: calc_max_next_block_size_def DA_THROTTLE_THRESHOLD_def Let_def)
  show "calc_max_next_block_size p = None \<longleftrightarrow> throttling_factor p = 0 \<and> request_queue p \<noteq> []"
    by (auto simp: calc throttle_None)
  show "m \<le> max_block_size p" if "calc_max_next_block_size p = Some m" for m
    using that unfolding calc by (rule throttle_le)
  show "(f - 1) ^ n * unat (max_block_size p) \<le> f ^ n * unat m \<and>
      f ^ n * unat m \<le> (f - 1) ^ n * unat (max_block_size p) + (f - 1) * (f ^ n - (f - 1) ^ n)"
    if m: "calc_max_next_block_size p = Some m" and n: "n = length (request_queue p)"
      and f: "f = unat (throttling_factor p)" "0 < f" for m n f
  proof -
    from f(2) obtain g where g: "f = Suc g" by (cases f) auto
    have "g ^ n \<le> Suc g ^ n" by (simp add: power_mono)
    then have "g * (Suc g ^ n - g ^ n) = g * Suc g ^ n - g * g ^ n" "g * g ^ n \<le> g * Suc g ^ n"
      by (simp_all add: diff_mult_distrib2)
    moreover have "g ^ n * unat (max_block_size p) \<le> Suc g ^ n * unat m \<and>
        Suc g ^ n * unat m + g * g ^ n \<le> g ^ n * unat (max_block_size p) + g * Suc g ^ n"
      unfolding n by (rule throttle_bounds [OF m [unfolded calc]]) (use f g in simp)
    ultimately show ?thesis unfolding g diff_Suc_1 by linarith
  qed
qed

text \<open>
  The suggested block size. With \<open>n\<close> queued batches and the throttling factor \<open>f\<close> it is the
  configured size times \<open>((f - 1) / f) ^ n\<close>, rounded up by less than \<open>f - 1\<close> bytes in total (both bounds are
  given as products). It never exceeds the configured size, and the calculation panics exactly for the
  factor 0 with a non-empty queue.
\<close>

theorem suggested_size_is_throttled:
  "(calc_max_next_block_size p = None \<longleftrightarrow> throttling_factor p = 0 \<and> request_queue p \<noteq> []) \<and>
   (\<forall>m. calc_max_next_block_size p = Some m \<longrightarrow> m \<le> max_block_size p \<and>
      (let n = length (request_queue p); f = unat (throttling_factor p)
       in 0 < f \<longrightarrow>
          (f - 1) ^ n * unat (max_block_size p) \<le> f ^ n * unat m \<and>
          f ^ n * unat m \<le> (f - 1) ^ n * unat (max_block_size p) + (f - 1) * (f ^ n - (f - 1) ^ n)))"
  using suggested_size_is_throttled_parts(1,2) [of p] suggested_size_is_throttled_parts(3) [of p, OF _ refl refl]
  unfolding Let_def by blast

theorem suggested_size_is_throttled_witness:
  "\<exists>m. calc_max_next_block_size example_queued = Some m \<and> 121 * unat (max_block_size example_queued) \<le> 144 * unat m"
proof -
  have f: "unat (throttling_factor example_queued) = 12" "throttling_factor example_queued \<noteq> 0"
    "length (request_queue example_queued) = 2"
    by (simp_all add: example_queued_def processor_new_def example_config_def default_preconf_opts_def)
  with suggested_size_is_throttled [of example_queued] obtain m where
    m: "calc_max_next_block_size example_queued = Some m"
    and "\<forall>m. calc_max_next_block_size example_queued = Some m \<longrightarrow> m \<le> max_block_size example_queued \<and>
      (0 < (12 :: nat) \<longrightarrow> (12 - 1) ^ 2 * unat (max_block_size example_queued) \<le> 12 ^ 2 * unat m \<and>
       12 ^ 2 * unat m \<le> (12 - 1) ^ 2 * unat (max_block_size example_queued) + (12 - 1) * (12 ^ 2 - (12 - 1) ^ 2))"
    by (auto simp: Let_def)
  then show ?thesis by (intro exI [of _ m]) simp
qed


lemma failed_proposal_handling_parts:
  assumes "pending_proposal p = Some x" "poll_round p (Some (Inl e)) cmds = Some r"
  shows "matches_nonce_too_low e \<Longrightarrow>
           started r = first_option (request_queue p) \<and> result_channel (after_round r) = result_channel p"
    and "\<And>es p'. \<not> matches_nonce_too_low e \<Longrightarrow> proc_run (after_round r) es p' \<Longrightarrow>
           started r = None \<and> result_channel (after_round r) = result_channel p @ [Inl e] \<and>
           subseq (run_started es @ request_queue p') (submitted_in cmds @ run_submitted es)"
proof -
  from assms(2) obtain p1 d p2 as where parts: "poll_proposal p (Some (Inl e)) = Some (p1, d)"
    "start_proposal p1 = (p2, started r)" "on_cmds p2 cmds = Some (after_round r, as)"
    by (rule poll_round_cases)
  have chan: "result_channel (after_round r) = result_channel p1"
    using on_cmds_channel [OF parts(3)] start_proposal_queue [OF parts(2)] by simp
  {
    assume "matches_nonce_too_low e"
    with parts(1) assms(1) have p1: "p1 = p\<lparr>pending_proposal := None\<rparr>"
      by (auto simp: poll_proposal_def on_proposal_def)
    then show "started r = first_option (request_queue p) \<and> result_channel (after_round r) = result_channel p"
      using parts(2) chan by (auto simp: start_proposal_def split: list.splits)
  next
    fix es p'
    assume ne: "\<not> matches_nonce_too_low e" and run: "proc_run (after_round r) es p'"
    from ne parts(1) assms(1) have p1: "request_queue p1 = []" "pending_proposal p1 = None"
      "result_channel p1 = result_channel p @ [Inl e]"
      by (auto simp: poll_proposal_def on_proposal_def dest!: send_result_sel)
    then have p2: "p2 = p1" "started r = None" using parts(2) by (auto simp: start_proposal_def)
    note run_subseq [OF run]
    also have "subseq (request_queue (after_round r) @ run_submitted es) (submitted_in cmds @ run_submitted es)"
      using on_cmds_subseq [OF parts(3)] p1 p2 by (simp add: subseq_add_right)
    finally show "started r = None \<and> result_channel (after_round r) = result_channel p @ [Inl e] \<and>
        subseq (run_started es @ request_queue p') (submitted_in cmds @ run_submitted es)"
      using p1 p2 chan by simp
  }
qed

text \<open>
  C24. A failed proposal. Unless the error is that the nonce is too low (the batch then counts as landed:
  the queue is kept, nothing is reported and the next queued batch starts at once), the error is reported
  and no batch that was queued at that moment is ever posted: whatever starts in any later run was
  submitted after the failure.
\<close>

theorem failed_proposal_handling:
  assumes "pending_proposal p = Some x" "poll_round p (Some (Inl e)) cmds = Some r"
  shows "(if matches_nonce_too_low e
    then started r = first_option (request_queue p) \<and> result_channel (after_round r) = result_channel p
    else started r = None \<and> result_channel (after_round r) = result_channel p @ [Inl e] \<and>
      (\<forall>es p'. proc_run (after_round r) es p' \<longrightarrow>
         subseq (run_started es @ request_queue p') (submitted_in cmds @ run_submitted es)))"
  using failed_proposal_handling_parts(1) [OF assms] failed_proposal_handling_parts(2) [OF assms]
    failed_proposal_handling_parts(2) [OF assms _ runs.init] by simp

theorem failed_proposal_handling_witness:
  "started (the (poll_round example_pending (Some (Inl NoHead)) [])) = None \<and>
   result_channel (after_round (the (poll_round example_pending (Some (Inl NoHead)) []))) =
     result_channel example_pending @ [Inl NoHead]"
proof -
  have "pending_proposal example_pending = Some (example_batch, 10)" by (simp add: example_pending_def)
  from failed_proposal_handling [OF this example_round_failed] show ?thesis by (simp add: example_round_failed)
qed


lemma idle_only_without_work_parts:
  assumes "poll_round p ready cmds = Some r" "\<not> progress r"
  shows "after_round r = p" "cmds = []" "started r = None"
    "request_queue p = [] \<or> (pending_proposal p \<noteq> None \<and> ready = None)"
proof -
  from assms obtain p1 d p2 as where parts: "poll_proposal p ready = Some (p1, d)"
    "start_proposal p1 = (p2, started r)" "on_cmds p2 cmds = Some (after_round r, as)"
    and d: "\<not> d" "started r = None" "cmds = []"
    by (rule poll_round_idle)
  from d parts(1) have p1: "p1 = p" and r: "pending_proposal p = None \<or> ready = None"
    by (auto simp: poll_proposal_def split: option.splits)
  from d parts(2) have p2: "p2 = p1" "pending_proposal p1 \<noteq> None \<or> request_queue p1 = []"
    by (auto simp: start_proposal_def split: option.splits list.splits)
  show "after_round r = p" using parts(3) d p1 p2 by simp
  show "cmds = []" "started r = None" using d by simp_all
  show "request_queue p = [] \<or> (pending_proposal p \<noteq> None \<and> ready = None)"
    using r p1 p2 by auto
qed

text \<open>
  The actor never goes to sleep with work left: when a round makes no progress, which is when the
  poll returns \<open>Pending\<close>, the state is unchanged and either a proposal is pending that is not ready or the
  queue is empty.
\<close>

theorem idle_only_without_work:
  assumes "poll_round p ready cmds = Some r" "\<not> progress r"
  shows "after_round r = p \<and> cmds = [] \<and> started r = None \<and>
    (request_queue p = [] \<or> (pending_proposal p \<noteq> None \<and> ready = None))"
  using idle_only_without_work_parts [OF assms] by blast

theorem idle_only_without_work_witness:
  "request_queue ((processor_new example_config) :: (unit, unit) processor) = []"
proof -
  have "poll_round (processor_new example_config :: (unit, unit) processor) None [] =
      Some \<lparr>after_round = processor_new example_config, started = None, answers = [], progress = False\<rparr>"
    by (simp add: poll_round_def poll_proposal_def start_proposal_def processor_new_def)
  from idle_only_without_work [OF this] show ?thesis by (simp add: processor_new_def)
qed

end
