(* ===== verification/Fees.thy ===== *)
theory Fees
  imports Mk1_Prelude
begin

text \<open>
  The fee hints of a blob transaction, \<open>BlobTxFeesHints\<close> of \<open>crates/primitives/src/blob.rs\<close>: the
  estimation, the increase for the next block, the enforced tip, the bump to a base fee read from
  an error message, and the doubling before a resubmission. All amounts are \<open>u128\<close> and wrap.
\<close>

record fees_hints =
  max_priority_fee_per_gas :: u128
  max_fee_per_gas :: u128
  blob_fee_per_gas :: u128

text \<open>The two fields of \<open>Eip1559Estimation\<close> that the code reads.\<close>

record eip1559_estimation =
  est_max_fee_per_gas :: u128
  est_max_priority_fee_per_gas :: u128

definition hints_new :: "u128 \<Rightarrow> u128 \<Rightarrow> u128 \<Rightarrow> fees_hints" where
  "hints_new prio maxfee blobfee =
     \<lparr>max_priority_fee_per_gas = prio, max_fee_per_gas = maxfee, blob_fee_per_gas = blobfee\<rparr>"

definition from_estimation :: "eip1559_estimation \<Rightarrow> u128 \<Rightarrow> fees_hints" where
  "from_estimation e blobfee =
     \<lparr>max_priority_fee_per_gas = est_max_priority_fee_per_gas e,
      max_fee_per_gas = est_max_fee_per_gas e,
      blob_fee_per_gas = blobfee\<rparr>"

definition double_hints :: "fees_hints \<Rightarrow> fees_hints" where
  "double_hints h =
     \<lparr>max_priority_fee_per_gas = max_priority_fee_per_gas h * 2,
      max_fee_per_gas = max_fee_per_gas h * 2,
      blob_fee_per_gas = blob_fee_per_gas h * 2\<rparr>"

definition with_next_block_increase :: "fees_hints \<Rightarrow> fees_hints" where
  "with_next_block_increase h =
     (let base_fee = max_fee_per_gas h - max_priority_fee_per_gas h;
          base_fee_increased = base_fee * 1125 div 1000 + 1;
          max_fee_per_gas_increased = max_fee_per_gas h - base_fee + base_fee_increased;
          blob_base_fee_increased = blob_fee_per_gas h * 1125 div 1000 + 1
      in \<lparr>max_priority_fee_per_gas = max_priority_fee_per_gas h,
          max_fee_per_gas = max_fee_per_gas_increased,
          blob_fee_per_gas = blob_base_fee_increased\<rparr>)"

definition next_block_increase :: "fees_hints \<Rightarrow> fees_hints" where
  "next_block_increase h = with_next_block_increase h"

definition with_enforced_min_batch_tip_wei :: "fees_hints \<Rightarrow> u128 \<Rightarrow> fees_hints" where
  "with_enforced_min_batch_tip_wei h tip =
     (let diff = sat_sub tip (max_priority_fee_per_gas h)
      in if diff > 0 then
           \<lparr>max_priority_fee_per_gas = tip + 1,
            max_fee_per_gas = max_fee_per_gas h + diff + 1,
            blob_fee_per_gas = blob_fee_per_gas h + 1\<rparr>
         else h)"

text \<open>The method takes \<open>&mut self\<close>: the result is the new hints and the boolean it returns.\<close>

definition bump_base_fee :: "fees_hints \<Rightarrow> u128 \<Rightarrow> fees_hints \<times> bool" where
  "bump_base_fee h new_base_fee =
     (if new_base_fee < sat_sub (max_fee_per_gas h) (max_priority_fee_per_gas h) then (h, False)
      else
        let h1 = h\<lparr>max_fee_per_gas := new_base_fee + max_priority_fee_per_gas h\<rparr>
        in if max_priority_fee_per_gas h1 < new_base_fee div 10 then
             let h2 = h1\<lparr>max_fee_per_gas := sat_sub (max_fee_per_gas h1) (max_priority_fee_per_gas h1)\<rparr>;
                 h3 = h2\<lparr>max_priority_fee_per_gas := div_ceil new_base_fee 10\<rparr>;
                 h4 = h3\<lparr>max_fee_per_gas := sat_add (max_fee_per_gas h3) (max_priority_fee_per_gas h3)\<rparr>
             in (h4, True)
           else (h1, True))"

section \<open>Well-formed hints\<close>

text \<open>
  The priority fee is part of the maximum fee. Every operation keeps this as long as nothing
  overflows; \<open>hints_below k h\<close> says that every fee is at most \<open>k\<close> wei.
\<close>

definition hints_wf :: "fees_hints \<Rightarrow> bool" where
  "hints_wf h = (max_priority_fee_per_gas h \<le> max_fee_per_gas h)"

definition hints_below :: "nat \<Rightarrow> fees_hints \<Rightarrow> bool" where
  "hints_below k h =
     (unat (max_priority_fee_per_gas h) \<le> k \<and> unat (max_fee_per_gas h) \<le> k \<and>
      unat (blob_fee_per_gas h) \<le> k)"

text \<open>The base fee that the hints allow for, as a number.\<close>

definition base_fee_of :: "fees_hints \<Rightarrow> nat" where
  "base_fee_of h = unat (max_fee_per_gas h) - unat (max_priority_fee_per_gas h)"

lemma unat_times_1125:
  "unat (a :: u128) < 2 ^ 117 \<Longrightarrow> unat (a * 1125 div 1000 + 1) = unat a * 1125 div 1000 + 1"
proof -
  assume a: "unat a < 2 ^ 117"
  then have m: "unat (a * 1125) = unat a * 1125"
    by (subst unat_mul_no_wrap) simp_all
  then have d: "unat (a * 1125 div 1000) = unat a * 1125 div 1000"
    by (simp add: unat_div)
  with a have "unat (a * 1125 div 1000) + unat (1 :: u128) < 2 ^ LENGTH(128)"
    by simp
  then show ?thesis
    by (subst unat_add_no_wrap) (simp_all add: d)
qed

lemma unat_times_two: "unat (a :: u128) < 2 ^ 127 \<Longrightarrow> unat (a * 2) = unat a * 2"
  by (subst unat_mul_no_wrap) simp_all

text \<open>The increase for the next block, read as numbers.\<close>

lemma with_next_block_increase_nat:
  assumes "hints_wf h" and "hints_below (2 ^ 116) h"
  defines "h' \<equiv> with_next_block_increase h"
  shows "max_priority_fee_per_gas h' = max_priority_fee_per_gas h"
    and "unat (max_fee_per_gas h') =
           unat (max_priority_fee_per_gas h) + base_fee_of h * 1125 div 1000 + 1"
    and "unat (blob_fee_per_gas h') = unat (blob_fee_per_gas h) * 1125 div 1000 + 1"
proof -
  let ?p = "max_priority_fee_per_gas h" and ?m = "max_fee_per_gas h"
  have le: "?p \<le> ?m" using assms(1) by (simp add: hints_wf_def)
  then have base: "unat (?m - ?p) = base_fee_of h"
    by (simp add: base_fee_of_def unat_sub_no_wrap)
  have b: "unat ?m \<le> 2 ^ 116" "unat (blob_fee_per_gas h) \<le> 2 ^ 116" "unat ?p \<le> 2 ^ 116"
    using assms(2) by (simp_all add: hints_below_def)
  have bb: "base_fee_of h \<le> 2 ^ 116" using b by (simp add: base_fee_of_def)
  have inc: "unat ((?m - ?p) * 1125 div 1000 + 1) = base_fee_of h * 1125 div 1000 + 1"
    using bb by (subst unat_times_1125) (simp_all add: base)
  have mp: "?m - (?m - ?p) = ?p" by simp
  show "max_priority_fee_per_gas h' = max_priority_fee_per_gas h"
    by (simp add: h'_def with_next_block_increase_def Let_def)
  have "unat ?p + unat ((?m - ?p) * 1125 div 1000 + 1) < 2 ^ LENGTH(128)"
    unfolding inc using b(3) bb by simp
  then have "unat (?p + ((?m - ?p) * 1125 div 1000 + 1)) = unat ?p + (base_fee_of h * 1125 div 1000 + 1)"
    by (simp only: unat_add_no_wrap inc)
  then show "unat (max_fee_per_gas h') =
      unat (max_priority_fee_per_gas h) + base_fee_of h * 1125 div 1000 + 1"
    by (simp add: h'_def with_next_block_increase_def Let_def add.assoc)
  have "unat (blob_fee_per_gas h * 1125 div 1000 + 1) = unat (blob_fee_per_gas h) * 1125 div 1000 + 1"
    using b(2) by (subst unat_times_1125) simp_all
  then show "unat (blob_fee_per_gas h') = unat (blob_fee_per_gas h) * 1125 div 1000 + 1"
    by (simp add: h'_def with_next_block_increase_def Let_def)
qed

text \<open>The enforced tip, read as numbers: the base fee stays, the tip is exceeded.\<close>

lemma with_enforced_min_batch_tip_nat:
  assumes "unat (max_priority_fee_per_gas h) < unat tip"
    and "unat tip < 2 ^ 127" and "hints_below (2 ^ 126) h"
  defines "h' \<equiv> with_enforced_min_batch_tip_wei h tip"
  shows "unat (max_priority_fee_per_gas h') = unat tip + 1"
    and "unat (max_fee_per_gas h') =
           unat (max_fee_per_gas h) + (unat tip - unat (max_priority_fee_per_gas h)) + 1"
    and "unat (blob_fee_per_gas h') = unat (blob_fee_per_gas h) + 1"
proof -
  let ?p = "max_priority_fee_per_gas h" and ?m = "max_fee_per_gas h"
  have pos: "sat_sub tip ?p > 0"
    using assms(1) by (simp add: word_less_nat_alt)
  then have h': "h' = \<lparr>max_priority_fee_per_gas = tip + 1,
      max_fee_per_gas = ?m + sat_sub tip ?p + 1, blob_fee_per_gas = blob_fee_per_gas h + 1\<rparr>"
    by (simp add: h'_def with_enforced_min_batch_tip_wei_def Let_def)
  have b: "unat ?m \<le> 2 ^ 126" "unat (blob_fee_per_gas h) \<le> 2 ^ 126"
    using assms(3) by (simp_all add: hints_below_def)
  show "unat (max_priority_fee_per_gas h') = unat tip + 1"
    using assms(2) by (simp add: h') (subst unat_add_no_wrap; simp)
  have s: "unat (?m + sat_sub tip ?p) = unat ?m + (unat tip - unat ?p)"
    using b(1) assms(2) by (subst unat_add_no_wrap) simp_all
  show "unat (max_fee_per_gas h') = unat ?m + (unat tip - unat ?p) + 1"
    using b(1) assms(2) by (simp add: h') (subst unat_add_no_wrap; simp add: s)
  show "unat (blob_fee_per_gas h') = unat (blob_fee_per_gas h) + 1"
    using b(2) by (simp add: h') (subst unat_add_no_wrap; simp)
qed

lemma nat_div_ceil_10: "(if 0 < k mod 10 then k div 10 + 1 else k div 10) = (k + 9) div 10" for k :: nat
proof -
  have split: "(k + 9) div 10 = k div 10 + (k mod 10 + 9) div 10"
    by (subst div_add1_eq) simp
  have "(k mod 10 + 9) div 10 = (if 0 < k mod 10 then 1 else 0)"
    by (auto intro: div_nat_eqI)
  with split show ?thesis by simp
qed

lemma unat_div_ceil_10: "unat (n :: u128) < 2 ^ 127 \<Longrightarrow> unat (div_ceil n 10) = (unat n + 9) div 10"
proof -
  assume n: "unat n < 2 ^ 127"
  have d: "unat (n div 10) = unat n div 10" and m: "unat (n mod 10) = unat n mod 10"
    by (simp_all add: unat_div unat_mod)
  have s: "unat (n div 10 + 1) = unat n div 10 + 1"
    using n by (subst unat_add_no_wrap) (simp_all add: d)
  have c: "(n mod 10 > 0) = (unat n mod 10 > 0)"
    by (simp add: word_less_nat_alt m)
  show ?thesis
    using nat_div_ceil_10 [of "unat n"] by (cases "0 < unat n mod 10") (simp_all add: div_ceil_def Let_def c d s)
qed

lemma bump_base_fee_nat:
  assumes "base_fee_of h \<le> unat new" and "unat new < 2 ^ 126" and "hints_below (2 ^ 126) h"
  defines "h' \<equiv> fst (bump_base_fee h new)"
  shows "snd (bump_base_fee h new)"
    and "unat (max_priority_fee_per_gas h') =
           (if unat (max_priority_fee_per_gas h) < unat new div 10
            then (unat new + 9) div 10 else unat (max_priority_fee_per_gas h))"
    and "unat (max_fee_per_gas h') = unat new + unat (max_priority_fee_per_gas h')"
    and "blob_fee_per_gas h' = blob_fee_per_gas h"
proof -
  let ?p = "max_priority_fee_per_gas h"
  have nlt: "\<not> new < sat_sub (max_fee_per_gas h) ?p"
    using assms(1) by (simp add: word_less_nat_alt base_fee_of_def)
  have p: "unat ?p \<le> 2 ^ 126" using assms(3) by (simp add: hints_below_def)
  have s: "unat (new + ?p) = unat new + unat ?p"
    using p assms(2) by (subst unat_add_no_wrap) simp_all
  have less: "(?p < new div 10) = (unat ?p < unat new div 10)"
    by (simp add: word_less_nat_alt unat_div)
  have dc: "unat (div_ceil new 10) = (unat new + 9) div 10"
    using assms(2) by (simp add: unat_div_ceil_10)
  have dcb: "(unat new + 9) div 10 < 2 ^ 126" using assms(2) by simp
  show "snd (bump_base_fee h new)"
    using nlt by (simp add: bump_base_fee_def Let_def)
  show "unat (max_priority_fee_per_gas h') =
      (if unat ?p < unat new div 10 then (unat new + 9) div 10 else unat ?p)"
    using nlt by (simp add: h'_def bump_base_fee_def Let_def less dc)
  show "unat (max_fee_per_gas h') = unat new + unat (max_priority_fee_per_gas h')"
    using nlt assms(2) dcb by (simp add: h'_def bump_base_fee_def Let_def unat_sat_add s dc)
  show "blob_fee_per_gas h' = blob_fee_per_gas h"
    by (simp add: h'_def bump_base_fee_def Let_def)
qed

section \<open>Properties\<close>

text \<open>
  The increase for the next block keeps the priority fee and makes the base fee and the blob
  fee strictly larger than 9/8 of what they were, so they exceed the highest base fees that the
  12.5 percent rule of EIP-1559 and EIP-4844 allows for the next block. The fees must be below
  \<open>2 ^ 116\<close> wei, so that nothing wraps.
\<close>

theorem next_block_increase_covers_next_block:
  assumes "hints_wf h" and "hints_below (2 ^ 116) h"
  shows "max_priority_fee_per_gas (next_block_increase h) = max_priority_fee_per_gas h \<and>
         9 * base_fee_of h < 8 * base_fee_of (next_block_increase h) \<and>
         9 * unat (blob_fee_per_gas h) < 8 * unat (blob_fee_per_gas (next_block_increase h)) \<and>
         hints_wf (next_block_increase h)"
  using with_next_block_increase_nat [OF assms]
  by (auto simp: next_block_increase_def base_fee_of_def hints_wf_def word_le_nat_alt)

theorem next_block_increase_covers_next_block_witness:
  "9 * base_fee_of (hints_new 1000 10000 5) <
     8 * base_fee_of (next_block_increase (hints_new 1000 10000 5)) \<and>
   next_block_increase (hints_new 1000 10000 5) = hints_new 1000 11126 6"
proof -
  have "hints_wf (hints_new 1000 10000 5)" and "hints_below (2 ^ 116) (hints_new 1000 10000 5)"
    by (simp_all add: hints_new_def hints_wf_def hints_below_def)
  from next_block_increase_covers_next_block [OF this] show ?thesis
    by (simp add: next_block_increase_def with_next_block_increase_def hints_new_def)
qed

text \<open>
  Enforcing the minimum tip returns hints whose priority fee is at least the tip, whose base
  fee is the one that was asked for, and which are unchanged when the tip was already met.
\<close>

theorem enforced_min_tip_reached:
  assumes "hints_wf h" and "hints_below (2 ^ 126) h" and "unat tip < 2 ^ 126"
  defines "h' \<equiv> with_enforced_min_batch_tip_wei h tip"
  shows "tip \<le> max_priority_fee_per_gas h' \<and> base_fee_of h' = base_fee_of h \<and> hints_wf h' \<and>
         (tip \<le> max_priority_fee_per_gas h \<longrightarrow> h' = h)"
proof (cases "tip \<le> max_priority_fee_per_gas h")
  case True
  then have "h' = h" by (simp add: h'_def with_enforced_min_batch_tip_wei_def sat_sub_def)
  with True assms(1) show ?thesis by simp
next
  case False
  then have "unat (max_priority_fee_per_gas h) < unat tip" by (simp add: word_le_nat_alt)
  note n = with_enforced_min_batch_tip_nat [OF this _ assms(2)]
  have "unat (max_priority_fee_per_gas h) \<le> unat (max_fee_per_gas h)"
    using assms(1) by (simp add: hints_wf_def word_le_nat_alt)
  with n assms(3) False show ?thesis
    by (simp add: h'_def word_le_nat_alt base_fee_of_def hints_wf_def)
qed

theorem enforced_min_tip_reached_witness:
  "(150 :: u128) \<le> max_priority_fee_per_gas (with_enforced_min_batch_tip_wei (hints_new 100 300 10) 150) \<and>
   with_enforced_min_batch_tip_wei (hints_new 100 300 10) 150 = hints_new 151 351 11"
proof -
  have "hints_wf (hints_new 100 300 10)" and "hints_below (2 ^ 126) (hints_new 100 300 10)"
    by (simp_all add: hints_new_def hints_wf_def hints_below_def)
  from enforced_min_tip_reached [OF this, of 150] show ?thesis
    by (simp add: with_enforced_min_batch_tip_wei_def hints_new_def sat_sub_def)
qed

text \<open>
  Bumping the base fee refuses exactly the values below the current base fee and then changes
  nothing. Otherwise the hints allow exactly the new base fee, and the priority fee never
  decreases and is at least a tenth of it.
\<close>

theorem bump_base_fee_correct:
  assumes "hints_below (2 ^ 126) h" and "unat new < 2 ^ 126"
  shows "case bump_base_fee h new of (h', bumped) \<Rightarrow>
           bumped = (base_fee_of h \<le> unat new) \<and>
           (\<not> bumped \<longrightarrow> h' = h) \<and>
           (bumped \<longrightarrow> base_fee_of h' = unat new \<and>
              unat new div 10 \<le> unat (max_priority_fee_per_gas h')) \<and>
           max_priority_fee_per_gas h \<le> max_priority_fee_per_gas h'"
proof (cases "base_fee_of h \<le> unat new")
  case True
  note n = bump_base_fee_nat [OF True assms(2,1)]
  have "base_fee_of (fst (bump_base_fee h new)) = unat new"
    using n(3) by (simp add: base_fee_of_def)
  with True n(1,2) show ?thesis
    by (auto simp: word_le_nat_alt split: prod.split)
next
  case False
  then have "bump_base_fee h new = (h, False)"
    by (simp add: bump_base_fee_def word_less_nat_alt base_fee_of_def)
  with False show ?thesis by simp
qed

theorem bump_base_fee_correct_witness:
  "base_fee_of (fst (bump_base_fee (hints_new 10000 10000000 5) 12000000)) = 12000000"
proof -
  have "hints_below (2 ^ 126) (hints_new 10000 10000000 5)"
    by (simp add: hints_new_def hints_below_def)
  from bump_base_fee_correct [OF this, of 12000000] show ?thesis
    by (auto simp: hints_new_def base_fee_of_def split: prod.splits)
qed

text \<open>
  Doubling the hints for a resubmission doubles each of the three fees exactly, as the blob
  pool requires of a replacement, while they are below \<open>2 ^ 127\<close> wei.
\<close>

theorem double_hints_doubles:
  assumes "hints_below (2 ^ 127 - 1) h"
  shows "unat (max_priority_fee_per_gas (double_hints h)) = 2 * unat (max_priority_fee_per_gas h) \<and>
         unat (max_fee_per_gas (double_hints h)) = 2 * unat (max_fee_per_gas h) \<and>
         unat (blob_fee_per_gas (double_hints h)) = 2 * unat (blob_fee_per_gas h) \<and>
         base_fee_of (double_hints h) = 2 * base_fee_of h"
  using assms by (simp add: hints_below_def double_hints_def base_fee_of_def unat_times_two)

theorem double_hints_doubles_witness:
  "unat (max_fee_per_gas (double_hints (hints_new 1 2 3))) = 2 * unat (max_fee_per_gas (hints_new 1 2 3))"
proof -
  have "hints_below (2 ^ 127 - 1) (hints_new 1 2 3)"
    by (simp add: hints_below_def hints_new_def)
  from double_hints_doubles [OF this] show ?thesis by simp
qed

end
