(* ===== verification/Poster.thy ===== *)
theory Poster
  imports Submission Fees
begin

text \<open>
  The poster, \<open>crates/driver/src/batch_submitter/poster.rs\<close>: it turns a batch into the parameters and
  the blob sidecar of a proposal and posts the transaction with retries. What the L1 node answers, and
  the clock, are the environment: \<open>attempt_env\<close> holds the answers of one attempt. The compression, the
  KZG library and the ABI decoder are parameters. \<open>receipt\<close> is what the code reads of a receipt.
\<close>

section \<open>Constants and messages\<close>

definition ETH_TO_WEI :: u128 where "ETH_TO_WEI = 1000000000000000000"
definition MAX_FEES :: u128 where "MAX_FEES = ETH_TO_WEI div 8"
definition MIN_GAS_LIMIT :: u64 where "MIN_GAS_LIMIT = 5000000"
definition MAX_RETRIES_FOR_NEW_BLOCK :: nat where "MAX_RETRIES_FOR_NEW_BLOCK = 32"

datatype propose_call =
    ProposeBatch BatchParams bytes
  | ProposeBatchWithExpectedLastBlockId BatchParams bytes "96 word"

record 'sidecar tx_request =
  req_call :: propose_call
  req_sidecar :: 'sidecar
  req_nonce :: "u64 option"
  req_gas_limit :: "u64 option"
  req_max_priority_fee_per_gas :: "u128 option"
  req_max_fee_per_gas :: "u128 option"
  req_max_fee_per_blob_gas :: "u128 option"

record filled_tx =
  tx_hash :: b256
  tx_nonce :: u64
  tx_gas_limit :: u64
  tx_max_fee_per_gas :: u128
  tx_max_fee_per_blob_gas :: u128
  tx_blob_versioned_hashes :: "bytes list"

record receipt =
  transaction_hash :: b256
  receipt_block_number :: "u64 option"
  receipt_status :: bool
  receipt_event :: "BatchProposed option"

section \<open>The router\<close>

definition new_request :: "propose_call \<Rightarrow> 'sidecar \<Rightarrow> 'sidecar tx_request" where
  "new_request call sidecar =
     \<lparr>req_call = call, req_sidecar = sidecar, req_nonce = None, req_gas_limit = None,
      req_max_priority_fee_per_gas = None, req_max_fee_per_gas = None, req_max_fee_per_blob_gas = None\<rparr>"

definition propose_batch_tx_request :: "BatchParams \<Rightarrow> bytes \<Rightarrow> 'sidecar \<Rightarrow> 'sidecar tx_request" where
  "propose_batch_tx_request params txs sidecar = new_request (ProposeBatch params txs) sidecar"

definition propose_batch_with_expected_last_block_id_tx_request ::
  "BatchParams \<Rightarrow> bytes \<Rightarrow> u64 \<Rightarrow> 'sidecar \<Rightarrow> 'sidecar tx_request" where
  "propose_batch_with_expected_last_block_id_tx_request params txs expected_last_block_id sidecar =
     new_request (ProposeBatchWithExpectedLastBlockId params txs (ucast expected_last_block_id)) sidecar"

section \<open>Generating a batch\<close>

text \<open>\<open>tokio::try_join!\<close> of the two requests; when both fail, either error may be the result.\<close>

definition create_blob_fees_hints ::
  "runtime_config \<Rightarrow> rpc_error + u128 \<Rightarrow> rpc_error + eip1559_estimation \<Rightarrow> rpc_error + fees_hints" where
  "create_blob_fees_hints cfg get_blob_base_fee estimate_eip1559_fees =
     (case (get_blob_base_fee, estimate_eip1559_fees) of
        (Inr blob_fee, Inr eip1559_hints) \<Rightarrow>
          Inr (with_enforced_min_batch_tip_wei
                 (with_next_block_increase (from_estimation eip1559_hints blob_fee))
                 (min_batch_tip_wei (preconf cfg)))
      | (Inl e, _) \<Rightarrow> Inl e
      | (_, Inl e) \<Rightarrow> Inl e)"

definition time_shift_of :: "u64 \<Rightarrow> u8" where
  "time_shift_of time_difference = (if time_difference \<le> 255 then ucast time_difference else 255)"

text \<open>The loop over the blocks; the timestamps are subtracted without a check and wrap.\<close>

fun blocks_params :: "u64 \<Rightarrow> preconfirmed_block list \<Rightarrow> BlockParams list" where
  "blocks_params previous_block_timestamp [] = []"
| "blocks_params previous_block_timestamp (b # bs) =
     (let time_difference = pb_timestamp b - previous_block_timestamp;
          time_shift = time_shift_of time_difference
      in \<lparr>numTransactions = of_nat (length (tx_list b)), timeShift = time_shift, signalSlots = []\<rparr>
         # blocks_params (pb_timestamp b) bs)"

definition generate_batch ::
  "runtime_config \<Rightarrow> (tx_envelope list \<Rightarrow> bytes option) \<Rightarrow> (bytes list \<Rightarrow> 'kzg + 'sidecar) \<Rightarrow>
   ('sidecar \<Rightarrow> bytes list) \<Rightarrow> rpc_error + fees_hints \<Rightarrow> batch \<Rightarrow>
   ('kzg blob_error proposal_error, BatchParams \<times> 'sidecar \<times> fees_hints) outcome" where
  "generate_batch cfg rlp_encode_and_compress kzg versioned_hashes hints batch =
     (case first_and_last_block_timestamps batch of
        None \<Rightarrow> Panic
      | Some (first_ts, last_ts) \<Rightarrow>
          let batch_txs = concat (map tx_list (blocks batch));
              bparams = blocks_params first_ts (blocks batch);
              batch_anchor_block = anchor_id batch
          in case rlp_encode_and_compress batch_txs of
               None \<Rightarrow> Err ZlibError
             | Some compressed_batch \<Rightarrow>
                 let compressed_size = of_nat (length compressed_batch) :: u32
                 in case create_blob_sidecar_from_data_async kzg compressed_batch of
                      Panic \<Rightarrow> Panic
                    | Err e \<Rightarrow> Err (BlobSidecarError e)
                    | Ok sidecar \<Rightarrow>
                        let batch_params =
                              \<lparr>proposer = operator_address cfg, params_coinbase = coinbase batch,
                               parentMetaHash = 0, anchorBlockId = batch_anchor_block,
                               lastBlockTimestamp = last_ts, revertIfNotFirstProposal = False,
                               blobParams =
                                 \<lparr>blobHashes = versioned_hashes sidecar, firstBlobIndex = 0, numBlobs = 0,
                                  byteOffset = 0, byteSize = compressed_size, createdIn = 0\<rparr>,
                               params_blocks = bparams\<rparr>
                        in case hints of
                             Inl e \<Rightarrow> Err (Proposal_RpcError e)
                           | Inr fees_hints \<Rightarrow> Ok (batch_params, sidecar, fees_hints))"

section \<open>Sending one transaction\<close>

definition max_batch_fee :: "filled_tx \<Rightarrow> u128" where
  "max_batch_fee tx =
     (let gas = ucast (tx_gas_limit tx);
          blobs_len = of_nat (length (tx_blob_versioned_hashes tx));
          blob_gas_used = sat_mul blobs_len (of_nat BYTES_PER_BLOB);
          blob_fees = sat_mul (tx_max_fee_per_blob_gas tx) blob_gas_used;
          execution_fees = sat_mul (tx_max_fee_per_gas tx) gas
      in sat_add execution_fees blob_fees)"

text \<open>What the L1 node answers during one attempt, and the time at its end.\<close>

record ('sidecar, 'receipt) attempt_env =
  fill :: "'sidecar tx_request \<Rightarrow> rpc_error + filled_tx"
  send_raw_transaction :: "filled_tx \<Rightarrow> rpc_error + b256"
  latest_blocks :: "nat \<Rightarrow> rpc_error + header option"
  get_transaction_receipt :: "b256 \<Rightarrow> rpc_error + 'receipt option"
  new_hints :: "rpc_error + fees_hints"
  now :: u64

text \<open>
  The result, and the transaction that was given to the node to send, if any. \<open>abi_decode\<close> decodes
  the errors of the inbox.
\<close>

definition prepare_request ::
  "'sidecar tx_request \<Rightarrow> fees_hints \<Rightarrow> u64 option \<Rightarrow> u64 option \<Rightarrow> 'sidecar tx_request" where
  "prepare_request tx_req hints nonce gas =
     (let tx_req = (case nonce of None \<Rightarrow> tx_req | Some n \<Rightarrow> tx_req\<lparr>req_nonce := Some n\<rparr>);
          tx_req = (case gas of None \<Rightarrow> tx_req | Some g \<Rightarrow> tx_req\<lparr>req_gas_limit := Some g\<rparr>)
      in tx_req\<lparr>req_max_priority_fee_per_gas := Some (max_priority_fee_per_gas hints),
                req_max_fee_per_gas := Some (max_fee_per_gas hints),
                req_max_fee_per_blob_gas := Some (blob_fee_per_gas hints)\<rparr>)"

definition retry_tx_submission ::
  "(bytes \<Rightarrow> ITaikoInboxErrors option) \<Rightarrow> ('sidecar, 'receipt) attempt_env \<Rightarrow> 'sidecar tx_request \<Rightarrow>
   fees_hints \<Rightarrow> u64 option \<Rightarrow> u64 option \<Rightarrow> filled_tx option \<times> (retry_error + b256 \<times> u64 \<times> u64)" where
  "retry_tx_submission abi_decode env tx_req hints nonce gas =
     (case fill env (prepare_request tx_req hints nonce gas) of
        Inl err \<Rightarrow> (None, Inl (retry_error_from (try_parse_transport_error abi_decode err)))
      | Inr tx \<Rightarrow>
          let total_fees = max_batch_fee tx
          in if total_fees > MAX_FEES then (None, Inl (FeesTooHigh total_fees MAX_FEES))
             else
               let nonce = tx_nonce tx;
                   gas = min (sat_mul (tx_gas_limit tx) 2) MIN_GAS_LIMIT
               in case send_raw_transaction env tx of
                    Inl err \<Rightarrow> (Some tx, Inl (retry_error_from (try_parse_transport_error abi_decode err)))
                  | Inr hash \<Rightarrow> (Some tx, Inr (hash, nonce, gas)))"

section \<open>Waiting for a block\<close>

text \<open>The loop with \<open>n\<close> polls left, of which the next is poll number \<open>i\<close>.\<close>

fun wait_loop :: "(nat \<Rightarrow> rpc_error + header option) \<Rightarrow> nat \<Rightarrow> nat \<Rightarrow> header \<Rightarrow> 'b proposal_error + header" where
  "wait_loop get_block 0 i latest_head = Inl NoHead"
| "wait_loop get_block (Suc n) i latest_head =
     (case get_block i of
        Inl e \<Rightarrow> Inl (Proposal_RpcError e)
      | Inr None \<Rightarrow> Inl NoHead
      | Inr (Some new_head) \<Rightarrow>
          if number new_head > number latest_head then Inr new_head
          else wait_loop get_block n (Suc i) latest_head)"

definition wait_for_new_block :: "(nat \<Rightarrow> rpc_error + header option) \<Rightarrow> header \<Rightarrow> 'b proposal_error + header" where
  "wait_for_new_block get_block latest_head = wait_loop get_block MAX_RETRIES_FOR_NEW_BLOCK 0 latest_head"

section \<open>The retry loop\<close>

record retry_state =
  retry_hints :: fees_hints
  retry_nonce :: "u64 option"
  retry_gas_limit :: "u64 option"
  retry_head :: header
  retry_attempts :: nat

datatype ('b, 'r) loop_control =
    Continue retry_state
  | Break "('b proposal_error, 'r) outcome"

definition deadline_passed :: "runtime_config \<Rightarrow> u64 \<Rightarrow> u64 \<Rightarrow> bool option" where
  "deadline_passed cfg time deadline = map_option (\<lambda>slot. slot > deadline) (current_slot cfg time)"

text \<open>The end of the loop body: the deadline, then the doubling of the fees.\<close>

definition next_attempt :: "runtime_config \<Rightarrow> u64 \<Rightarrow> u64 \<Rightarrow> retry_state \<Rightarrow> ('b, 'r) loop_control" where
  "next_attempt cfg deadline time s =
     (case deadline_passed cfg time deadline of
        None \<Rightarrow> Break Panic
      | Some True \<Rightarrow> Break (Err DeadlineReached)
      | Some False \<Rightarrow> Continue (s\<lparr>retry_hints := double_hints (retry_hints s)\<rparr>))"

text \<open>The new hints are requested again; an error of the request ends the loop.\<close>

definition with_new_hints :: "rpc_error + fees_hints \<Rightarrow> retry_state \<Rightarrow> ('b, 'r) loop_control" where
  "with_new_hints hints s =
     (case hints of
        Inl e \<Rightarrow> Break (Err (Proposal_RpcError e))
      | Inr h \<Rightarrow> Continue (s\<lparr>retry_hints := h\<rparr>))"

definition on_fee_error ::
  "rpc_error + fees_hints \<Rightarrow> retry_state \<Rightarrow> rpc_error \<Rightarrow> ('b, 'r) loop_control" where
  "on_fee_error hints s e =
     (case e of
        ErrorResp message data \<Rightarrow>
          let msg = to_lowercase message
          in if contains_str msg BLOB_GAS_TOO_LOW_ERROR
             then Continue (s\<lparr>retry_hints := next_block_increase (retry_hints s)\<rparr>)
             else if contains_str msg MAX_FEE_PER_GAS_TOO_LOW_ERROR
             then (case extract_base_fee_from_err msg of
                     None \<Rightarrow> with_new_hints hints s
                   | Some new_base_fee \<Rightarrow>
                       let (bumped, ok) = bump_base_fee (retry_hints s) new_base_fee
                       in if ok then Continue (s\<lparr>retry_hints := bumped\<rparr>)
                          else with_new_hints hints (s\<lparr>retry_hints := bumped\<rparr>))
             else Break (Err (BatchRetryError (Retry_RpcError e)))
      | OtherRpc _ \<Rightarrow> Break (Err (BatchRetryError (Retry_RpcError e))))"

definition on_sent ::
  "runtime_config \<Rightarrow> ('sidecar, 'r) attempt_env \<Rightarrow> u64 \<Rightarrow> retry_state \<Rightarrow> b256 \<times> u64 \<times> u64 \<Rightarrow>
   ('b, 'r) loop_control" where
  "on_sent cfg env deadline s r =
     (case r of (latest_hash, latest_nonce, latest_gas_limit) \<Rightarrow>
        let s = (if retry_nonce s = None then s\<lparr>retry_nonce := Some latest_nonce\<rparr> else s);
            s = (if retry_gas_limit s = None then s\<lparr>retry_gas_limit := Some latest_gas_limit\<rparr> else s)
        in case wait_for_new_block (latest_blocks env) (retry_head s) of
             Inl e \<Rightarrow> Break (Err e)
           | Inr head \<Rightarrow>
               let s = s\<lparr>retry_head := head\<rparr>
               in (case get_transaction_receipt env latest_hash of
                     Inl e \<Rightarrow> Break (Err (Proposal_RpcError e))
                   | Inr (Some receipt) \<Rightarrow> Break (Ok receipt)
                   | Inr None \<Rightarrow> next_attempt cfg deadline (now env) s))"

text \<open>One iteration. It also returns what was given to the node to send, and whether it took it.\<close>

definition attempt ::
  "runtime_config \<Rightarrow> (bytes \<Rightarrow> ITaikoInboxErrors option) \<Rightarrow> 'sidecar tx_request \<Rightarrow> u64 \<Rightarrow>
   ('sidecar, 'r) attempt_env \<Rightarrow> retry_state \<Rightarrow> (filled_tx \<times> bool) list \<times> ('b, 'r) loop_control" where
  "attempt cfg abi_decode tx_req deadline env s =
     (let (sent, result) = retry_tx_submission abi_decode env tx_req (retry_hints s) (retry_nonce s) (retry_gas_limit s);
          s = s\<lparr>retry_attempts := retry_attempts s + 1\<rparr>;
          log = (case sent of None \<Rightarrow> [] | Some tx \<Rightarrow> [(tx, \<not> isl result)])
      in (log,
          case result of
            Inr r \<Rightarrow> on_sent cfg env deadline s r
          | Inl (Retry_RpcError e) \<Rightarrow> on_fee_error (new_hints env) s e
          | Inl e \<Rightarrow> Break (Err (BatchRetryError e))))"

type_synonym ('b, 'r) run = "(filled_tx \<times> bool) list \<times> ('b proposal_error, 'r) outcome option"

text \<open>
  The loop over the answers of the environment. \<open>None\<close>: it is still running when they are used up.
\<close>

fun propose_loop ::
  "runtime_config \<Rightarrow> (bytes \<Rightarrow> ITaikoInboxErrors option) \<Rightarrow> 'sidecar tx_request \<Rightarrow> u64 \<Rightarrow>
   ('sidecar, 'r) attempt_env list \<Rightarrow> retry_state \<Rightarrow>
   ('b, 'r) run" where
  "propose_loop cfg abi_decode tx_req deadline [] s = ([], None)"
| "propose_loop cfg abi_decode tx_req deadline (env # envs) s =
     (case attempt cfg abi_decode tx_req deadline env s of
        (log, Break result) \<Rightarrow> (log, Some result)
      | (log, Continue s) \<Rightarrow>
          (case propose_loop cfg abi_decode tx_req deadline envs s of
             (log', result) \<Rightarrow> (log @ log', result)))"

definition propose_batch_with_retries ::
  "runtime_config \<Rightarrow> (bytes \<Rightarrow> ITaikoInboxErrors option) \<Rightarrow> u64 \<Rightarrow> rpc_error + header option \<Rightarrow>
   ('sidecar, 'r) attempt_env list \<Rightarrow> 'sidecar tx_request \<Rightarrow> u64 \<Rightarrow> fees_hints \<Rightarrow>
   ('b, 'r) run" where
  "propose_batch_with_retries cfg abi_decode start head envs tx_req deadline hints =
     (case deadline_passed cfg start deadline of
        None \<Rightarrow> ([], Some Panic)
      | Some True \<Rightarrow> ([], Some (Err DeadlineReached))
      | Some False \<Rightarrow>
          (case head of
             Inl e \<Rightarrow> ([], Some (Err (Proposal_RpcError e)))
           | Inr None \<Rightarrow> ([], Some (Err NoHead))
           | Inr (Some latest_head) \<Rightarrow>
               propose_loop cfg abi_decode tx_req deadline envs
                 \<lparr>retry_hints = hints, retry_nonce = None, retry_gas_limit = None,
                  retry_head = latest_head, retry_attempts = 0\<rparr>))"

section \<open>Posting a batch\<close>

datatype sanity_mismatch = Last_Block_Number u64 u64 | Last_Block_Timestamp u64 u64

text \<open>The mismatches that are logged.\<close>

definition sanity_check_batch_proposed_event :: "BatchProposed \<Rightarrow> preconfirmed_block \<Rightarrow> sanity_mismatch list" where
  "sanity_check_batch_proposed_event event last_block =
     (if last_block_number event \<noteq> pb_number last_block
      then [Last_Block_Number (last_block_number event) (pb_number last_block)] else []) @
     (if last_block_timestamp event \<noteq> pb_timestamp last_block
      then [Last_Block_Timestamp (last_block_timestamp event) (pb_timestamp last_block)] else [])"

definition batch_request ::
  "runtime_config \<Rightarrow> BatchParams \<Rightarrow> preconfirmed_block \<Rightarrow> 'sidecar \<Rightarrow> 'sidecar tx_request" where
  "batch_request cfg params last_block sidecar =
     (if disable_expected_last_block_id (preconf cfg) then propose_batch_tx_request params [] sidecar
      else propose_batch_with_expected_last_block_id_tx_request params [] (pb_number last_block) sidecar)"

definition judge_receipt :: "receipt \<Rightarrow> ('b proposal_error, receipt) outcome" where
  "judge_receipt r =
     (if receipt_status r then Ok r else Err (Reverted (transaction_hash r) (receipt_block_number r)))"

definition post_batch ::
  "runtime_config \<Rightarrow> (tx_envelope list \<Rightarrow> bytes option) \<Rightarrow> (bytes list \<Rightarrow> 'kzg + 'sidecar) \<Rightarrow>
   ('sidecar \<Rightarrow> bytes list) \<Rightarrow> (bytes \<Rightarrow> ITaikoInboxErrors option) \<Rightarrow> rpc_error + fees_hints \<Rightarrow> u64 \<Rightarrow>
   rpc_error + header option \<Rightarrow> ('sidecar, receipt) attempt_env list \<Rightarrow> batch \<Rightarrow> u64 \<Rightarrow>
   (filled_tx \<times> bool) list \<times> ('kzg blob_error proposal_error, receipt) outcome option" where
  "post_batch cfg rlp_encode_and_compress kzg versioned_hashes abi_decode hints start head envs batch deadline =
     (case last_option (blocks batch) of
        None \<Rightarrow> ([], Some Panic)
      | Some last_block \<Rightarrow>
          (case generate_batch cfg rlp_encode_and_compress kzg versioned_hashes hints batch of
             Panic \<Rightarrow> ([], Some Panic)
           | Err e \<Rightarrow> ([], Some (Err e))
           | Ok (params, sidecar, fees_hints) \<Rightarrow>
               (case propose_batch_with_retries cfg abi_decode start head envs
                       (batch_request cfg params last_block sidecar) deadline fees_hints of
                  (log, None) \<Rightarrow> (log, None)
                | (log, Some result) \<Rightarrow> (log, Some (and_then result judge_receipt)))))"

section \<open>Time shifts\<close>

text \<open>
  How the inbox computes the timestamps of a batch: the first one is the last one minus the sum of the
  shifts, and every block adds its shift.
\<close>

fun shifted :: "u64 \<Rightarrow> BlockParams list \<Rightarrow> u64 list" where
  "shifted ts [] = []"
| "shifted ts (p # ps) = (ts + ucast (timeShift p)) # shifted (ts + ucast (timeShift p)) ps"

definition inbox_timestamps :: "BatchParams \<Rightarrow> u64 list" where
  "inbox_timestamps params =
     shifted (lastBlockTimestamp params - total_shift (params_blocks params)) (params_blocks params)"

text \<open>The time between consecutive blocks fits into the 8 bits of a shift.\<close>

definition shifts_fit :: "preconfirmed_block list \<Rightarrow> bool" where
  "shifts_fit bs = successively (\<lambda>a b. pb_timestamp b - pb_timestamp a \<le> 255) bs"

lemma time_shift_of_fits: "d \<le> 255 \<Longrightarrow> ucast (time_shift_of d) = d"
proof -
  assume "d \<le> 255"
  then have "unat d \<le> 255" by (simp add: word_le_nat_alt)
  then have "unat (ucast (time_shift_of d) :: u64) = unat d"
    using \<open>d \<le> 255\<close> by (simp add: time_shift_of_def unsigned_ucast_eq take_bit_eq_mod unat_mod)
  then show ?thesis by (rule unat_inj)
qed

lemma shift_le_255: "(ucast (s :: u8) :: u64) \<le> 255"
proof -
  have "unat s < 256" using unat_lt_power [of s] by simp
  then show ?thesis by (simp add: word_le_nat_alt unsigned_ucast_eq take_bit_eq_mod)
qed

lemma shifted_fits:
  "shifts_fit (x # bs) \<Longrightarrow> shifted (pb_timestamp x) (blocks_params (pb_timestamp x) bs) = map pb_timestamp bs"
proof (induction bs arbitrary: x)
  case (Cons b bs)
  then show ?case by (simp add: shifts_fit_def Let_def time_shift_of_fits)
qed simp

lemma total_shift_fits:
  "shifts_fit (x # bs) \<Longrightarrow>
   total_shift (blocks_params (pb_timestamp x) bs) = pb_timestamp (last (x # bs)) - pb_timestamp x"
proof (induction bs arbitrary: x)
  case (Cons b bs)
  then have "total_shift (blocks_params (pb_timestamp b) bs) = pb_timestamp (last (b # bs)) - pb_timestamp b"
    by (simp add: shifts_fit_def)
  with Cons.prems show ?case
    by (simp add: shifts_fit_def Let_def time_shift_of_fits total_shift_def)
qed (simp add: total_shift_def)

lemma shifted_only_fits: "shifted (pb_timestamp x) ps = map pb_timestamp bs \<Longrightarrow> shifts_fit (x # bs)"
proof (induction ps arbitrary: x bs)
  case (Cons p ps)
  then obtain b bs' where bs: "bs = b # bs'" by (cases bs) auto
  with Cons.prems have b: "pb_timestamp x + ucast (timeShift p) = pb_timestamp b"
    "shifted (pb_timestamp b) ps = map pb_timestamp bs'" by auto
  have "pb_timestamp b - pb_timestamp x = ucast (timeShift p)" unfolding b(1) [symmetric] by simp
  then have "pb_timestamp b - pb_timestamp x \<le> 255" using shift_le_255 by simp
  then show ?case using Cons.IH [OF b(2)] by (simp add: shifts_fit_def bs)
qed (simp add: shifts_fit_def)

lemma first_block_params: "blocks_params (pb_timestamp b) (b # bs) =
    \<lparr>numTransactions = of_nat (length (tx_list b)), timeShift = 0, signalSlots = []\<rparr> # blocks_params (pb_timestamp b) bs"
  by (simp add: time_shift_of_def)

lemma inbox_timestamps_iff:
  assumes "params_blocks params = blocks_params (pb_timestamp b) (b # bs)"
    and "lastBlockTimestamp params = pb_timestamp (last (b # bs))"
  shows "inbox_timestamps params = map pb_timestamp (b # bs) \<longleftrightarrow> shifts_fit (b # bs)"
proof
  assume fit: "shifts_fit (b # bs)"
  have "total_shift (params_blocks params) = total_shift (blocks_params (pb_timestamp b) bs)"
    unfolding assms(1) first_block_params by (simp add: total_shift_def)
  then have "lastBlockTimestamp params - total_shift (params_blocks params) = pb_timestamp b"
    using total_shift_fits [OF fit] assms(2) by simp
  then show "inbox_timestamps params = map pb_timestamp (b # bs)"
    using shifted_fits [OF fit] unfolding inbox_timestamps_def assms(1) first_block_params by simp
next
  assume "inbox_timestamps params = map pb_timestamp (b # bs)"
  then have "shifted (pb_timestamp b) (blocks_params (pb_timestamp b) bs) = map pb_timestamp bs"
    unfolding inbox_timestamps_def assms(1) first_block_params by auto
  then show "shifts_fit (b # bs)" by (rule shifted_only_fits)
qed

lemma generate_batch_Ok:
  assumes "generate_batch cfg compress kzg hashes hints batch = Ok (params, sidecar, fees)"
  obtains b bs where "blocks batch = b # bs" "params_blocks params = blocks_params (pb_timestamp b) (b # bs)"
    "lastBlockTimestamp params = pb_timestamp (last (b # bs))"
proof (cases "blocks batch")
  case Nil
  with assms show thesis by (simp add: generate_batch_def first_and_last_block_timestamps_def)
next
  case (Cons b bs)
  with assms show thesis
    by (intro that [of b bs])
       (auto simp: generate_batch_def first_and_last_block_timestamps_def Let_def
         split: option.splits outcome.splits sum.splits simp del: blocks_params.simps)
qed

section \<open>What is sent\<close>

lemma retry_sent_fee: "fst (retry_tx_submission abi env req h n g) = Some tx \<Longrightarrow> max_batch_fee tx \<le> MAX_FEES"
  by (auto simp: retry_tx_submission_def Let_def split: sum.splits if_splits)

lemma attempt_log:
  "fst (attempt cfg abi req d env s) =
     (case fst (retry_tx_submission abi env req (retry_hints s) (retry_nonce s) (retry_gas_limit s)) of
        None \<Rightarrow> []
      | Some tx \<Rightarrow> [(tx, \<not> isl (snd (retry_tx_submission abi env req (retry_hints s) (retry_nonce s) (retry_gas_limit s))))])"
  by (simp add: attempt_def case_prod_unfold Let_def)

lemma propose_loop_log_induct:
  fixes envs :: "('sidecar, 'r) attempt_env list"
  assumes step: "\<And>env s x. env \<in> set envs \<Longrightarrow> I s \<Longrightarrow>
      x \<in> set (fst (attempt cfg abi req d env s :: _ \<times> ('b, 'r) loop_control)) \<Longrightarrow> P x"
    and keep: "\<And>env s s'. env \<in> set envs \<Longrightarrow> I s \<Longrightarrow>
      snd (attempt cfg abi req d env s) = (Continue s' :: ('b, 'r) loop_control) \<Longrightarrow> I s'"
    and "I s" "x \<in> set (fst (propose_loop cfg abi req d envs s :: ('b, 'r) run))"
  shows "P x"
  using assms
proof (induction envs arbitrary: s)
  case (Cons env envs)
  obtain log and c :: "('b, 'r) loop_control" where a: "attempt cfg abi req d env s = (log, c)" by fastforce
  show ?case
  proof (cases c)
    case (Break r)
    then show ?thesis using Cons.prems(4) Cons.prems(1) [of env s] Cons.prems(3) a by simp
  next
    case (Continue s')
    with a Cons.prems(4) have "x \<in> set log \<or>
        x \<in> set (fst (propose_loop cfg abi req d envs s' :: ('b, 'r) run))"
      by (auto simp: case_prod_unfold)
    then show ?thesis
    proof
      assume "x \<in> set log"
      then show ?thesis using Cons.prems(1) [of env s] Cons.prems(3) a by simp
    next
      assume x: "x \<in> set (fst (propose_loop cfg abi req d envs s' :: ('b, 'r) run))"
      have I': "I s'" using Cons.prems(2) [of env s s'] Cons.prems(3) a Continue by simp
      show ?thesis
      proof (rule Cons.IH [OF _ _ I' x])
        show "P y" if "e \<in> set envs" "I u"
          "y \<in> set (fst (attempt cfg abi req d e u :: _ \<times> ('b, 'r) loop_control))" for e u y
          by (rule Cons.prems(1) [of e u y]) (use that in simp_all)
        show "I u'" if "e \<in> set envs" "I u"
          "snd (attempt cfg abi req d e u) = (Continue u' :: ('b, 'r) loop_control)" for e u u'
          by (rule Cons.prems(2) [of e u u']) (use that in simp_all)
      qed
    qed
  qed
qed simp

lemma propose_with_retries_log:
  assumes "x \<in> set (fst (propose_batch_with_retries cfg abi start head envs req d h :: ('b, 'r) run))"
  obtains hd where "x \<in> set (fst (propose_loop cfg abi req d envs
     \<lparr>retry_hints = h, retry_nonce = None, retry_gas_limit = None, retry_head = hd, retry_attempts = 0\<rparr> :: ('b, 'r) run))"
  using assms by (auto simp: propose_batch_with_retries_def split: option.splits bool.splits sum.splits)

text \<open>The fee of a transaction as a number, without saturation.\<close>

definition tx_cost :: "filled_tx \<Rightarrow> nat" where
  "tx_cost tx = unat (tx_max_fee_per_gas tx) * unat (tx_gas_limit tx) +
     unat (tx_max_fee_per_blob_gas tx) * (length (tx_blob_versioned_hashes tx) * BYTES_PER_BLOB)"

lemma MAX_FEES_nat: "unat MAX_FEES = 125000000000000000"
  by (simp add: MAX_FEES_def ETH_TO_WEI_def unat_div)

lemma max_batch_fee_cost:
  assumes "length (tx_blob_versioned_hashes tx) < 2 ^ 64"
  shows "unat (max_batch_fee tx) = min (tx_cost tx) (2 ^ 128 - 1)"
proof -
  have n: "unat (of_nat (length (tx_blob_versioned_hashes tx)) :: u128) = length (tx_blob_versioned_hashes tx)"
    using assms by (simp add: unat_of_nat)
  have b: "unat (of_nat BYTES_PER_BLOB :: u128) = BYTES_PER_BLOB" by (simp add: BYTES_PER_BLOB_def)
  have g: "unat (ucast (tx_gas_limit tx) :: u128) = unat (tx_gas_limit tx)"
    using unat_lt_power [of "tx_gas_limit tx"] by (simp add: unsigned_ucast_eq take_bit_eq_mod)
  have small: "length (tx_blob_versioned_hashes tx) * BYTES_PER_BLOB < 2 ^ 128"
    using assms by (simp add: BYTES_PER_BLOB_def)
  have m: "min (min a M + min c M) M = min (a + c) M" for a c M :: nat by simp
  have "unat (max_batch_fee tx) =
      min (min (unat (tx_max_fee_per_gas tx) * unat (tx_gas_limit tx)) (2 ^ 128 - 1) +
           min (unat (tx_max_fee_per_blob_gas tx) * (length (tx_blob_versioned_hashes tx) * BYTES_PER_BLOB)) (2 ^ 128 - 1))
          (2 ^ 128 - 1)"
    using small by (simp add: max_batch_fee_def Let_def unat_sat_add unat_sat_mul n b g)
  then show ?thesis unfolding m tx_cost_def .
qed

lemma filled_nonce:
  assumes "\<forall>r tx n. fill env r = Inr tx \<and> req_nonce r = Some n \<longrightarrow> tx_nonce tx = n"
    and "retry_nonce s = Some n" "x \<in> set (fst (attempt cfg abi req d env s))"
  shows "tx_nonce (fst x) = n"
proof -
  let ?r = "prepare_request req (retry_hints s) (retry_nonce s) (retry_gas_limit s)"
  have "req_nonce ?r = Some n" using assms(2) by (auto simp: prepare_request_def Let_def split: option.splits)
  moreover have "fill env ?r = Inr (fst x)"
    using assms(3) unfolding attempt_log
    by (auto simp: retry_tx_submission_def Let_def split: option.splits sum.splits if_splits)
  ultimately show ?thesis using assms(1) by blast
qed

lemma on_fee_error_nonce: "on_fee_error h s e = Continue s' \<Longrightarrow> retry_nonce s' = retry_nonce s"
  by (auto simp: on_fee_error_def with_new_hints_def Let_def split: rpc_error.splits if_splits option.splits prod.splits sum.splits)

lemma on_sent_nonce: "on_sent cfg env d s (h, n, g) = Continue s' \<Longrightarrow>
    retry_nonce s' = Some (case retry_nonce s of None \<Rightarrow> n | Some m \<Rightarrow> m)"
  by (auto simp: on_sent_def next_attempt_def Let_def split: sum.splits option.splits bool.splits if_splits)

lemma attempt_nonce:
  fixes env :: "('sidecar, 'r) attempt_env"
  assumes "snd (attempt cfg abi req d env s) = (Continue s' :: ('b, 'r) loop_control)"
  shows "retry_nonce s' = (case retry_nonce s of Some m \<Rightarrow> Some m
     | None \<Rightarrow> (case fst (attempt cfg abi req d env s :: _ \<times> ('b, 'r) loop_control) of [(tx, True)] \<Rightarrow> Some (tx_nonce tx) | _ \<Rightarrow> None))"
proof -
  obtain sent res where r: "retry_tx_submission abi env req (retry_hints s) (retry_nonce s) (retry_gas_limit s) = (sent, res)"
    by fastforce
  show ?thesis
  proof (cases res)
    case (Inl e)
    with r assms show ?thesis
      by (auto simp: attempt_def dest!: on_fee_error_nonce split: retry_error.splits option.splits)
  next
    case (Inr x)
    obtain h n g where x: "x = (h, n, g)" by (cases x)
    from r Inr x obtain tx where "sent = Some tx" "n = tx_nonce tx"
      by (auto simp: retry_tx_submission_def Let_def split: sum.splits if_splits)
    with r Inr x assms show ?thesis
      by (auto simp: attempt_def dest!: on_sent_nonce split: option.splits)
  qed
qed

definition keeps_nonce :: "('sidecar, 'r) attempt_env \<Rightarrow> bool" where
  "keeps_nonce env = (\<forall>r tx n. fill env r = Inr tx \<and> req_nonce r = Some n \<longrightarrow> tx_nonce tx = n)"

lemma loop_nonce_fixed:
  fixes envs :: "('sidecar, 'r) attempt_env list"
  assumes "\<forall>env \<in> set envs. keeps_nonce env" "retry_nonce s = Some n"
    "x \<in> set (fst (propose_loop cfg abi req d envs s :: ('b, 'r) run))"
  shows "tx_nonce (fst x) = n"
proof (rule propose_loop_log_induct [where I = "\<lambda>s. retry_nonce s = Some n" and P = "\<lambda>x. tx_nonce (fst x) = n",
      OF _ _ assms(2,3)])
  show "tx_nonce (fst y) = n" if "env \<in> set envs" "retry_nonce u = Some n"
    "y \<in> set (fst (attempt cfg abi req d env u :: _ \<times> ('b, 'r) loop_control))" for env u y
    using filled_nonce [OF _ that(2,3)] assms(1) that(1) by (simp add: keeps_nonce_def)
  show "retry_nonce u' = Some n" if "retry_nonce u = Some n"
    "snd (attempt cfg abi req d env u) = (Continue u' :: ('b, 'r) loop_control)" for env u u'
    using attempt_nonce [OF that(2)] that(1) by simp
qed

lemma loop_nonce_shared:
  fixes envs :: "('sidecar, 'r) attempt_env list"
  assumes "\<forall>env \<in> set envs. keeps_nonce env" "retry_nonce s = None"
  shows "\<exists>n. \<forall>tx. (tx, True) \<in> set (fst (propose_loop cfg abi req d envs s :: ('b, 'r) run)) \<longrightarrow> tx_nonce tx = n"
  using assms
proof (induction envs arbitrary: s)
  case (Cons env es)
  obtain log and c :: "('b, 'r) loop_control" where a: "attempt cfg abi req d env s = (log, c)" by fastforce
  have log: "log = [] \<or> (\<exists>tx ok. log = [(tx, ok)])"
    using arg_cong [OF a, of fst] unfolding attempt_log by (auto split: option.splits)
  show ?case
  proof (cases c)
    case (Break r)
    with a log show ?thesis by auto
  next
    case (Continue s')
    let ?rest = "fst (propose_loop cfg abi req d es s' :: ('b, 'r) run)"
    have all: "set (fst (propose_loop cfg abi req d (env # es) s :: ('b, 'r) run)) = set log \<union> set ?rest"
      using a Continue by (simp add: case_prod_unfold)
    have n: "retry_nonce s' = (case log of [(tx, True)] \<Rightarrow> Some (tx_nonce tx) | _ \<Rightarrow> None)"
    proof -
      have "snd (attempt cfg abi req d env s) = (Continue s' :: ('b, 'r) loop_control)" using a Continue by simp
      from attempt_nonce [OF this] show ?thesis using a Cons.prems(2) by simp
    qed
    show ?thesis
    proof (cases "retry_nonce s'")
      case None
      then have "(tx, True) \<notin> set log" for tx using n log by (auto split: bool.splits)
      moreover obtain m where "\<forall>tx. (tx, True) \<in> set ?rest \<longrightarrow> tx_nonce tx = m"
        using Cons.IH [OF _ None] Cons.prems(1) by auto
      ultimately show ?thesis unfolding all by blast
    next
      case (Some m)
      then have "tx_nonce tx = m" if "(tx, ok) \<in> set log" for tx ok using n log that by (auto split: bool.splits)
      moreover have "tx_nonce (fst x) = m" if "x \<in> set ?rest" for x
        by (rule loop_nonce_fixed [OF _ Some that]) (use Cons.prems(1) in simp)
      ultimately show ?thesis unfolding all by (intro exI [of _ m]) fastforce
    qed
  qed
qed simp

text \<open>A provider that keeps a gas limit that the request sets.\<close>

definition keeps_gas :: "('sidecar, 'r) attempt_env \<Rightarrow> bool" where
  "keeps_gas env = (\<forall>r tx g. fill env r = Inr tx \<and> req_gas_limit r = Some g \<longrightarrow> tx_gas_limit tx = g)"

lemma filled_gas:
  assumes "keeps_gas env" "retry_gas_limit s = Some g" "x \<in> set (fst (attempt cfg abi req d env s))"
  shows "tx_gas_limit (fst x) = g"
proof -
  let ?r = "prepare_request req (retry_hints s) (retry_nonce s) (retry_gas_limit s)"
  have "req_gas_limit ?r = Some g" using assms(2) by (auto simp: prepare_request_def Let_def split: option.splits)
  moreover have "fill env ?r = Inr (fst x)"
    using assms(3) unfolding attempt_log
    by (auto simp: retry_tx_submission_def Let_def split: option.splits sum.splits if_splits)
  ultimately show ?thesis using assms(1) unfolding keeps_gas_def by blast
qed

lemma on_fee_error_gas: "on_fee_error h s e = Continue s' \<Longrightarrow> retry_gas_limit s' = retry_gas_limit s"
  by (auto simp: on_fee_error_def with_new_hints_def Let_def split: rpc_error.splits if_splits option.splits prod.splits sum.splits)

lemma on_sent_gas: "on_sent cfg env d s (h, n, g) = Continue s' \<Longrightarrow>
    retry_gas_limit s' = Some (case retry_gas_limit s of None \<Rightarrow> g | Some m \<Rightarrow> m)"
  by (auto simp: on_sent_def next_attempt_def Let_def split: sum.splits option.splits bool.splits if_splits)

text \<open>The gas limit of a resubmission, from that of the first transaction that was accepted.\<close>

definition resubmission_gas :: "filled_tx \<Rightarrow> u64" where
  "resubmission_gas tx = min (sat_mul (tx_gas_limit tx) 2) MIN_GAS_LIMIT"

lemma attempt_gas:
  fixes env :: "('sidecar, 'r) attempt_env"
  assumes "snd (attempt cfg abi req d env s) = (Continue s' :: ('b, 'r) loop_control)" "retry_gas_limit s = None"
    "fst (attempt cfg abi req d env s :: _ \<times> ('b, 'r) loop_control) = log"
  shows "(\<exists>tx. log = [(tx, True)] \<and> retry_gas_limit s' = Some (resubmission_gas tx)) \<or>
    (\<forall>x \<in> set log. \<not> snd x) \<and> retry_gas_limit s' = None"
proof -
  obtain sent res where r: "retry_tx_submission abi env req (retry_hints s) (retry_nonce s) None = (sent, res)"
    by fastforce
  show ?thesis
  proof (cases res)
    case (Inl e)
    with r assms show ?thesis
      by (auto simp: attempt_def dest!: on_fee_error_gas split: retry_error.splits option.splits)
  next
    case (Inr x)
    obtain h n g where x: "x = (h, n, g)" by (cases x)
    from r Inr x obtain tx where "sent = Some tx" "g = resubmission_gas tx"
      by (auto simp: retry_tx_submission_def resubmission_gas_def Let_def split: sum.splits if_splits)
    with r Inr x assms show ?thesis
      by (auto simp: attempt_def dest!: on_sent_gas split: option.splits)
  qed
qed

lemma loop_gas_fixed:
  fixes envs :: "('sidecar, 'r) attempt_env list"
  assumes "\<forall>env \<in> set envs. keeps_gas env" "retry_gas_limit s = Some g"
    "x \<in> set (fst (propose_loop cfg abi req d envs s :: ('b, 'r) run))"
  shows "tx_gas_limit (fst x) = g"
proof (rule propose_loop_log_induct [where I = "\<lambda>s. retry_gas_limit s = Some g" and P = "\<lambda>x. tx_gas_limit (fst x) = g",
      OF _ _ assms(2,3)])
  show "tx_gas_limit (fst y) = g" if "env \<in> set envs" "retry_gas_limit u = Some g"
    "y \<in> set (fst (attempt cfg abi req d env u :: _ \<times> ('b, 'r) loop_control))" for env u y
    using filled_gas [OF _ that(2,3)] assms(1) that(1) by blast
  show "retry_gas_limit u' = Some g" if "retry_gas_limit u = Some g"
    "snd (attempt cfg abi req d env u) = (Continue u' :: ('b, 'r) loop_control)" for env u u'
    using that by (auto simp: attempt_def Let_def case_prod_unfold dest!: on_fee_error_gas on_sent_gas
        split: sum.splits retry_error.splits)
qed

lemma loop_gas:
  fixes envs :: "('sidecar, 'r) attempt_env list"
  assumes "\<forall>env \<in> set envs. keeps_gas env" "retry_gas_limit s = None"
    and "fst (propose_loop cfg abi req d envs s :: ('b, 'r) run) = pre @ (tx, True) # post" and "\<forall>x \<in> set pre. \<not> snd x"
  shows "\<forall>x \<in> set post. tx_gas_limit (fst x) = resubmission_gas tx"
  using assms
proof (induction envs arbitrary: s pre)
  case (Cons env es)
  obtain log and c :: "('b, 'r) loop_control" where a: "attempt cfg abi req d env s = (log, c)" by fastforce
  have short: "length log \<le> 1"
    using arg_cong [OF a, of fst] unfolding attempt_log by (auto split: option.splits)
  show ?case
  proof (cases c)
    case (Break r)
    with a Cons.prems(3) have "log = pre @ (tx, True) # post" by simp
    with short have "post = []" by auto
    then show ?thesis by simp
  next
    case (Continue s')
    let ?rest = "fst (propose_loop cfg abi req d es s' :: ('b, 'r) run)"
    have all: "log @ ?rest = pre @ (tx, True) # post"
      using Cons.prems(3) a Continue by (simp add: case_prod_unfold)
    have keeps: "\<forall>env \<in> set es. keeps_gas env" using Cons.prems(1) by simp
    from attempt_gas [of cfg abi req d env s s' log, where 'b = 'b] a Continue Cons.prems(2)
    consider tx' where "log = [(tx', True)]" "retry_gas_limit s' = Some (resubmission_gas tx')"
      | "\<forall>x \<in> set log. \<not> snd x" "retry_gas_limit s' = None" by auto
    then show ?thesis
    proof cases
      case 1
      with all Cons.prems(4) have "pre = []" "tx' = tx" "post = ?rest" by (cases pre; auto)+
      with loop_gas_fixed [OF keeps 1(2)] show ?thesis by blast
    next
      case 2
      obtain pre' where "pre = log @ pre'" "?rest = pre' @ (tx, True) # post"
      proof (cases "\<exists>us. log = pre @ us \<and> us \<noteq> []")
        case True
        with all have "(tx, True) \<in> set log" by (auto simp: Cons_eq_append_conv append_eq_Cons_conv)
        with 2(1) show ?thesis by auto
      next
        case False
        with all that show ?thesis by (auto simp: append_eq_append_conv2)
      qed
      with Cons.IH [OF keeps 2(2)] Cons.prems(4) show ?thesis by simp
    qed
  qed
qed simp

lemma unat_resubmission_gas: "unat (resubmission_gas tx) = min (2 * unat (tx_gas_limit tx)) 5000000"
proof -
  have "unat (min a b) = min (unat a) (unat b)" for a b :: u64
    by (simp add: min_def word_le_nat_alt)
  then show ?thesis by (simp add: resubmission_gas_def unat_sat_mul MIN_GAS_LIMIT_def mult.commute)
qed

section \<open>An example\<close>

definition example_filled :: filled_tx where
  "example_filled = \<lparr>tx_hash = 1, tx_nonce = 3, tx_gas_limit = 6000000, tx_max_fee_per_gas = 10 ^ 9,
     tx_max_fee_per_blob_gas = 10 ^ 9, tx_blob_versioned_hashes = [[1]]\<rparr>"

definition example_env :: "(unit, unit) attempt_env" where
  "example_env = \<lparr>fill = \<lambda>req. Inr (example_filled\<lparr>tx_nonce := case req_nonce req of Some n \<Rightarrow> n | None \<Rightarrow> 3\<rparr>),
     send_raw_transaction = \<lambda>tx. Inr (tx_hash tx), latest_blocks = \<lambda>i. Inr (Some (example_header 9 1024)),
     get_transaction_receipt = \<lambda>h. Inr (Some ()), new_hints = Inr (hints_new 1 2 3), now = 1012\<rparr>"

definition example_state :: retry_state where
  "example_state = \<lparr>retry_hints = hints_new 1 2 3, retry_nonce = None, retry_gas_limit = None,
     retry_head = example_header 8 1000, retry_attempts = 0\<rparr>"

definition example_params :: BatchParams where
  "example_params = \<lparr>proposer = 0, params_coinbase = 0, parentMetaHash = 0, anchorBlockId = 0, lastBlockTimestamp = 0,
     revertIfNotFirstProposal = False, blobParams = \<lparr>blobHashes = [], firstBlobIndex = 0, numBlobs = 0, byteOffset = 0,
     byteSize = 0, createdIn = 0\<rparr>, params_blocks = []\<rparr>"

definition example_request :: "unit tx_request" where
  "example_request = new_request (ProposeBatch example_params []) ()"

lemma example_fee: "max_batch_fee (example_filled\<lparr>tx_nonce := n\<rparr>) \<le> MAX_FEES"
  unfolding word_le_nat_alt by (subst max_batch_fee_cost)
    (simp_all add: example_filled_def tx_cost_def BYTES_PER_BLOB_def MAX_FEES_nat)

lemma example_posted:
  "propose_batch_with_retries example_config (\<lambda>_. None) 1000 (Inr (Some (example_header 8 1000))) [example_env]
     example_request 50 (hints_new 1 2 3) = ([(example_filled, True)], Some (Ok ()) :: (unit proposal_error, unit) outcome option)"
proof -
  have n: "req_nonce (prepare_request example_request h None None) = None" for h
    by (simp add: prepare_request_def example_request_def new_request_def)
  have u: "example_filled\<lparr>tx_nonce := 3\<rparr> = example_filled" by (simp add: example_filled_def)
  have s: "current_slot example_config 1000 = Some 0"
    by (simp add: current_slot_def timestamp_to_l1_slot_def checked_div_def example_config_def sat_sub_def)
  have r: "retry_tx_submission (\<lambda>_. None) example_env example_request h None None =
      (Some example_filled, Inr (1, 3, 5000000))" for h
  proof -
    have "min (sat_mul 6000000 2) MIN_GAS_LIMIT = (5000000 :: u64)"
      by (simp add: sat_mul_def MIN_GAS_LIMIT_def)
    then show ?thesis using example_fee [of 3] u
      by (simp add: retry_tx_submission_def example_env_def n Let_def not_less) (simp add: example_filled_def)
  qed
  have w: "wait_for_new_block (\<lambda>i. Inr (Some (example_header 9 1024))) (example_header 8 1000) =
      (Inr (example_header 9 1024) :: unit proposal_error + header)"
  proof -
    have m: "MAX_RETRIES_FOR_NEW_BLOCK = Suc 31" by (simp add: MAX_RETRIES_FOR_NEW_BLOCK_def)
    show ?thesis by (simp only: wait_for_new_block_def m wait_loop.simps) (simp add: example_header_def)
  qed
  show ?thesis
    by (simp add: propose_batch_with_retries_def deadline_passed_def s attempt_def r on_sent_def)
       (simp add: example_env_def w)
qed

section \<open>Properties\<close>

text \<open>
  C26. The inbox rebuilds the timestamps of the proposed blocks from the last timestamp and the time
  shifts, and it gets exactly the timestamps of the batch if and only if the time between any two
  neighbouring blocks fits into a byte. There is one entry for every block and the first shift is zero.
\<close>

theorem timestamps_survive_proposal:
  assumes "generate_batch cfg compress kzg hashes hints batch = Ok (params, sidecar, fees)"
  shows "length (params_blocks params) = length (blocks batch) \<and> timeShift (hd (params_blocks params)) = 0 \<and>
    (inbox_timestamps params = map pb_timestamp (blocks batch) \<longleftrightarrow>
     (\<forall>i. Suc i < length (blocks batch) \<longrightarrow>
        pb_timestamp (blocks batch ! Suc i) - pb_timestamp (blocks batch ! i) \<le> 255))"
proof -
  from generate_batch_Ok [OF assms] obtain b bs where b: "blocks batch = b # bs"
    "params_blocks params = blocks_params (pb_timestamp b) (b # bs)"
    "lastBlockTimestamp params = pb_timestamp (last (b # bs))" .
  have "length (blocks_params ts xs) = length xs" for ts xs
    by (induction xs arbitrary: ts) (simp_all add: Let_def)
  moreover have "shifts_fit (blocks batch) \<longleftrightarrow> (\<forall>i. Suc i < length (blocks batch) \<longrightarrow>
      pb_timestamp (blocks batch ! Suc i) - pb_timestamp (blocks batch ! i) \<le> 255)"
    by (simp add: shifts_fit_def successively_conv_nth)
  ultimately show ?thesis
    using inbox_timestamps_iff [OF b(2,3)] first_block_params [of b bs] b by (simp del: blocks_params.simps)
qed

theorem timestamps_survive_proposal_witness:
  "\<exists>params sidecar fees.
     generate_batch example_config (\<lambda>txs. Some []) (\<lambda>blobs. Inr () :: unit + unit) (\<lambda>_. []) (Inr (hints_new 1 2 3)) example_batch =
       Ok (params, sidecar, fees) \<and> inbox_timestamps params = [1001, 1002]"
proof -
  have bs: "blocks example_batch = [example_block 2 1001 7 10, example_block 3 1002 7 10]" by (simp add: example_defs)
  have "create_blob_sidecar_from_data_async (\<lambda>blobs. Inr () :: unit + unit) [] = Ok ()"
    by (simp add: create_blob_sidecar_from_data_async_def create_blob_sidecar_from_data_blocking_def chunks.simps)
  then obtain params fees where g: "generate_batch example_config (\<lambda>txs. Some []) (\<lambda>blobs. Inr () :: unit + unit) (\<lambda>_. [])
      (Inr (hints_new 1 2 3)) example_batch = Ok (params, (), fees)"
    by (simp add: generate_batch_def first_and_last_block_timestamps_def bs)
  have "inbox_timestamps params = map pb_timestamp (blocks example_batch)"
    using timestamps_survive_proposal [OF g] by (auto simp: bs example_block_def less_Suc_eq)
  then show ?thesis using g by (intro exI [of _ params] exI [of _ "()"] exI [of _ fees]) (simp add: bs example_block_def)
qed


text \<open>
  C17. Whatever the node answers, no transaction is ever given to it whose cost can exceed 0.125 ETH:
  execution fees at the full gas limit plus blob fees, as numbers without overflow.
\<close>

theorem no_transaction_above_max_fees:
  assumes "(tx, accepted) \<in> set (fst (propose_batch_with_retries cfg abi start head envs req d h :: ('b, 'r) run))"
    and "length (tx_blob_versioned_hashes tx) < 2 ^ 64"
  shows "unat (tx_max_fee_per_gas tx) * unat (tx_gas_limit tx) +
    unat (tx_max_fee_per_blob_gas tx) * (length (tx_blob_versioned_hashes tx) * 131072) \<le> 125 * 10 ^ 15"
proof -
  from propose_with_retries_log [OF assms(1)] obtain hd where
    l: "(tx, accepted) \<in> set (fst (propose_loop cfg abi req d envs
     \<lparr>retry_hints = h, retry_nonce = None, retry_gas_limit = None, retry_head = hd, retry_attempts = 0\<rparr> :: ('b, 'r) run))" .
  have "max_batch_fee (fst (tx, accepted)) \<le> MAX_FEES"
    by (rule propose_loop_log_induct [where I = "\<lambda>_. True" and P = "\<lambda>x. max_batch_fee (fst x) \<le> MAX_FEES", OF _ _ _ l])
       (auto simp: attempt_log dest: retry_sent_fee [OF sym] split: option.splits)
  then have "unat (max_batch_fee tx) \<le> 125 * 10 ^ 15" by (simp add: word_le_nat_alt MAX_FEES_nat)
  then show ?thesis
    unfolding max_batch_fee_cost [OF assms(2)] by (simp add: tx_cost_def BYTES_PER_BLOB_def min_def split: if_splits)
qed

theorem no_transaction_above_max_fees_witness:
  "unat (tx_max_fee_per_gas example_filled) * unat (tx_gas_limit example_filled) +
    unat (tx_max_fee_per_blob_gas example_filled) * (1 * 131072) \<le> 125 * 10 ^ 15"
proof -
  have "(example_filled, True) \<in> set (fst (propose_batch_with_retries example_config (\<lambda>_. None) 1000
      (Inr (Some (example_header 8 1000))) [example_env] example_request 50 (hints_new 1 2 3) :: (unit, unit) run))"
    by (simp add: example_posted)
  from no_transaction_above_max_fees [OF this] show ?thesis by (simp add: example_filled_def)
qed


text \<open>
  All transactions of one proposal that the node accepted carry the same nonce, so at most one of
  them can land. The provider is assumed to keep a nonce that the request sets.
\<close>

theorem attempts_share_the_nonce:
  assumes "\<forall>env \<in> set envs. keeps_nonce env"
  shows "\<exists>n. \<forall>tx. (tx, True) \<in> set (fst (propose_batch_with_retries cfg abi start head envs req d h :: ('b, 'r) run)) \<longrightarrow>
           tx_nonce tx = n"
proof (cases "\<exists>hd. propose_batch_with_retries cfg abi start head envs req d h = (propose_loop cfg abi req d envs
     \<lparr>retry_hints = h, retry_nonce = None, retry_gas_limit = None, retry_head = hd, retry_attempts = 0\<rparr> :: ('b, 'r) run)")
  case True
  then obtain hd where "propose_batch_with_retries cfg abi start head envs req d h = (propose_loop cfg abi req d envs
     \<lparr>retry_hints = h, retry_nonce = None, retry_gas_limit = None, retry_head = hd, retry_attempts = 0\<rparr> :: ('b, 'r) run)" ..
  then show ?thesis
    using loop_nonce_shared [OF assms, of "\<lparr>retry_hints = h, retry_nonce = None, retry_gas_limit = None,
        retry_head = hd, retry_attempts = 0\<rparr>" cfg abi req d] by simp
next
  case False
  then have "fst (propose_batch_with_retries cfg abi start head envs req d h :: ('b, 'r) run) = []"
    by (auto simp: propose_batch_with_retries_def split: option.splits bool.splits sum.splits)
  then show ?thesis by simp
qed

theorem attempts_share_the_nonce_witness:
  "\<exists>n. tx_nonce example_filled = n \<and> keeps_nonce example_env"
proof -
  have k: "keeps_nonce example_env" by (auto simp: keeps_nonce_def example_env_def)
  then have "\<forall>env \<in> set [example_env]. keeps_nonce env" by simp
  from attempts_share_the_nonce [OF this, where cfg = example_config and abi = "\<lambda>_. None" and start = 1000
      and head = "Inr (Some (example_header 8 1000))" and req = example_request and d = 50 and h = "hints_new 1 2 3"
      and 'b = unit]
  obtain n where "tx_nonce example_filled = n" by (auto simp: example_posted)
  with k show ?thesis by blast
qed


text \<open>
  The deadline. An attempt whose transaction was accepted but did not land ends the loop once the
  current slot is past the deadline; but a fee error of the node restarts the loop without looking at
  the clock: with an answer that always says that the blob fee is too low, the loop goes on for any
  number of attempts although every one of them is past the deadline.
\<close>

theorem deadline_is_checked_after_sending_only:
  fixes req :: "'sidecar tx_request" and rcpt :: "b256 \<Rightarrow> rpc_error + 'r option"
  shows "(case next_attempt cfg d time s :: ('b, 'r) loop_control of
      Continue s' \<Rightarrow> \<exists>slot. current_slot cfg time = Some slot \<and> slot \<le> d \<and> retry_hints s' = double_hints (retry_hints s)
    | Break r \<Rightarrow> current_slot cfg time = None \<or> (\<exists>slot. current_slot cfg time = Some slot \<and> d < slot \<and> r = Err DeadlineReached)) \<and>
   (let env = \<lparr>fill = \<lambda>_. Inl (ErrorResp BLOB_GAS_TOO_LOW_ERROR None), send_raw_transaction = send,
               latest_blocks = blks, get_transaction_receipt = rcpt, new_hints = nh, now = time\<rparr>
    in propose_loop cfg (\<lambda>_. None) req d (replicate n env) s = (([], None) :: ('b, 'r) run))"
proof
  show "case next_attempt cfg d time s :: ('b, 'r) loop_control of
      Continue s' \<Rightarrow> \<exists>slot. current_slot cfg time = Some slot \<and> slot \<le> d \<and> retry_hints s' = double_hints (retry_hints s)
    | Break r \<Rightarrow> current_slot cfg time = None \<or> (\<exists>slot. current_slot cfg time = Some slot \<and> d < slot \<and> r = Err DeadlineReached)"
    by (auto simp: next_attempt_def deadline_passed_def not_less split: option.splits bool.splits)
  define env :: "('sidecar, 'r) attempt_env" where "env = \<lparr>fill = \<lambda>_. Inl (ErrorResp BLOB_GAS_TOO_LOW_ERROR None), send_raw_transaction = send,
    latest_blocks = blks, get_transaction_receipt = rcpt, new_hints = nh, now = time\<rparr>"
  have msg: "contains_str (to_lowercase BLOB_GAS_TOO_LOW_ERROR) BLOB_GAS_TOO_LOW_ERROR" by code_simp
  have one: "attempt cfg (\<lambda>_. None) req d env u = ([], Continue (u
      \<lparr>retry_attempts := retry_attempts u + 1, retry_hints := next_block_increase (retry_hints u)\<rparr>) :: ('b, 'r) loop_control)" for u
    by (simp add: attempt_def retry_tx_submission_def env_def try_parse_transport_error_def on_fee_error_def msg)
  have "propose_loop cfg (\<lambda>_. None) req d (replicate n env) s = (([], None) :: ('b, 'r) run)"
    by (induction n arbitrary: s) (simp_all add: one)
  then show "let env = \<lparr>fill = \<lambda>_. Inl (ErrorResp BLOB_GAS_TOO_LOW_ERROR None), send_raw_transaction = send,
               latest_blocks = blks, get_transaction_receipt = rcpt, new_hints = nh, now = time\<rparr>
    in propose_loop cfg (\<lambda>_. None) req d (replicate n env) s = (([], None) :: ('b, 'r) run)"
    by (simp add: env_def)
qed

theorem deadline_is_checked_after_sending_only_witness:
  "next_attempt example_config 0 1012 example_state = (Break (Err DeadlineReached) :: (unit, unit) loop_control)"
proof -
  have slot: "current_slot example_config 1012 = Some 1"
    by (simp add: current_slot_def timestamp_to_l1_slot_def checked_div_def example_config_def sat_sub_def)
  show ?thesis
    using deadline_is_checked_after_sending_only [where cfg = example_config and d = 0 and time = 1012 and s = example_state
        and 'b = unit and 'r = unit, THEN conjunct1] slot
    by (auto split: loop_control.splits)
qed


text \<open>A proposal whose first transaction, estimated at six million gas, does not land in the next block.\<close>

definition example_gas_env :: "u64 \<Rightarrow> (unit, unit) attempt_env" where
  "example_gas_env n = example_env\<lparr>
     fill := \<lambda>req. Inr (example_filled\<lparr>tx_gas_limit := case req_gas_limit req of Some g \<Rightarrow> g | None \<Rightarrow> 6000000\<rparr>),
     latest_blocks := \<lambda>i. Inr (Some (example_header n 1024)), get_transaction_receipt := \<lambda>h. Inr None\<rparr>"

lemma example_gas_sent:
  assumes "g = None \<or> g = Some 5000000"
  shows "retry_tx_submission (\<lambda>_. None) (example_gas_env k) example_request h n g =
    (Some (example_filled\<lparr>tx_gas_limit := case g of None \<Rightarrow> 6000000 | Some g \<Rightarrow> g\<rparr>), Inr (1, 3, 5000000))"
proof -
  let ?tx = "example_filled\<lparr>tx_gas_limit := case g of None \<Rightarrow> 6000000 | Some g \<Rightarrow> g\<rparr>"
  have fee: "max_batch_fee (example_filled\<lparr>tx_gas_limit := m\<rparr>) \<le> MAX_FEES" if "m = 6000000 \<or> m = 5000000" for m
    unfolding word_le_nat_alt
    by (subst max_batch_fee_cost) (use that in \<open>auto simp: example_filled_def tx_cost_def BYTES_PER_BLOB_def MAX_FEES_nat\<close>)
  have "req_gas_limit (prepare_request example_request h n g) = g"
    by (auto simp: prepare_request_def example_request_def new_request_def Let_def split: option.split)
  then have filled: "fill (example_gas_env k) (prepare_request example_request h n g) = Inr ?tx"
    by (simp add: example_gas_env_def)
  have gas: "tx_gas_limit ?tx = 6000000 \<or> tx_gas_limit ?tx = 5000000" using assms by (auto simp: example_filled_def)
  have "\<not> MAX_FEES < max_batch_fee ?tx"
    using fee [OF gas] by (simp add: not_less example_filled_def split: option.split)
  moreover have "send_raw_transaction (example_gas_env k) ?tx = Inr 1"
    by (simp add: example_gas_env_def example_env_def example_filled_def)
  moreover have "min (sat_mul (tx_gas_limit ?tx) 2) MIN_GAS_LIMIT = 5000000"
    using gas by (auto simp: sat_mul_def MIN_GAS_LIMIT_def)
  moreover have "tx_nonce ?tx = 3" by (simp add: example_filled_def)
  ultimately show ?thesis
    by (simp only: retry_tx_submission_def filled Let_def sum.case if_False)
qed

lemma example_gas_posted:
  "fst (propose_batch_with_retries example_config (\<lambda>_. None) 1000 (Inr (Some (example_header 8 1000)))
     [example_gas_env 9, example_gas_env 10] example_request 50 (hints_new 1 2 3) :: (unit, unit) run) =
   [(example_filled, True), (example_filled\<lparr>tx_gas_limit := 5000000\<rparr>, True)]"
proof -
  have slot: "current_slot example_config 1000 = Some 0" "current_slot example_config 1012 = Some 1"
    by (simp_all add: current_slot_def timestamp_to_l1_slot_def checked_div_def example_config_def sat_sub_def)
  have w: "wait_for_new_block (\<lambda>i. Inr (Some (example_header n 1024))) h =
      (Inr (example_header n 1024) :: unit proposal_error + header)" if "number h < n" for n h
  proof -
    have m: "MAX_RETRIES_FOR_NEW_BLOCK = Suc 31" by (simp add: MAX_RETRIES_FOR_NEW_BLOCK_def)
    show ?thesis using that by (simp only: wait_for_new_block_def m wait_loop.simps) (simp add: example_header_def)
  qed
  have env: "now (example_gas_env n) = 1012" "get_transaction_receipt (example_gas_env n) = (\<lambda>h. Inr None)"
    "latest_blocks (example_gas_env n) = (\<lambda>i. Inr (Some (example_header n 1024)))" for n
    by (simp_all add: example_gas_env_def example_env_def)
  have head: "number (example_header n t) = n" for n t by (simp add: example_header_def)
  have six: "example_filled\<lparr>tx_gas_limit := 6000000\<rparr> = example_filled" by (simp add: example_filled_def)
  have first: "attempt example_config (\<lambda>_. None) example_request 50 (example_gas_env 9)
      \<lparr>retry_hints = h, retry_nonce = None, retry_gas_limit = None, retry_head = example_header 8 1000, retry_attempts = 0\<rparr> =
    ([(example_filled, True)], Continue \<lparr>retry_hints = double_hints h, retry_nonce = Some 3,
       retry_gas_limit = Some 5000000, retry_head = example_header 9 1024, retry_attempts = Suc 0\<rparr> :: (unit, unit) loop_control)" for h
    by (simp add: attempt_def example_gas_sent six on_sent_def env w head next_attempt_def deadline_passed_def slot Let_def)
  have second: "fst (attempt example_config (\<lambda>_. None) example_request 50 (example_gas_env 10)
      \<lparr>retry_hints = h, retry_nonce = Some 3, retry_gas_limit = Some 5000000, retry_head = example_header 9 1024,
        retry_attempts = Suc 0\<rparr> :: _ \<times> (unit, unit) loop_control) = [(example_filled\<lparr>tx_gas_limit := 5000000\<rparr>, True)]" for h
    by (simp add: attempt_log example_gas_sent)
  obtain c :: "(unit, unit) loop_control" where second': "attempt example_config (\<lambda>_. None) example_request 50 (example_gas_env 10)
      \<lparr>retry_hints = double_hints (hints_new 1 2 3), retry_nonce = Some 3, retry_gas_limit = Some 5000000, retry_head = example_header 9 1024,
        retry_attempts = Suc 0\<rparr> = ([(example_filled\<lparr>tx_gas_limit := 5000000\<rparr>, True)], c)"
    using second [of "double_hints (hints_new 1 2 3)"] by (metis prod.collapse)
  show ?thesis
    by (cases c) (simp_all add: propose_batch_with_retries_def deadline_passed_def slot first second')
qed

text \<open>
  C39. The gas limit of a resubmission. Once the node has accepted a transaction of a proposal and it does not land,
  every further transaction that the loop sends carries the smaller of twice the gas limit of that first one and
  5,000,000, provided that the provider keeps a gas limit that the request sets. So a batch that the node estimates
  above five million gas is resubmitted with less gas than the estimate, although the constant is documented as a
  minimum.
\<close>

theorem resubmission_gas_limit_is_capped:
  fixes envs :: "('sidecar, 'r) attempt_env list"
  assumes "\<forall>env \<in> set envs. keeps_gas env"
    and "fst (propose_batch_with_retries cfg abi start head envs req d h :: ('b, 'r) run) = pre @ (tx, True) # post"
    and "\<forall>x \<in> set pre. \<not> snd x"
  shows "\<forall>x \<in> set post. unat (tx_gas_limit (fst x)) = min (2 * unat (tx_gas_limit tx)) 5000000"
proof -
  obtain hd where "propose_batch_with_retries cfg abi start head envs req d h = (propose_loop cfg abi req d envs
     \<lparr>retry_hints = h, retry_nonce = None, retry_gas_limit = None, retry_head = hd, retry_attempts = 0\<rparr> :: ('b, 'r) run)"
    using assms(2) by (auto simp: propose_batch_with_retries_def split: option.splits bool.splits sum.splits)
  from assms(2) [unfolded this] have "\<forall>x \<in> set post. tx_gas_limit (fst x) = resubmission_gas tx"
    by (intro loop_gas [OF assms(1) _ _ assms(3)]) simp_all
  then show ?thesis by (simp add: unat_resubmission_gas)
qed

theorem resubmission_gas_limit_is_capped_witness:
  "\<exists>resent. fst (propose_batch_with_retries example_config (\<lambda>_. None) 1000 (Inr (Some (example_header 8 1000)))
       [example_gas_env 9, example_gas_env 10] example_request 50 (hints_new 1 2 3) :: (unit, unit) run) =
     [(example_filled, True), (resent, True)] \<and>
     unat (tx_gas_limit resent) = 5000000 \<and> unat (tx_gas_limit example_filled) = 6000000"
proof -
  let ?resent = "example_filled\<lparr>tx_gas_limit := 5000000\<rparr>"
  have "\<forall>env \<in> set [example_gas_env 9, example_gas_env 10]. keeps_gas env"
    by (auto simp: keeps_gas_def example_gas_env_def)
  moreover have "fst (propose_batch_with_retries example_config (\<lambda>_. None) 1000 (Inr (Some (example_header 8 1000)))
     [example_gas_env 9, example_gas_env 10] example_request 50 (hints_new 1 2 3) :: (unit, unit) run) =
     [] @ (example_filled, True) # [(?resent, True)]"
    by (simp add: example_gas_posted)
  ultimately have "\<forall>x \<in> set [(?resent, True)]. unat (tx_gas_limit (fst x)) = min (2 * unat (tx_gas_limit example_filled)) 5000000"
    by (rule resubmission_gas_limit_is_capped) simp
  then show ?thesis by (intro exI [of _ ?resent]) (simp add: example_gas_posted, simp add: example_filled_def)
qed
section \<open>The loop ends\<close>

text \<open>The answers of an attempt without an error about fees.\<close>

definition fee_error :: "rpc_error \<Rightarrow> bool" where
  "fee_error e =
     (case e of
        ErrorResp message data \<Rightarrow>
          contains_str (to_lowercase message) BLOB_GAS_TOO_LOW_ERROR \<or>
          contains_str (to_lowercase message) MAX_FEE_PER_GAS_TOO_LOW_ERROR
      | OtherRpc _ \<Rightarrow> False)"

definition fees_suffice :: "('sidecar, 'r) attempt_env \<Rightarrow> bool" where
  "fees_suffice env =
     ((\<forall>req e. fill env req = Inl e \<longrightarrow> \<not> fee_error e) \<and> (\<forall>tx e. send_raw_transaction env tx = Inl e \<longrightarrow> \<not> fee_error e))"

lemma parsed_rpc_error:
  "retry_error_from (try_parse_transport_error abi e) = Retry_RpcError e' \<Longrightarrow> e' = e"
  by (auto simp: try_parse_transport_error_def Let_def split: option.splits)

lemma retry_rpc_error:
  assumes "fees_suffice env" and "snd (retry_tx_submission abi env req h n g) = Inl (Retry_RpcError e)"
  shows "\<not> fee_error e"
  using assms by (auto simp: fees_suffice_def retry_tx_submission_def Let_def split: sum.splits if_splits dest!: parsed_rpc_error)

lemma other_error_breaks: "\<not> fee_error e \<Longrightarrow> \<exists>r. on_fee_error hints s e = Break r"
  by (cases e) (auto simp: fee_error_def on_fee_error_def Let_def)

lemma late_attempt_breaks: "deadline_passed cfg (now env) d \<noteq> Some False \<Longrightarrow> \<exists>r. on_sent cfg env d s sent = Break r"
  by (auto simp: on_sent_def next_attempt_def Let_def split: prod.splits sum.splits option.splits bool.splits)

lemma last_attempt:
  assumes "fees_suffice env" and "deadline_passed cfg (now env) d \<noteq> Some False"
  shows "\<exists>r. snd (attempt cfg abi req d env s :: _ \<times> ('b, 'r) loop_control) = Break r"
proof -
  let ?result = "snd (retry_tx_submission abi env req (retry_hints s) (retry_nonce s) (retry_gas_limit s))"
  show ?thesis
  proof (cases ?result)
    case (Inr sent)
    then show ?thesis using late_attempt_breaks [OF assms(2)] by (simp add: attempt_def case_prod_unfold Let_def)
  next
    case (Inl err)
    have "\<exists>r. on_fee_error hints s' e = (Break r :: ('b, 'r) loop_control)" if "err = Retry_RpcError e" for hints s' e
      using other_error_breaks [OF retry_rpc_error [OF assms(1)]] Inl that by blast
    with Inl show ?thesis by (cases err) (simp_all add: attempt_def case_prod_unfold Let_def)
  qed
qed

lemma attempt_log_length: "length (fst (attempt cfg abi req d env s :: _ \<times> ('b, 'r) loop_control)) \<le> 1"
  by (simp add: attempt_log split: option.split)

lemma propose_loop_ends:
  assumes "fees_suffice env" and "deadline_passed cfg (now env) d \<noteq> Some False"
  shows "(propose_loop cfg abi req d (envs @ env # rest) s :: ('b, 'r) run) = propose_loop cfg abi req d (envs @ [env]) s \<and>
    snd (propose_loop cfg abi req d (envs @ [env]) s :: ('b, 'r) run) \<noteq> None \<and>
    length (fst (propose_loop cfg abi req d (envs @ [env]) s :: ('b, 'r) run)) \<le> Suc (length envs)"
proof (induction envs arbitrary: s)
  case Nil
  obtain r where "snd (attempt cfg abi req d env s :: _ \<times> ('b, 'r) loop_control) = Break r"
    using last_attempt [OF assms] by blast
  then show ?case
    using attempt_log_length [where ?'b = 'b and ?'r = 'r, of cfg abi req d env s]
    by (cases "attempt cfg abi req d env s :: _ \<times> ('b, 'r) loop_control") simp
next
  case (Cons e envs)
  obtain log and c :: "('b, 'r) loop_control" where a: "attempt cfg abi req d e s = (log, c)" by fastforce
  have log: "length log \<le> 1" using attempt_log_length [where ?'b = 'b and ?'r = 'r, of cfg abi req d e s] a by simp
  show ?case
  proof (cases c)
    case (Break r)
    then show ?thesis using a log by simp
  next
    case (Continue s')
    then show ?thesis using a log Cons.IH [of s'] by (simp add: case_prod_unfold)
  qed
qed

text \<open>
  C18. Posting a batch ends: if there is an attempt during which the node reports no fee that is too low and at whose
  end the deadline has passed, the loop has returned by then, with a receipt, an error or a panic. What the node would
  answer later does not matter, and there is at most one transaction for each attempt.
\<close>

theorem proposal_ends_at_the_deadline:
  assumes "fees_suffice env" and "current_slot cfg (now env) = Some slot" and "deadline < slot"
  shows "\<exists>log result. length log \<le> Suc (length envs) \<and>
    (\<forall>rest. propose_batch_with_retries cfg abi start head (envs @ env # rest) req deadline h =
       ((log, Some result) :: ('b, 'r) run))"
proof -
  have late: "deadline_passed cfg (now env) deadline \<noteq> Some False" using assms(2,3) by (simp add: deadline_passed_def)
  define run where "run = (propose_batch_with_retries cfg abi start head (envs @ [env]) req deadline h :: ('b, 'r) run)"
  have same: "propose_batch_with_retries cfg abi start head (envs @ env # rest) req deadline h = run" for rest
    unfolding run_def propose_batch_with_retries_def
    by (auto simp: propose_loop_ends [OF assms(1) late, where rest = rest] split: option.splits bool.splits sum.splits)
  have "snd run \<noteq> None \<and> length (fst run) \<le> Suc (length envs)"
    unfolding run_def propose_batch_with_retries_def
    using propose_loop_ends [OF assms(1) late, where ?'b = 'b and rest = "[]" and abi = abi and envs = envs]
    by (auto split: option.splits bool.splits sum.splits)
  then show ?thesis using same by (metis option.exhaust prod.collapse)
qed

theorem proposal_ends_at_the_deadline_witness:
  "\<exists>log result. propose_batch_with_retries example_config (\<lambda>_. None) 1000 (Inr (Some (example_header 8 1000)))
     (replicate 3 example_env) example_request 0 (hints_new 1 2 3) = ((log, Some result) :: (unit, unit) run) \<and> length log \<le> 1"
proof -
  have "fees_suffice example_env" by (simp add: fees_suffice_def example_env_def)
  moreover have "current_slot example_config (now example_env) = Some 1"
    by (simp add: current_slot_def timestamp_to_l1_slot_def checked_div_def example_config_def example_env_def sat_sub_def)
  ultimately obtain log and result :: "(unit proposal_error, unit) outcome" where "length log \<le> Suc (length ([] :: (unit, unit) attempt_env list))"
    "\<forall>rest. propose_batch_with_retries example_config (\<lambda>_. None) 1000 (Inr (Some (example_header 8 1000)))
      ([] @ example_env # rest) example_request 0 (hints_new 1 2 3) = (log, Some result)"
    using proposal_ends_at_the_deadline [of example_env example_config 1 0 "[]" "\<lambda>_. None" 1000
      "Inr (Some (example_header 8 1000))" example_request "hints_new 1 2 3"] by auto
  then show ?thesis by (auto simp: numeral_3_eq_3)
qed

end
