(* ===== verification/Signer.thy ===== *)
theory Signer
  imports Chain_Types
begin

text \<open>
  The deterministic signer of anchor transactions,
  \<open>crates/primitives/src/taiko/deterministic_signer.rs\<close>. A scalar of secp256k1 is a natural number below
  the order \<open>ORDER\<close> of the group. The curve is a library: \<open>mul_generator k\<close> stands for the affine
  coordinates of \<open>k * G\<close>, as the 32 bytes of \<open>x\<close> and whether \<open>y\<close> is odd, and \<open>invert\<close> for the inversion
  of a scalar.
\<close>

definition ORDER :: nat where
  "ORDER = 0xFFFFFFFFFFFFFFFFFFFFFFFFFFFFFFFEBAAEDCE6AF48A03BBFD25E8CD0364141"

definition HALF_ORDER :: nat where
  "HALF_ORDER = 0x7FFFFFFFFFFFFFFFFFFFFFFFFFFFFFFF5D576E7357A4501DDFE92F46681B20A0"

datatype signer_error = InvalidPrivateKeyBytes | CannotInvertZero | KTooLarge nat | FailedToSignHash

section \<open>Big-endian numbers\<close>

definition from_be :: "bytes \<Rightarrow> nat" where
  "from_be bs = foldl (\<lambda>n b. n * 256 + unat b) 0 bs"

fun to_be :: "nat \<Rightarrow> nat \<Rightarrow> bytes" where
  "to_be 0 x = []"
| "to_be (Suc n) x = to_be n (x div 256) @ [of_nat (x mod 256)]"

section \<open>Signing\<close>

text \<open>\<open>from_repr\<close> accepts exactly the numbers below the order; a larger one is reduced by hand.\<close>

definition scalar_from_bytes :: "bytes \<Rightarrow> nat \<times> bool" where
  "scalar_from_bytes bs =
     (if from_be bs < ORDER then (from_be bs, False) else (from_be bs mod ORDER, True))"

definition sign_hash_with_fixed_k ::
  "(nat \<Rightarrow> bytes \<times> bool) \<Rightarrow> (nat \<Rightarrow> nat option) \<Rightarrow> bytes \<Rightarrow> bytes \<Rightarrow> nat \<Rightarrow> signer_error + bytes" where
  "sign_hash_with_fixed_k mul_generator invert sk message k =
     (let k_scalar = k;
          message_scalar = fst (scalar_from_bytes message);
          secret_key_scalar = fst (scalar_from_bytes sk);
          (x, y_is_odd) = mul_generator k_scalar;
          (r_scalar, overflow) = scalar_from_bytes x
      in if overflow then Inl (KTooLarge k)
         else
           let recovery_id = (if y_is_odd then 1 else 0 :: u8)
           in case invert k_scalar of
                None \<Rightarrow> Inl CannotInvertZero
              | Some k_inv \<Rightarrow>
                  let s_scalar = (((message_scalar + r_scalar * secret_key_scalar mod ORDER) mod ORDER) * k_inv) mod ORDER;
                      (s_scalar, recovery_id) =
                        (if s_scalar > HALF_ORDER
                         then ((ORDER - s_scalar) mod ORDER, xor recovery_id 1)
                         else (s_scalar, recovery_id))
                  in Inr (to_be 32 r_scalar @ to_be 32 s_scalar @ [recovery_id]))"

text \<open>\<open>try_from\<close> of the signature type is a parameter; the code expects it not to fail.\<close>

definition sign_hash_deterministic ::
  "(nat \<Rightarrow> bytes \<times> bool) \<Rightarrow> (nat \<Rightarrow> nat option) \<Rightarrow> (bytes \<Rightarrow> 'sig option) \<Rightarrow> bytes \<Rightarrow> bytes \<Rightarrow>
   (signer_error, 'sig) outcome" where
  "sign_hash_deterministic mul_generator invert try_from secret_key hash =
     (case sign_hash_with_fixed_k mul_generator invert secret_key hash 1 of
        Inr sig \<Rightarrow> or_panic (try_from sig)
      | Inl _ \<Rightarrow>
          (case sign_hash_with_fixed_k mul_generator invert secret_key hash 2 of
             Inr sig \<Rightarrow> or_panic (try_from sig)
           | Inl _ \<Rightarrow> Err FailedToSignHash))"

section \<open>Lemmas\<close>

lemma length_to_be [simp]: "length (to_be n x) = n"
  by (induction n arbitrary: x) simp_all

lemma from_be_snoc: "from_be (bs @ [b]) = from_be bs * 256 + unat b"
  by (simp add: from_be_def)

lemma from_be_to_be: "x < 256 ^ n \<Longrightarrow> from_be (to_be n x) = x"
proof (induction n arbitrary: x)
  case (Suc n)
  then have "x div 256 < 256 ^ n" by (simp add: less_mult_imp_div_less mult.commute)
  moreover have "unat (of_nat (x mod 256) :: u8) = x mod 256" by (simp add: unat_of_nat)
  ultimately show ?case using Suc.IH [of "x div 256"] by (simp add: from_be_snoc)
qed (simp add: from_be_def)

lemma ORDER_facts: "ORDER = 2 * HALF_ORDER + 1" "ORDER < 256 ^ 32" "0 < ORDER"
  by (simp_all add: ORDER_def HALF_ORDER_def)

lemma scalar_lt: "fst (scalar_from_bytes bs) < ORDER"
  by (simp add: scalar_from_bytes_def ORDER_facts)

lemma scalar_mod: "fst (scalar_from_bytes bs) = from_be bs mod ORDER"
  by (simp add: scalar_from_bytes_def)

text \<open>
  The signature equation: with \<open>e\<close> the sum of message and key part, the scalar that is computed times
  \<open>k\<close> is \<open>e\<close>, and negating it negates \<open>e\<close>.
\<close>

lemma signature_equation:
  fixes e k ki N :: nat
  assumes "(k * ki) mod N = 1" "e < N" "1 < N"
  defines "s \<equiv> (e * ki) mod N"
  shows "(s * k) mod N = e" "0 < s \<Longrightarrow> ((N - s) * k + e) mod N = 0"
proof -
  have "(s * k) mod N = (e * ki * k) mod N" unfolding s_def by (rule mod_mult_left_eq)
  also have "e * ki * k = e * (k * ki)" by (simp add: ac_simps)
  also have "e * (k * ki) mod N = (e * ((k * ki) mod N)) mod N" by (simp add: mod_mult_right_eq)
  finally show sk: "(s * k) mod N = e" using assms by simp
  assume "0 < s"
  have "s < N" using assms(3) by (simp add: s_def)
  then have "(N - s) * k + s * k = N * k" by (simp add: add_mult_distrib [symmetric])
  moreover have "((N - s) * k + e) mod N = ((N - s) * k + (s * k) mod N) mod N" by (simp add: sk)
  ultimately show "((N - s) * k + e) mod N = 0" by (simp add: mod_add_right_eq)
qed

section \<open>Properties\<close>

text \<open>
  A signature that the signer returns has 65 bytes: \<open>r\<close>, the x-coordinate of \<open>k * G\<close>; \<open>s\<close>, which is at
  most half of the group order, so that the signature is not malleable; and the recovery id, the
  parity of \<open>y\<close>. They satisfy the signature equation: \<open>s * k\<close> is \<open>message + r * key\<close>, or its negation with
  the recovery id flipped, modulo the order. The inversion is assumed to return an inverse.
\<close>

theorem signature_is_valid_and_low:
  assumes "sign_hash_with_fixed_k mul_generator invert sk message k = Inr sig"
    and "\<forall>x i. invert x = Some i \<longrightarrow> (x * i) mod ORDER = 1"
  shows "\<exists>r s v. sig = to_be 32 r @ to_be 32 s @ [v] \<and> length sig = 65 \<and> r < ORDER \<and> s \<le> HALF_ORDER \<and>
    from_be (fst (mul_generator k)) = r \<and>
    (let e = (from_be message mod ORDER + r * (from_be sk mod ORDER)) mod ORDER; odd = snd (mul_generator k)
     in ((s * k) mod ORDER = e \<and> v = (if odd then 1 else 0)) \<or>
        ((s * k + e) mod ORDER = 0 \<and> v = (if odd then 0 else 1)))"
proof -
  obtain x y where xy: "mul_generator k = (x, y)" by fastforce
  have no: "from_be x < ORDER"
    using assms(1) xy by (auto simp: sign_hash_with_fixed_k_def Let_def scalar_from_bytes_def split: if_splits)
  then have sx: "scalar_from_bytes x = (from_be x, False)" by (simp add: scalar_from_bytes_def)
  then obtain ki where ki: "invert k = Some ki"
    using assms(1) xy by (auto simp: sign_hash_with_fixed_k_def Let_def split: option.splits)
  then have inv: "(k * ki) mod ORDER = 1" using assms(2) by blast
  define r where "r = from_be x"
  define e where "e = (from_be message mod ORDER + r * (from_be sk mod ORDER)) mod ORDER"
  define s0 where "s0 = (e * ki) mod ORDER"
  have s0: "(((from_be message mod ORDER + r * (from_be sk mod ORDER) mod ORDER) mod ORDER) * ki) mod ORDER = s0"
    by (simp add: s0_def e_def mod_add_right_eq)
  have eN: "e < ORDER" "1 < ORDER" "s0 < ORDER" by (simp_all add: e_def s0_def ORDER_def)
  note eq = signature_equation [OF inv eN(1,2), folded s0_def]
  show ?thesis
  proof (cases "s0 > HALF_ORDER")
    case True
    then have pos: "0 < s0" by simp
    then have m: "(ORDER - s0) mod ORDER = ORDER - s0" "ORDER - s0 \<le> HALF_ORDER"
      using True eN(3) ORDER_facts by simp_all
    have "sig = to_be 32 r @ to_be 32 (ORDER - s0) @ [if y then 0 else 1]"
      using assms(1) True xy sx ki s0 m(1) by (auto simp: sign_hash_with_fixed_k_def Let_def scalar_mod r_def)
    then show ?thesis using eq(2) [OF pos] m no xy
      by (intro exI [of _ r] exI [of _ "ORDER - s0"] exI [of _ "if y then 0 else 1"]) (simp add: r_def e_def Let_def)
  next
    case False
    then have "sig = to_be 32 r @ to_be 32 s0 @ [if y then 1 else 0]"
      using assms(1) xy sx ki s0 by (auto simp: sign_hash_with_fixed_k_def Let_def scalar_mod r_def)
    then show ?thesis using eq(1) False no xy
      by (intro exI [of _ r] exI [of _ s0] exI [of _ "if y then 1 else 0"]) (simp add: r_def e_def Let_def)
  qed
qed

theorem signature_is_valid_and_low_witness:
  "\<exists>sig. sign_hash_with_fixed_k (\<lambda>_. (to_be 32 5, True)) (\<lambda>k. if k = 1 then Some 1 else None)
       (to_be 32 3) (to_be 32 2) 1 = Inr sig \<and> length sig = 65"
proof -
  let ?inv = "\<lambda>k :: nat. if k = 1 then Some (1 :: nat) else None"
  have s: "scalar_from_bytes (to_be 32 x) = (x, False)" if "x < 6" for x
  proof -
    have "x < 256 ^ 32" using that by (rule order.strict_trans) simp
    then show ?thesis using that by (simp add: scalar_from_bytes_def from_be_to_be ORDER_def)
  qed
  obtain sig where sig: "sign_hash_with_fixed_k (\<lambda>_. (to_be 32 5, True)) ?inv (to_be 32 3) (to_be 32 2) 1 = Inr sig"
    by (simp add: sign_hash_with_fixed_k_def s Let_def case_prod_unfold)
  have "\<forall>x i. ?inv x = Some i \<longrightarrow> (x * i) mod ORDER = 1" by (simp add: ORDER_def)
  from signature_is_valid_and_low [OF sig this] sig show ?thesis by blast
qed

end
