(* ===== verification/Anchor.thy ===== *)
theory Anchor
  imports Inbox Signer Batch
begin

text \<open>
  The L2 anchor contract, \<open>crates/chainio/src/taiko/anchor.rs\<close>, and the block extension of
  \<open>crates/driver/src/helpers.rs\<close>: building and signing the anchor transaction and reading it back from
  a block. The ABI coder, the hash that is signed and the encoding of a signed transaction are
  parameters (\<open>codec\<close>); the answers of the node are arguments.
\<close>

section \<open>Data\<close>

definition TAIKO_GOLDEN_TOUCH_PRIVATE_KEY :: bytes where
  "TAIKO_GOLDEN_TOUCH_PRIVATE_KEY = to_be 32 0x92954368afd3caa1f3ce3ead0069c1af414054aefe1ef9aeacc1bf426222ce38"

record AnchorBaseFeeConfig =
  anc_adjustmentQuotient :: u8
  anc_sharingPctg :: u8
  anc_gasIssuancePerSecond :: u32
  anc_minGasExcess :: u64
  anc_maxGasIssuancePerBlock :: u32

record anchorV3Call =
  call_anchorBlockId :: u64
  call_anchorStateRoot :: b256
  call_parentGasUsed :: u32
  call_baseFeeConfig :: AnchorBaseFeeConfig
  call_signalSlots :: "b256 list"

record TaikoAnchorTxInput =
  anchor_block_id :: u64
  anchor_state_root :: b256
  parent_gas_used :: u32
  base_fee_config :: AnchorBaseFeeConfig
  signal_slots :: "b256 list"

record BaseFeeResult =
  base_fee :: u256
  new_gas_target :: u64
  new_gas_excess :: u64

datatype TaikoAnchorError =
    AnchorTransactionNotFound
  | InvalidSigner address address
  | TransactionDataDecodeError

definition anchor_base_fee_config_from :: "BaseFeeConfig \<Rightarrow> AnchorBaseFeeConfig" where
  "anchor_base_fee_config_from config =
     \<lparr>anc_adjustmentQuotient = adjustmentQuotient config, anc_sharingPctg = sharingPctg config,
      anc_gasIssuancePerSecond = gasIssuancePerSecond config, anc_minGasExcess = minGasExcess config,
      anc_maxGasIssuancePerBlock = maxGasIssuancePerBlock config\<rparr>"

definition anchor_input_from_call :: "anchorV3Call \<Rightarrow> TaikoAnchorTxInput" where
  "anchor_input_from_call anchor =
     \<lparr>anchor_block_id = call_anchorBlockId anchor, anchor_state_root = call_anchorStateRoot anchor,
      parent_gas_used = call_parentGasUsed anchor, base_fee_config = call_baseFeeConfig anchor,
      signal_slots = call_signalSlots anchor\<rparr>"

definition anchor_call_from_input :: "TaikoAnchorTxInput \<Rightarrow> anchorV3Call" where
  "anchor_call_from_input v =
     \<lparr>call_anchorBlockId = anchor_block_id v, call_anchorStateRoot = anchor_state_root v,
      call_parentGasUsed = parent_gas_used v, call_baseFeeConfig = base_fee_config v,
      call_signalSlots = signal_slots v\<rparr>"

record eip1559_tx =
  a_chain_id :: u64
  a_nonce :: u64
  a_gas_limit :: u64
  a_max_fee_per_gas :: u128
  a_max_priority_fee_per_gas :: u128
  a_to :: address
  a_input :: bytes

record 'sig anchor_codec =
  abi_encode_call :: "anchorV3Call \<Rightarrow> bytes"
  abi_decode_call :: "bytes \<Rightarrow> anchorV3Call option"
  signature_hash :: "eip1559_tx \<Rightarrow> bytes"
  signed_envelope :: "eip1559_tx \<Rightarrow> 'sig \<Rightarrow> tx_envelope"
  envelope_input :: "tx_envelope \<Rightarrow> bytes"

section \<open>Calls\<close>

text \<open>The contract with its chain id and address; the answer of \<open>getBasefeeV2\<close> is a triple.\<close>

record taiko_anchor =
  anchor_chain_id :: u64
  anchor_address :: address

definition get_base_fee_v2 :: "'e + u256 \<times> u64 \<times> u64 \<Rightarrow> 'e + BaseFeeResult" where
  "get_base_fee_v2 answer =
     (case answer of
        Inl e \<Rightarrow> Inl e
      | Inr (basefee, newGasTarget, newGasExcess) \<Rightarrow>
          Inr \<lparr>base_fee = basefee, new_gas_target = newGasTarget, new_gas_excess = newGasExcess\<rparr>)"

definition build_anchor_v3_tx ::
  "'sig anchor_codec \<Rightarrow> (bytes \<Rightarrow> bytes \<Rightarrow> (signer_error, 'sig) outcome) \<Rightarrow> taiko_anchor \<Rightarrow> rpc_error + u64 \<Rightarrow>
   TaikoAnchorTxInput \<Rightarrow> u128 \<Rightarrow> (rpc_error, tx_envelope) outcome" where
  "build_anchor_v3_tx codec sign self get_transaction_count input l2_base_fee =
     (case get_transaction_count of
        Inl e \<Rightarrow> Err e
      | Inr nonce \<Rightarrow>
          let calldata = abi_encode_call codec (anchor_call_from_input input);
              tx = \<lparr>a_chain_id = anchor_chain_id self, a_nonce = nonce, a_gas_limit = TAIKO_ANCHOR_V3_GAS_LIMIT,
                    a_max_fee_per_gas = l2_base_fee, a_max_priority_fee_per_gas = 0,
                    a_to = anchor_address self, a_input = calldata\<rparr>
          in case sign TAIKO_GOLDEN_TOUCH_PRIVATE_KEY (signature_hash codec tx) of
               Panic \<Rightarrow> Panic
             | Ok signature \<Rightarrow> Ok (signed_envelope codec tx signature)
             | Err e \<Rightarrow> Err (OtherRpc ''failed to sign anchor tx with deterministic signer''))"

section \<open>Reading the anchor of a block\<close>

fun as_transactions :: "block_transactions \<Rightarrow> recovered_tx list option" where
  "as_transactions (Full_Txs txs) = Some txs"
| "as_transactions (Hashes_Only hs) = None"
| "as_transactions Uncle_Block = None"

definition decode_anchor_tx_data :: "'sig anchor_codec \<Rightarrow> bytes \<Rightarrow> TaikoAnchorTxInput option" where
  "decode_anchor_tx_data codec data = map_option anchor_input_from_call (abi_decode_call codec data)"

definition first_tx :: "rpc_block \<Rightarrow> recovered_tx option" where
  "first_tx b = (case as_transactions (transactions b) of Some (t # _) \<Rightarrow> Some t | _ \<Rightarrow> None)"

definition decode_anchor_tx_from_full_block ::
  "'sig anchor_codec \<Rightarrow> rpc_block \<Rightarrow> TaikoAnchorError + TaikoAnchorTxInput" where
  "decode_anchor_tx_from_full_block codec b =
     (case first_tx b of
        None \<Rightarrow> Inl AnchorTransactionNotFound
      | Some (signer, tx) \<Rightarrow>
          if signer \<noteq> TAIKO_GOLDEN_TOUCH_ACCOUNT
          then Inl (InvalidSigner signer TAIKO_GOLDEN_TOUCH_ACCOUNT)
          else
            (case decode_anchor_tx_data codec (envelope_input codec tx) of
               None \<Rightarrow> Inl TransactionDataDecodeError
             | Some input \<Rightarrow> Inr input))"

text \<open>\<open>TaikoBlockExt\<close>.\<close>

definition anchor_tx :: "'sig anchor_codec \<Rightarrow> rpc_block \<Rightarrow> TaikoAnchorError + TaikoAnchorTxInput" where
  "anchor_tx codec b = decode_anchor_tx_from_full_block codec b"

definition block_anchor_block_id :: "'sig anchor_codec \<Rightarrow> rpc_block \<Rightarrow> TaikoAnchorError + u64" where
  "block_anchor_block_id codec b = (case anchor_tx codec b of Inl e \<Rightarrow> Inl e | Inr tx \<Rightarrow> Inr (anchor_block_id tx))"

section \<open>Lemmas\<close>

lemma anchor_call_inverse [simp]:
  "anchor_input_from_call (anchor_call_from_input v) = v"
  "anchor_call_from_input (anchor_input_from_call c) = c"
  by (simp_all add: anchor_input_from_call_def anchor_call_from_input_def)

text \<open>What the libraries promise: decoding inverts encoding, and signing keeps the calldata.\<close>

definition codec_ok :: "'sig anchor_codec \<Rightarrow> anchorV3Call \<Rightarrow> bool" where
  "codec_ok codec c = (abi_decode_call codec (abi_encode_call codec c) = Some c \<and>
                       (\<forall>tx s. envelope_input codec (signed_envelope codec tx s) = a_input tx))"

lemma built_anchor_is_decoded:
  assumes "codec_ok codec (anchor_call_from_input input)"
    and "build_anchor_v3_tx codec sign self nonce input fee = Ok tx"
    and "transactions b = Full_Txs ((TAIKO_GOLDEN_TOUCH_ACCOUNT, tx) # rest)"
  shows "anchor_tx codec b = Inr input"
proof -
  from assms(2) have "envelope_input codec tx = abi_encode_call codec (anchor_call_from_input input)"
    using assms(1) by (auto simp: build_anchor_v3_tx_def codec_ok_def Let_def split: sum.splits outcome.splits)
  then show ?thesis
    using assms(1,3) by (simp add: anchor_tx_def decode_anchor_tx_from_full_block_def first_tx_def
        decode_anchor_tx_data_def codec_ok_def)
qed

section \<open>Properties\<close>

text \<open>
  C40. The anchor that a block is built with is the anchor that is read back from it: when the signed
  anchor transaction is the first one of a full block and its sender is the golden touch account, the
  decoder returns exactly the input of the builder, whatever follows in the block.
\<close>

theorem anchor_tx_round_trip:
  assumes "codec_ok codec (anchor_call_from_input input)"
    and "build_anchor_v3_tx codec sign self nonce input fee = Ok tx"
    and "transactions b = Full_Txs ((TAIKO_GOLDEN_TOUCH_ACCOUNT, tx) # rest)"
  shows "anchor_tx codec b = Inr input \<and> block_anchor_block_id codec b = Inr (anchor_block_id input)"
  using built_anchor_is_decoded [OF assms] by (simp add: block_anchor_block_id_def)

definition example_input :: TaikoAnchorTxInput where
  "example_input =
     \<lparr>anchor_block_id = 21, anchor_state_root = 5, parent_gas_used = 100,
      base_fee_config = \<lparr>anc_adjustmentQuotient = 8, anc_sharingPctg = 75, anc_gasIssuancePerSecond = 5000000,
        anc_minGasExcess = 1, anc_maxGasIssuancePerBlock = 0\<rparr>, signal_slots = []\<rparr>"

definition example_codec :: "unit anchor_codec" where
  "example_codec =
     \<lparr>abi_encode_call = \<lambda>c. [ucast (call_anchorBlockId c)],
      abi_decode_call = \<lambda>bs. (case bs of
          [b] \<Rightarrow> Some ((anchor_call_from_input example_input)\<lparr>call_anchorBlockId := ucast b\<rparr>)
        | _ \<Rightarrow> None),
      signature_hash = a_input, signed_envelope = \<lambda>tx s. a_input tx, envelope_input = \<lambda>e. e\<rparr>"

definition example_full_block :: rpc_block where
  "example_full_block =
     \<lparr>block_header = example_header 8 1016,
      transactions = Full_Txs [(TAIKO_GOLDEN_TOUCH_ACCOUNT, [21]), (9, [1, 2])]\<rparr>"

lemma example_codec_ok: "codec_ok example_codec (anchor_call_from_input example_input)"
  by (simp add: codec_ok_def example_codec_def example_input_def anchor_call_from_input_def)

lemma anchor_tx_round_trip_witness:
  "anchor_tx example_codec example_full_block = Inr example_input \<and>
   block_anchor_block_id example_codec example_full_block = Inr 21"
proof -
  have "build_anchor_v3_tx example_codec (\<lambda>k h. Ok ()) \<lparr>anchor_chain_id = 167, anchor_address = 4\<rparr>
          (Inr 7) example_input 10 = Ok [21]"
    by (simp add: build_anchor_v3_tx_def example_codec_def example_input_def anchor_call_from_input_def)
  from anchor_tx_round_trip [OF example_codec_ok this, of example_full_block]
  show ?thesis by (simp add: example_full_block_def example_input_def)
qed

end
