(* ===== verification/Soft_Blocks.thy ===== *)
theory Soft_Blocks
  imports Anchored_Blocks Anchor
begin

text \<open>
  Downloading soft blocks, \<open>crates/driver/src/sync/soft_blocks.rs\<close>. The task polls two sets of futures:
  the buffered stream of L2 blocks, which answers in the order of the range, and the unordered set of
  L1 anchors. \<open>download_env\<close> holds what the two clients answer for a number. A schedule says what is
  ready in each round of the loop of \<open>poll\<close>: which of the anchor futures (by position), and whether the
  next block is. A round without progress is a return of \<open>Poll::Pending\<close>; the next poll goes on from the
  same state.
\<close>

datatype syncer_error =
    Syncer_Transport rpc_error
  | Syncer_Contract rpc_error
  | Syncer_Anchor TaikoAnchorError
  | L1BlockNotFound u64
  | L2BlockNotFound u64
  | Gap gap_error

section \<open>The anchor cache\<close>

datatype anchor_state = Pending_Blocks "rpc_block list" | Available header

type_synonym anchor_cache = "u64 \<rightharpoonup> anchor_state"

definition insert_pending :: "anchor_cache \<Rightarrow> u64 \<Rightarrow> rpc_block \<Rightarrow> anchor_cache" where
  "insert_pending c bn block =
     (let state = (case c bn of None \<Rightarrow> Pending_Blocks [] | Some s \<Rightarrow> s)
      in case state of
           Pending_Blocks bs \<Rightarrow> c(bn \<mapsto> Pending_Blocks (bs @ [block]))
         | Available h \<Rightarrow> c(bn \<mapsto> Available h))"

definition insert_anchor :: "anchor_cache \<Rightarrow> header \<Rightarrow> rpc_block list \<times> anchor_cache" where
  "insert_anchor c anchor =
     (case c (number anchor) of
        Some (Pending_Blocks bs) \<Rightarrow> (bs, c(number anchor \<mapsto> Available anchor))
      | _ \<Rightarrow> ([], c))"

section \<open>The task\<close>

record download_env =
  l2_block :: "u64 \<Rightarrow> rpc_error + rpc_block option"
  l1_block :: "u64 \<Rightarrow> rpc_error + rpc_block option"

definition fetch_block :: "download_env \<Rightarrow> u64 \<Rightarrow> syncer_error + rpc_block" where
  "fetch_block env n =
     (case l2_block env n of
        Inl e \<Rightarrow> Inl (Syncer_Transport e)
      | Inr None \<Rightarrow> Inl (L2BlockNotFound n)
      | Inr (Some b) \<Rightarrow> Inr b)"

definition fetch_anchor :: "download_env \<Rightarrow> u64 \<Rightarrow> syncer_error + header" where
  "fetch_anchor env n =
     (case l1_block env n of
        Inl e \<Rightarrow> Inl (Syncer_Transport e)
      | Inr None \<Rightarrow> Inl (L1BlockNotFound n)
      | Inr (Some b) \<Rightarrow> Inr (block_header b))"

record download_task =
  block_futs :: "u64 list"
  anchor_futs :: "u64 list"
  anchor_cache :: anchor_cache
  out :: "anchored_block list"
  dl_count :: usize

definition task_new :: "u64 list \<Rightarrow> download_task" where
  "task_new ns =
     \<lparr>block_futs = ns, anchor_futs = [], anchor_cache = Map.empty, out = [], dl_count = length ns\<rparr>"

definition spawn_anchor_block_fetch :: "u64 \<Rightarrow> download_task \<Rightarrow> download_task" where
  "spawn_anchor_block_fetch a t = t\<lparr>anchor_futs := anchor_futs t @ [a]\<rparr>"

text \<open>
  The two halves of the loop body. \<open>Inl\<close> is a \<open>Poll::Ready\<close>; otherwise the state, and whether there was
  progress.
\<close>

type_synonym download_result = "syncer_error + anchored_block list"

definition poll_anchor ::
  "download_env \<Rightarrow> nat option \<Rightarrow> download_task \<Rightarrow> download_result + download_task \<times> bool" where
  "poll_anchor env ready t =
     (case ready of
        None \<Rightarrow> Inr (t, False)
      | Some i \<Rightarrow>
          if i \<ge> length (anchor_futs t) then Inr (t, False)
          else
            (case fetch_anchor env (anchor_futs t ! i) of
               Inl e \<Rightarrow> Inl (Inl e)
             | Inr anchor \<Rightarrow>
                 let (bs, c) = insert_anchor (anchor_cache t) anchor
                 in Inr (t\<lparr>anchor_futs := take i (anchor_futs t) @ drop (Suc i) (anchor_futs t),
                           anchor_cache := c,
                           out := out t @ map (\<lambda>b. \<lparr>ab_block = b, ab_anchor = anchor\<rparr>) bs\<rparr>, True)))"

definition poll_block ::
  "'sig anchor_codec \<Rightarrow> download_env \<Rightarrow> bool \<Rightarrow> download_task \<Rightarrow> download_result + download_task \<times> bool" where
  "poll_block codec env ready t =
     (case block_futs t of
        [] \<Rightarrow> Inr (t, False)
      | n # ns \<Rightarrow>
          if \<not> ready then Inr (t, False)
          else
            (case fetch_block env n of
               Inl e \<Rightarrow> Inl (Inl e)
             | Inr block \<Rightarrow>
                 let t = t\<lparr>block_futs := ns\<rparr>
                 in case block_anchor_block_id codec block of
                      Inl _ \<Rightarrow> Inl (Inr (out t))
                    | Inr a \<Rightarrow>
                        (case anchor_cache t a of
                           Some (Available anchor) \<Rightarrow>
                             Inr (t\<lparr>out := out t @ [\<lparr>ab_block = block, ab_anchor = anchor\<rparr>]\<rparr>, True)
                         | Some (Pending_Blocks bs) \<Rightarrow>
                             Inr (t\<lparr>anchor_cache := (anchor_cache t)(a \<mapsto> Pending_Blocks (bs @ [block]))\<rparr>, True)
                         | None \<Rightarrow>
                             let t = spawn_anchor_block_fetch a t
                             in Inr (t\<lparr>anchor_cache := insert_pending (anchor_cache t) a block\<rparr>, True))))"

definition download_round ::
  "'sig anchor_codec \<Rightarrow> download_env \<Rightarrow> nat option \<times> bool \<Rightarrow> download_task \<Rightarrow> download_result + download_task \<times> bool" where
  "download_round codec env ready t =
     (case poll_anchor env (fst ready) t of
        Inl r \<Rightarrow> Inl r
      | Inr (t, p1) \<Rightarrow>
          (case poll_block codec env (snd ready) t of
             Inl r \<Rightarrow> Inl r
           | Inr (t, p2) \<Rightarrow>
               if length (out t) = dl_count t then Inl (Inr (out t)) else Inr (t, p1 \<or> p2)))"

text \<open>The polls of a task along a schedule; \<open>None\<close> when it has not returned by its end.\<close>

fun download_run ::
  "'sig anchor_codec \<Rightarrow> download_env \<Rightarrow> (nat option \<times> bool) list \<Rightarrow> download_task \<Rightarrow> download_result option" where
  "download_run codec env [] t = None"
| "download_run codec env (ready # schedule) t =
     (case download_round codec env ready t of
        Inl r \<Rightarrow> Some r
      | Inr (t, _) \<Rightarrow> download_run codec env schedule t)"

definition download ::
  "'sig anchor_codec \<Rightarrow> download_env \<Rightarrow> (nat option \<times> bool) list \<Rightarrow> u64 \<Rightarrow> u64 \<Rightarrow> download_result option" where
  "download codec env schedule lo hi =
     (case download_run codec env schedule (task_new (range_inclusive lo hi)) of
        None \<Rightarrow> None
      | Some (Inl e) \<Rightarrow> Some (Inl e)
      | Some (Inr anchored) \<Rightarrow>
          (case contiguous_new anchored of
             Inl g \<Rightarrow> Some (Inl (Gap g))
           | Inr bs \<Rightarrow> Some (Inr bs)))"

section \<open>The sequential download\<close>

text \<open>
  The reference: fetch one block, then its anchor. An environment serves a number when both requests
  are answered with the block that was asked for.
\<close>

definition L1_header :: "download_env \<Rightarrow> u64 \<Rightarrow> header" where
  "L1_header env a = projr (fetch_anchor env a)"

definition fetch_one :: "'sig anchor_codec \<Rightarrow> download_env \<Rightarrow> u64 \<Rightarrow> anchored_block" where
  "fetch_one codec env n =
     (let block = projr (fetch_block env n)
      in \<lparr>ab_block = block, ab_anchor = L1_header env (projr (block_anchor_block_id codec block))\<rparr>)"

definition serves :: "'sig anchor_codec \<Rightarrow> download_env \<Rightarrow> u64 \<Rightarrow> bool" where
  "serves codec env n =
     (case fetch_block env n of
        Inl _ \<Rightarrow> False
      | Inr block \<Rightarrow> number (block_header block) = n \<and>
          (case block_anchor_block_id codec block of
             Inl _ \<Rightarrow> False
           | Inr a \<Rightarrow> (case fetch_anchor env a of Inl _ \<Rightarrow> False | Inr h \<Rightarrow> number h = a)))"

lemma serves_D:
  assumes "serves codec env n"
  obtains block a h where "fetch_block env n = Inr block" "number (block_header block) = n"
    "block_anchor_block_id codec block = Inr a" "fetch_anchor env a = Inr h" "number h = a"
    "fetch_one codec env n = \<lparr>ab_block = block, ab_anchor = L1_header env a\<rparr>" "L1_header env a = h"
  using assms that by (auto simp: serves_def fetch_one_def L1_header_def Let_def split: sum.splits)

section \<open>The invariant of the task\<close>

definition pending_at :: "anchor_cache \<Rightarrow> u64 \<Rightarrow> rpc_block list" where
  "pending_at c a = (case c a of Some (Pending_Blocks bs) \<Rightarrow> bs | _ \<Rightarrow> [])"

definition waiting_at :: "download_env \<Rightarrow> anchor_cache \<Rightarrow> u64 \<Rightarrow> anchored_block list" where
  "waiting_at env c a = map (\<lambda>b. \<lparr>ab_block = b, ab_anchor = L1_header env a\<rparr>) (pending_at c a)"

definition waiting :: "download_env \<Rightarrow> anchor_cache \<Rightarrow> u64 list \<Rightarrow> anchored_block list" where
  "waiting env c as = concat (map (waiting_at env c) as)"

lemma waiting_simps [simp]:
  "waiting env c [] = []"
  "waiting env c (a # as) = waiting_at env c a @ waiting env c as"
  "waiting env c (as @ bs) = waiting env c as @ waiting env c bs"
  by (simp_all add: waiting_def)

lemma waiting_other [simp]: "a \<notin> set as \<Longrightarrow> waiting env (c(a \<mapsto> s)) as = waiting env c as"
  by (induction as) (auto simp: waiting_at_def pending_at_def)

text \<open>
  The futures in flight are exactly the pending anchors, every cached anchor is the one of L1, and the
  blocks that are done, that wait for an anchor and that are still to come are those of the range.
\<close>

definition task_ok :: "'sig anchor_codec \<Rightarrow> download_env \<Rightarrow> u64 list \<Rightarrow> download_task \<Rightarrow> bool" where
  "task_ok codec env R t =
     (distinct (anchor_futs t) \<and>
      (\<forall>a. a \<in> set (anchor_futs t) \<longleftrightarrow> (\<exists>bs. anchor_cache t a = Some (Pending_Blocks bs))) \<and>
      (\<forall>a \<in> set (anchor_futs t). \<exists>h. fetch_anchor env a = Inr h \<and> number h = a) \<and>
      (\<forall>a h. anchor_cache t a = Some (Available h) \<longrightarrow> h = L1_header env a) \<and>
      dl_count t = length R \<and> set (block_futs t) \<subseteq> set R \<and>
      mset (out t) + mset (waiting env (anchor_cache t) (anchor_futs t)) +
        mset (map (fetch_one codec env) (block_futs t)) = mset (map (fetch_one codec env) R))"

definition work_left :: "download_task \<Rightarrow> nat" where
  "work_left t = 2 * length (block_futs t) + length (anchor_futs t)"

lemma task_ok_new: "task_ok codec env R (task_new R)"
  by (simp add: task_ok_def task_new_def)

lemma task_ok_size:
  assumes "task_ok codec env R t"
  shows "length (out t) + length (waiting env (anchor_cache t) (anchor_futs t)) + length (block_futs t) = length R"
proof -
  have "size (mset (out t) + mset (waiting env (anchor_cache t) (anchor_futs t)) +
        mset (map (fetch_one codec env) (block_futs t))) = size (mset (map (fetch_one codec env) R))"
    using assms by (simp add: task_ok_def)
  then show ?thesis by simp
qed

lemma task_ok_done:
  assumes "task_ok codec env R t" "length (out t) = dl_count t"
  shows "mset (out t) = mset (map (fetch_one codec env) R)"
proof -
  have "dl_count t = length R" using assms(1) by (simp add: task_ok_def)
  then have "waiting env (anchor_cache t) (anchor_futs t) = []" "block_futs t = []"
    using task_ok_size [OF assms(1)] assms(2) by auto
  with assms(1) show ?thesis by (simp add: task_ok_def)
qed

lemma poll_anchor_ok:
  assumes ok: "task_ok codec env R t"
  obtains t' p where "poll_anchor env ready t = Inr (t', p)" "task_ok codec env R t'"
    "block_futs t' = block_futs t" "work_left t' + (if p then 1 else 0) \<le> work_left t"
    "p \<longleftrightarrow> (\<exists>i. ready = Some i \<and> i < length (anchor_futs t))"
proof (cases "\<exists>i. ready = Some i \<and> i < length (anchor_futs t)")
  case False
  then have "poll_anchor env ready t = Inr (t, False)" by (auto simp: poll_anchor_def split: option.splits)
  with ok False show ?thesis using that [of t False] by simp
next
  case True
  then obtain i where i: "ready = Some i" "i < length (anchor_futs t)" by blast
  define xs a ys where "xs = take i (anchor_futs t)" and "a = anchor_futs t ! i" and "ys = drop (Suc i) (anchor_futs t)"
  have f: "anchor_futs t = xs @ a # ys" using i(2) by (simp add: xs_def a_def ys_def id_take_nth_drop)
  then obtain h where h: "fetch_anchor env a = Inr h" "number h = a" "L1_header env a = h"
    using ok by (fastforce simp: task_ok_def L1_header_def)
  have "a \<in> set (anchor_futs t)" using f by simp
  then obtain bs where c: "anchor_cache t a = Some (Pending_Blocks bs)" using ok unfolding task_ok_def by blast
  let ?t = "t\<lparr>anchor_futs := xs @ ys, anchor_cache := (anchor_cache t)(a \<mapsto> Available h),
              out := out t @ map (\<lambda>b. \<lparr>ab_block = b, ab_anchor = h\<rparr>) bs\<rparr>"
  have p: "poll_anchor env ready t = Inr (?t, True)"
    using i h c by (simp add: poll_anchor_def insert_anchor_def xs_def ys_def a_def)
  have w: "waiting_at env (anchor_cache t) a = map (\<lambda>b. \<lparr>ab_block = b, ab_anchor = h\<rparr>) bs"
    using c h by (simp add: waiting_at_def pending_at_def)
  have "a \<notin> set xs" "a \<notin> set ys" using ok f by (auto simp: task_ok_def)
  then have "task_ok codec env R ?t"
    using ok f w h by (auto simp: task_ok_def ac_simps)
  then show ?thesis using that [OF p] i f by (simp add: work_left_def)
qed

lemma poll_block_ok:
  assumes ok: "task_ok codec env R t" and "\<forall>n \<in> set R. serves codec env n"
  obtains t' p where "poll_block codec env ready t = Inr (t', p)" "task_ok codec env R t'"
    "work_left t' + (if p then 1 else 0) \<le> work_left t" "p \<longleftrightarrow> ready \<and> block_futs t \<noteq> []"
proof (cases "ready \<and> block_futs t \<noteq> []")
  case False
  then have "poll_block codec env ready t = Inr (t, False)" by (auto simp: poll_block_def split: list.splits)
  with ok False show ?thesis using that [of t False] by simp
next
  case True
  then obtain n ns where n: "ready" "block_futs t = n # ns" by (cases "block_futs t") auto
  with ok assms(2) have "serves codec env n" by (auto simp: task_ok_def)
  then obtain b a h where s: "fetch_block env n = Inr b" "block_anchor_block_id codec b = Inr a"
    "fetch_anchor env a = Inr h" "number h = a"
    "fetch_one codec env n = \<lparr>ab_block = b, ab_anchor = L1_header env a\<rparr>" "L1_header env a = h"
    by (elim serves_D)
  note rest = that [OF _ _ _ iffI [OF _ TrueI]]
  consider (avail) k where "anchor_cache t a = Some (Available k)"
    | (pend) bs where "anchor_cache t a = Some (Pending_Blocks bs)" | (none) "anchor_cache t a = None"
    by (metis anchor_state.exhaust option.exhaust)
  then show ?thesis
  proof cases
    case avail
    with ok s have k: "k = h" by (auto simp: task_ok_def)
    let ?t = "t\<lparr>block_futs := ns, out := out t @ [\<lparr>ab_block = b, ab_anchor = h\<rparr>]\<rparr>"
    have "poll_block codec env ready t = Inr (?t, True)" using n s avail k by (simp add: poll_block_def)
    moreover have "task_ok codec env R ?t" using ok n s by (auto simp: task_ok_def ac_simps)
    ultimately show ?thesis using that [of ?t True] n by (simp add: work_left_def)
  next
    case pend
    let ?t = "t\<lparr>block_futs := ns, anchor_cache := (anchor_cache t)(a \<mapsto> Pending_Blocks (bs @ [b]))\<rparr>"
    have p: "poll_block codec env ready t = Inr (?t, True)" using n s pend by (simp add: poll_block_def)
    have "a \<in> set (anchor_futs t)" using ok pend by (auto simp: task_ok_def)
    then obtain xs ys where f: "anchor_futs t = xs @ a # ys" by (meson split_list)
    with ok have "a \<notin> set xs" "a \<notin> set ys" by (auto simp: task_ok_def)
    moreover have "waiting_at env ((anchor_cache t)(a \<mapsto> Pending_Blocks (bs @ [b]))) a =
        waiting_at env (anchor_cache t) a @ [fetch_one codec env n]"
      using pend s by (simp add: waiting_at_def pending_at_def)
    ultimately have "task_ok codec env R ?t" using ok n f by (auto simp: task_ok_def ac_simps)
    then show ?thesis using that [OF p] n by (simp add: work_left_def)
  next
    case none
    let ?t = "t\<lparr>block_futs := ns, anchor_futs := anchor_futs t @ [a],
                anchor_cache := (anchor_cache t)(a \<mapsto> Pending_Blocks [b])\<rparr>"
    have p: "poll_block codec env ready t = Inr (?t, True)"
      using n s none by (simp add: poll_block_def spawn_anchor_block_fetch_def insert_pending_def)
    have "a \<notin> set (anchor_futs t)" using ok none by (auto simp: task_ok_def)
    moreover have "waiting_at env ((anchor_cache t)(a \<mapsto> Pending_Blocks [b])) a = [fetch_one codec env n]"
      using s by (simp add: waiting_at_def pending_at_def)
    ultimately have "task_ok codec env R ?t" using ok n s none by (auto simp: task_ok_def ac_simps)
    then show ?thesis using that [OF p] n by (simp add: work_left_def)
  qed
qed

text \<open>
  A round either returns all the blocks, or keeps the invariant; when everything is ready and something
  is left, there is less to do afterwards.
\<close>

lemma task_ok_waiting: "task_ok codec env R t \<Longrightarrow> length (out t) \<noteq> dl_count t \<Longrightarrow> 0 < work_left t"
  using task_ok_size [of codec env R t] by (auto simp: task_ok_def work_left_def)

lemma download_round_ok:
  assumes ok: "task_ok codec env R t" and serves: "\<forall>n \<in> set R. serves codec env n"
  shows "case download_round codec env ready t of
     Inl r \<Rightarrow> \<exists>bs. r = Inr bs \<and> mset bs = mset (map (fetch_one codec env) R)
   | Inr (t', p) \<Rightarrow> task_ok codec env R t' \<and> 0 < work_left t' \<and> work_left t' \<le> work_left t \<and>
       (p \<longrightarrow> work_left t' < work_left t) \<and> (ready = (Some 0, True) \<longrightarrow> p)"
proof -
  obtain t1 p1 where r1: "poll_anchor env (fst ready) t = Inr (t1, p1)" "task_ok codec env R t1"
      "work_left t1 + (if p1 then 1 else 0) \<le> work_left t" "block_futs t1 = block_futs t"
      "p1 \<longleftrightarrow> (\<exists>i. fst ready = Some i \<and> i < length (anchor_futs t))"
    using poll_anchor_ok [OF ok, of "fst ready"] by metis
  obtain t2 p2 where r2: "poll_block codec env (snd ready) t1 = Inr (t2, p2)" "task_ok codec env R t2"
      "work_left t2 + (if p2 then 1 else 0) \<le> work_left t1" "p2 \<longleftrightarrow> snd ready \<and> block_futs t1 \<noteq> []"
    using poll_block_ok [OF r1(2) serves, of "snd ready"] by metis
  have round: "download_round codec env ready t =
      (if length (out t2) = dl_count t2 then Inl (Inr (out t2)) else Inr (t2, p1 \<or> p2))"
    using r1(1) r2(1) by (simp add: download_round_def)
  show ?thesis
  proof (cases "length (out t2) = dl_count t2")
    case True
    with round task_ok_done [OF r2(2)] show ?thesis by simp
  next
    case False
    note left = task_ok_waiting [OF r2(2) False]
    have "p1 \<or> p2" if "ready = (Some 0, True)"
    proof (rule ccontr)
      assume no: "\<not> (p1 \<or> p2)"
      with that r1(4,5) r2(4) have "work_left t = 0" by (auto simp: work_left_def)
      with r1(3) r2(3) left show False by simp
    qed
    with round False r1(3) r2(2,3) left show ?thesis by (auto split: if_splits)
  qed
qed

lemma download_run_ok:
  assumes "task_ok codec env R t" and serves: "\<forall>n \<in> set R. serves codec env n"
  shows "case download_run codec env schedule t of
     Some r \<Rightarrow> \<exists>bs. r = Inr bs \<and> mset bs = mset (map (fetch_one codec env) R)
   | None \<Rightarrow> schedule = [] \<or> count_list schedule (Some 0, True) < work_left t"
  using assms(1)
proof (induction schedule arbitrary: t)
  case (Cons ready schedule)
  note round = download_round_ok [OF Cons.prems serves, of ready]
  show ?case
  proof (cases "download_round codec env ready t")
    case (Inl r)
    with round show ?thesis by simp
  next
    case (Inr q)
    obtain t' p where q: "q = (t', p)" by (cases q)
    from round Inr q have t': "task_ok codec env R t'" "0 < work_left t'" "work_left t' \<le> work_left t"
      "ready = (Some 0, True) \<Longrightarrow> work_left t' < work_left t" by auto
    from Cons.IH [OF t'(1)] t'(2-4) Inr q show ?thesis
      by (cases "ready = (Some 0, True)") (fastforce split: option.splits)+
  qed
qed simp

section \<open>Properties\<close>

lemma strict_sorted_numbers: "sorted_wrt (<) (range_inclusive a b)"
proof -
  have "unat (of_nat x :: u64) = x" if "x \<le> unat b" for x
    using that unat_lt_power [of b] by (simp add: unat_of_nat)
  then show ?thesis
    unfolding range_inclusive_def sorted_wrt_map
    by (intro sorted_wrt_mono_rel [OF _ sorted_wrt_upt]) (simp add: word_less_nat_alt less_Suc_eq_le del: upt_Suc)
qed

lemma sorted_numbers:
  "sorted (range_inclusive a b)" "distinct (range_inclusive a b)"
  using strict_sorted_numbers [of a b] by (simp_all add: strict_sorted_iff)

lemma nth_numbers: "i < length (range_inclusive a b) \<Longrightarrow> range_inclusive a b ! i = a + of_nat i"
  by (simp add: range_inclusive_def del: upt_Suc)

lemma contiguous_new_of_range:
  assumes "mset bs = mset (map f (range_inclusive a b))"
    and "\<forall>n \<in> set (range_inclusive a b). block_number (f n) = n"
  shows "contiguous_new bs = Inr (map f (range_inclusive a b))"
proof -
  let ?R = "range_inclusive a b" and ?S = "sort_key block_number bs"
  have nums: "map block_number (map f ?R) = ?R" using assms(2) by (simp add: map_idI)
  have "mset ?S = mset (map f ?R)" using assms(1) by simp
  then have "mset (map block_number ?S) = mset ?R" using nums by (metis mset_map)
  then have "sort ?R = map block_number ?S" by (intro properties_for_sort) simp_all
  then have "map block_number ?S = ?R" using sorted_numbers(1) [of a b] by (simp add: sorted_sort_id)
  moreover have "set ?S = set (map f ?R)" using assms(1) by (metis mset_eq_setD set_sort)
  moreover have "inj_on block_number (set (map f ?R))" using assms(2) by (auto intro!: inj_onI)
  ultimately have S: "?S = map f ?R"
    using nums sorted_numbers [of a b] by (intro map_sorted_distinct_set_unique [where f = block_number]) simp_all
  have nth: "block_number (map f ?R ! i) = a + of_nat i" if "i < length ?R" for i
    using assms(2) [rule_format, OF nth_mem [OF that]] that by (simp add: nth_numbers)
  have "contiguous (map f ?R)"
    unfolding contiguous_def
  proof (intro allI impI)
    fix i assume "i < length (map f ?R)"
    then have "i < length ?R" "0 < length ?R" by auto
    from nth [OF this(1)] nth [OF this(2)]
    show "block_number (map f ?R ! i) = block_number (map f ?R ! 0) + of_nat i" by simp
  qed
  with S show ?thesis by (simp add: contiguous_new_Ok)
qed

lemma block_number_fetch_one: "serves codec env n \<Longrightarrow> block_number (fetch_one codec env n) = n"
  by (elim serves_D) (simp add: block_number_def)

lemma download_ok:
  assumes "\<forall>n \<in> set (range_inclusive lo hi). serves codec env n"
  shows "case download codec env schedule lo hi of
     Some r \<Rightarrow> r = Inr (map (fetch_one codec env) (range_inclusive lo hi))
   | None \<Rightarrow> schedule = [] \<or> count_list schedule (Some 0, True) < 2 * length (range_inclusive lo hi)"
proof -
  let ?R = "range_inclusive lo hi"
  note run = download_run_ok [OF task_ok_new assms, of schedule]
  show ?thesis
  proof (cases "download_run codec env schedule (task_new ?R)")
    case None
    with run show ?thesis by (simp add: download_def work_left_def task_new_def)
  next
    case (Some r)
    with run obtain bs where bs: "r = Inr bs" "mset bs = mset (map (fetch_one codec env) ?R)" by auto
    have "\<forall>n \<in> set ?R. block_number (fetch_one codec env n) = n" using assms by (simp add: block_number_fetch_one)
    from contiguous_new_of_range [OF bs(2) this] Some bs(1) show ?thesis by (simp add: download_def)
  qed
qed

lemma increasing_download:
  assumes "\<forall>n \<in> set (range_inclusive lo hi). serves codec env n"
  shows "increasing (into_preconfirmed (map (fetch_one codec env) (range_inclusive lo hi)))"
proof -
  have nums: "\<forall>n \<in> set (range_inclusive lo hi). block_number (fetch_one codec env n) = n"
    using assms by (simp add: block_number_fetch_one)
  have "sorted_wrt (\<lambda>m n. block_number (fetch_one codec env m) < block_number (fetch_one codec env n)) (range_inclusive lo hi)"
    by (rule sorted_wrt_mono_rel [OF _ strict_sorted_numbers]) (use nums in auto)
  then show ?thesis
    by (simp add: increasing_def into_preconfirmed_def sorted_wrt_map comp_def into_preconfirmed_block_def block_number_def)
qed

section \<open>The contract of a block source\<close>

text \<open>
  What the clients of the download rely on, whatever the nodes answer and however the answers interleave: the
  blocks that it returns are sorted and without a gap. \<open>returns lo hi r\<close> says that a download of this range can
  return \<open>r\<close>.
\<close>

locale block_source =
  fixes returns :: "u64 \<Rightarrow> u64 \<Rightarrow> syncer_error + anchored_block list \<Rightarrow> bool"
  assumes gapless: "returns lo hi (Inr bs) \<Longrightarrow> sorted (map block_number bs) \<and> contiguous bs"
begin

lemma in_order: "returns lo hi (Inr bs) \<Longrightarrow> increasing (into_preconfirmed bs)"
  using gapless increasing_into_preconfirmed by blast

lemma numbered_once: "returns lo hi (Inr bs) \<Longrightarrow> i < j \<Longrightarrow> j < length bs \<Longrightarrow> block_number (bs ! i) < block_number (bs ! j)"
  using gapless sorted_contiguous_less by blast

end

definition download_returns ::
  "'sig anchor_codec \<Rightarrow> download_env \<Rightarrow> u64 \<Rightarrow> u64 \<Rightarrow> syncer_error + anchored_block list \<Rightarrow> bool" where
  "download_returns codec env lo hi r = (\<exists>schedule. download codec env schedule lo hi = Some r)"

interpretation downloads: block_source "download_returns codec env"
proof
  fix lo hi bs
  assume "download_returns codec env lo hi (Inr bs)"
  then obtain schedule where "download codec env schedule lo hi = Some (Inr bs)" by (auto simp: download_returns_def)
  then obtain anchored where "contiguous_new anchored = Inr bs"
    by (auto simp: download_def split: option.splits sum.splits)
  then show "sorted (map block_number bs) \<and> contiguous bs" by (auto simp: contiguous_new_Ok)
qed

text \<open>
  C16. When both nodes serve every block number of the range (the block, and the anchor of its first transaction),
  then however the answers of the two clients interleave, the concurrent download gives what fetching
  the blocks and their anchors one after the other gives: all the blocks of the range, in order, each
  with its own anchor. And it does finish: at the latest when the clients have answered everything that
  was in flight twice per block.
\<close>

theorem download_refines_sequential:
  assumes "\<forall>n \<in> set (range_inclusive lo hi). serves codec env n"
  shows "download codec env schedule lo hi \<in>
      {None, Some (Inr (map (fetch_one codec env) (range_inclusive lo hi)))} \<and>
    (2 * length (range_inclusive lo hi) \<le> count_list schedule (Some 0, True) \<and> schedule \<noteq> [] \<longrightarrow>
     download codec env schedule lo hi \<noteq> None)"
  using download_ok [OF assms, of schedule] by (auto split: option.splits)

definition example_download_env :: download_env where
  "example_download_env =
     \<lparr>l2_block = \<lambda>n. Inr (Some \<lparr>block_header = example_header n 1000,
        transactions = Full_Txs [(TAIKO_GOLDEN_TOUCH_ACCOUNT, [21])]\<rparr>),
      l1_block = \<lambda>n. Inr (Some \<lparr>block_header = example_header n 900, transactions = Hashes_Only []\<rparr>)\<rparr>"

lemma example_serves: "serves example_codec example_download_env n"
  by (simp add: serves_def fetch_block_def fetch_anchor_def example_download_env_def example_header_def
      block_anchor_block_id_def anchor_tx_def decode_anchor_tx_from_full_block_def first_tx_def
      decode_anchor_tx_data_def example_codec_def anchor_input_from_call_def anchor_call_from_input_def)

theorem download_refines_sequential_witness:
  "download example_codec example_download_env
     [(Some 0, True), (None, True), (Some 0, True), (Some 0, True), (Some 0, True)] 3 4 =
   Some (Inr (map (fetch_one example_codec example_download_env) (range_inclusive 3 4)))"
proof -
  have "length (range_inclusive 3 4) = 2" by (simp add: range_inclusive_def)
  with download_refines_sequential [of 3 4 example_codec example_download_env
      "[(Some 0, True), (None, True), (Some 0, True), (Some 0, True), (Some 0, True)]"] example_serves
  show ?thesis by auto
qed

end
