(* ===== verification/Sync.thy ===== *)
theory Sync
  imports Batch_Map Lookahead Soft_Blocks
begin

text \<open>
  The syncer, \<open>crates/driver/src/sync/mod.rs\<close>: what the driver starts from, and the batches it makes of
  the soft blocks. The answers of the two clients and of the inbox are \<open>sync_env\<close>; \<open>sy_download\<close> is what
  \<open>download\<close> of \<open>Soft_Blocks\<close> returns for a range. The code asks for the L1 head twice, so there are two
  answers.
\<close>

record sync_env =
  sy_l2_head :: "rpc_error + u64"
  sy_stats2 :: "rpc_error + Stats2"
  sy_batch :: "u64 \<Rightarrow> rpc_error + InboxBatch"
  sy_l1_head :: "rpc_error + u64"
  sy_l1_head_later :: "rpc_error + u64"
  sy_l1_header :: "u64 option \<Rightarrow> rpc_error + header"
  sy_l2_latest :: "rpc_error + rpc_block"
  sy_download :: "u64 \<Rightarrow> u64 \<Rightarrow> syncer_error + anchored_block list"
  sy_now :: u64

text \<open>The \<open>?\<close> operator with the conversion of the error.\<close>

fun map_err :: "('e \<Rightarrow> 'f) \<Rightarrow> 'e + 'a \<Rightarrow> ('f, 'a) outcome" where
  "map_err f (Inl e) = Err (f e)"
| "map_err f (Inr x) = Ok x"

lemma map_err_eq_Ok [simp]: "map_err f r = Ok x \<longleftrightarrow> r = Inr x"
  by (cases r) auto

section \<open>Operations\<close>

definition min_proposable_anchor_id :: "runtime_config \<Rightarrow> u64 \<Rightarrow> u64" where
  "min_proposable_anchor_id cfg l1_head_id =
     l1_head_id + preconf_anchor_max_height_buffer (preconf cfg) - maxAnchorHeightOffset (pacaya_config cfg)"

definition min_proposable_ts :: "runtime_config \<Rightarrow> u64 \<Rightarrow> u64" where
  "min_proposable_ts cfg max_ts = max_ts + default_proposal_time_buffer cfg - max_proposable_block_age_secs cfg"

definition create_batch_map ::
  "runtime_config \<Rightarrow> (nat \<Rightarrow> usize \<Rightarrow> usize) \<Rightarrow> (nat \<Rightarrow> usize \<Rightarrow> usize) \<Rightarrow> sync_env \<Rightarrow> anchored_block list \<Rightarrow> header \<Rightarrow>
   (syncer_error, batch_map) outcome" where
  "create_batch_map cfg est est' env bs safe_l1_anchor =
     (let settings = cfg_batch_settings cfg
      in if bs = [] then Ok (map_of_inner bt_empty)
         else
           and_then (or_panic (batch_map_new est bs settings)) (\<lambda>bm.
           and_then (map_err Syncer_Transport (sy_l1_head_later env)) (\<lambda>l1_head_id.
           and_then (map_err Syncer_Transport (sy_l1_header env (Some (min_proposable_anchor_id cfg l1_head_id))))
             (\<lambda>min_proposable_anchor.
           let max_ts = sy_now env;
               min_ts = min_proposable_ts cfg max_ts
           in and_then
                (or_panic (reanchor est' (ensure_unique_coinbase bm) (number min_proposable_anchor) safe_l1_anchor settings))
                (\<lambda>bm. Ok (retimestamp bm min_ts max_ts))))))"

definition create_batches ::
  "runtime_config \<Rightarrow> 'sig anchor_codec \<Rightarrow> (nat \<Rightarrow> usize \<Rightarrow> usize) \<Rightarrow> (nat \<Rightarrow> usize \<Rightarrow> usize) \<Rightarrow> sync_env \<Rightarrow>
   anchored_block list \<Rightarrow> header \<Rightarrow> (syncer_error, batch list \<times> reorg_reason list) outcome" where
  "create_batches cfg codec est est' env bs safe_l1_anchor =
     and_then (map_err Syncer_Transport (sy_l2_latest env)) (\<lambda>highest_unsafe.
     and_then (map_err Syncer_Anchor (block_anchor_block_id codec highest_unsafe)) (\<lambda>highest_anchor_id.
     let guaranteed_safe_anchor =
           (if highest_anchor_id > number safe_l1_anchor then block_header highest_unsafe else safe_l1_anchor)
     in and_then (create_batch_map cfg est est' env bs guaranteed_safe_anchor) (\<lambda>bm.
        Ok (into_vec bm, reorg_reasons bm))))"

type_synonym sync_result = "batch list \<times> reorg_reason list \<times> (u64 \<rightharpoonup> u64)"

definition sync ::
  "runtime_config \<Rightarrow> 'sig anchor_codec \<Rightarrow> (nat \<Rightarrow> usize \<Rightarrow> usize) \<Rightarrow> (nat \<Rightarrow> usize \<Rightarrow> usize) \<Rightarrow> sync_env \<Rightarrow>
   driver_status \<Rightarrow> (syncer_error, sync_result) outcome" where
  "sync cfg codec est est' env status =
     and_then (map_err Syncer_Transport (sy_l2_head env)) (\<lambda>l2_head.
     and_then (map_err Syncer_Contract (get_head_l1_origin (sy_stats2 env) (sy_batch env))) (\<lambda>l2_head_l1_origin.
     and_then (map_err Syncer_Transport (sy_l1_head env)) (\<lambda>l1_head.
     let l1_anchor_num = sat_sub l1_head (anchor_block_lag (preconf cfg))
     in and_then (map_err Syncer_Transport (sy_l1_header env (Some l1_anchor_num))) (\<lambda>l1_anchor.
        let settings = cfg_batch_settings cfg
        in if l2_head \<le> l2_head_l1_origin then Ok ([batch_new l1_anchor settings], [], Map.empty)
           else
             let downloaded = map_err id (sy_download env (l2_head_l1_origin + 1) l2_head)
             in case status of
                  Inactive \<Rightarrow> Ok ([batch_new l1_anchor settings], [], Map.empty)
                | InclusionOnly \<Rightarrow>
                    and_then downloaded (\<lambda>bs.
                    and_then (create_batches cfg codec est est' env bs l1_anchor) (\<lambda>(batches, reasons).
                    Ok (batches, reasons, basefee_map bs)))
                | Active \<Rightarrow>
                    and_then downloaded (\<lambda>bs.
                    and_then (create_batches cfg codec est est' env bs l1_anchor) (\<lambda>(batches, reasons).
                    Ok (batches, reasons, basefee_map bs)))
                | _ \<Rightarrow>
                    and_then downloaded (\<lambda>bs. Ok ([into_outstanding bs l1_anchor settings], [], basefee_map bs))))))"

section \<open>Lemmas\<close>

text \<open>What a contiguous download guarantees.\<close>

lemma contiguous_increasing: "contiguous_new xs = Inr bs \<Longrightarrow> increasing (into_preconfirmed bs)"
  using increasing_into_preconfirmed [of bs] by (simp add: contiguous_new_Ok)

lemma map_err_not_Panic [simp]: "map_err f r \<noteq> Panic"
  by (cases r) auto

lemma and_then_Panic [simp]: "and_then m f = Panic \<longleftrightarrow> m = Panic \<or> (\<exists>x. m = Ok x \<and> f x = Panic)"
  by (cases m) auto

lemma or_panic_eq_Panic [simp]: "or_panic m = Panic \<longleftrightarrow> m = None"
  by (cases m) auto

text \<open>The batches are re-anchored, all to the safe anchor, or no anchor is too old.\<close>

definition anchors_ok :: "header \<Rightarrow> u64 \<Rightarrow> batch_map \<Rightarrow> bool" where
  "anchors_ok safe n bm =
     ((\<exists>oldest. reorg_reasons bm = [Reanchor oldest (number safe)]) \<and> (\<forall>b \<in> set (into_vec bm). anchor_block b = safe) \<or>
      reorg_reasons bm = [] \<and> (\<forall>b \<in> set (into_vec bm). n \<le> anchor_id b))"

lemma and_then_Err [simp]: "and_then m f = Err e \<longleftrightarrow> m = Err e \<or> (\<exists>x. m = Ok x \<and> f x = Err e)"
  by (cases m) auto

lemma or_panic_not_Err [simp]: "or_panic m \<noteq> Err e"
  by (cases m) auto

lemma map_err_eq_Err [simp]: "map_err f r = Err e \<longleftrightarrow> (\<exists>e'. r = Inl e' \<and> e = f e')"
  by (cases r) auto

lemma create_batch_map_ok:
  assumes "increasing (into_preconfirmed bs)"
  shows "create_batch_map cfg est est' env bs safe \<noteq> Panic \<and>
    (\<forall>bm. create_batch_map cfg est est' env bs safe = Ok bm \<longrightarrow> bs \<noteq> [] \<longrightarrow>
      (\<exists>head min_anchor bm0. sy_l1_head_later env = Inr head \<and>
        sy_l1_header env (Some (min_proposable_anchor_id cfg head)) = Inr min_anchor \<and>
        bm = retimestamp bm0 (min_proposable_ts cfg (sy_now env)) (sy_now env) \<and>
        mset (all_blocks (into_vec bm0)) = mset (into_preconfirmed bs) \<and>
        anchors_ok safe (number min_anchor) bm0))"
proof -
  have step: "\<exists>bm bm'. batch_map_new est bs s = Some bm \<and> reanchor est' (ensure_unique_coinbase bm) n safe s = Some bm' \<and>
      mset (all_blocks (into_vec bm')) = mset (into_preconfirmed bs) \<and>
      anchors_ok safe n bm'" for s n
  proof -
    obtain bm bm' where p: "batch_map_new est bs s = Some bm"
      "reanchor est' (ensure_unique_coinbase bm) n safe s = Some bm'"
      "mset (all_blocks (into_vec bm')) = mset (into_preconfirmed bs)"
      "(\<exists>oldest. reorg_reasons bm' = [Reanchor oldest (number safe)]) \<and> (\<forall>b \<in> set (into_vec bm'). anchor_block b = safe) \<or>
       reorg_reasons bm' = [] \<and> (\<forall>b \<in> set (into_vec bm'). n \<le> anchor_id b)"
      by (rule pipeline_total [OF assms, of est s est' n safe s]) blast
    from p(4) have "anchors_ok safe n bm'" by (simp add: anchors_ok_def)
    with p(1-3) show ?thesis by blast
  qed
  obtain bm where bm: "batch_map_new est bs (cfg_batch_settings cfg) = Some bm"
    using step by blast
  have re: "\<exists>bm'. reanchor est' (ensure_unique_coinbase bm) n safe (cfg_batch_settings cfg) = Some bm' \<and>
      mset (all_blocks (into_vec bm')) = mset (into_preconfirmed bs) \<and>
      anchors_ok safe n bm'" for n
    using step [of "cfg_batch_settings cfg" n] bm by simp
  have "create_batch_map cfg est est' env bs safe \<noteq> Panic"
  proof
    assume "create_batch_map cfg est est' env bs safe = Panic"
    then obtain h :: header where "reanchor est' (ensure_unique_coinbase bm) (number h) safe (cfg_batch_settings cfg) = None"
      using bm by (auto simp: create_batch_map_def Let_def split: if_splits)
    with re [of "number h"] show False by simp
  qed
  moreover have "\<exists>head min_anchor bm0. sy_l1_head_later env = Inr head \<and>
        sy_l1_header env (Some (min_proposable_anchor_id cfg head)) = Inr min_anchor \<and>
        bm' = retimestamp bm0 (min_proposable_ts cfg (sy_now env)) (sy_now env) \<and>
        mset (all_blocks (into_vec bm0)) = mset (into_preconfirmed bs) \<and>
        anchors_ok safe (number min_anchor) bm0"
    if "create_batch_map cfg est est' env bs safe = Ok bm'" "bs \<noteq> []" for bm'
  proof -
    from that bm obtain head h bm0 where r: "sy_l1_head_later env = Inr head"
      "sy_l1_header env (Some (min_proposable_anchor_id cfg head)) = Inr h"
      "reanchor est' (ensure_unique_coinbase bm) (number h) safe (cfg_batch_settings cfg) = Some bm0"
      "bm' = retimestamp bm0 (min_proposable_ts cfg (sy_now env)) (sy_now env)"
      by (auto simp: create_batch_map_def Let_def)
    with re [of "number h"] show ?thesis by auto
  qed
  ultimately show ?thesis by blast
qed

lemma anchors_after_retimestamp:
  assumes "b \<in> set (into_vec (retimestamp bm lo hi))"
  obtains b' where "b' \<in> set (into_vec bm)" "anchor_block b = anchor_block b'"
proof -
  have "anchor_block b \<in> set (map anchor_block (into_vec (retimestamp bm lo hi)))" using assms by simp
  then show ?thesis unfolding retimestamp_anchors using that by auto
qed

section \<open>Well-formed batches\<close>

lemma batch_ok_filter_blocks: "batch_ok b \<Longrightarrow> batch_ok (b\<lparr>blocks := filter P (blocks b)\<rparr>)"
  by (auto simp: batch_ok_def increasing_filter intro: order_trans [OF length_filter_le])

lemma batch_ok_set_ts [simp]: "batch_ok (set_all_blocks_timestamp b ts) \<longleftrightarrow> batch_ok b"
  by (simp add: batch_ok_def set_all_blocks_timestamp_def increasing_def sorted_wrt_map)

lemma increasing_concatD: "increasing (concat bss) \<Longrightarrow> bs \<in> set bss \<Longrightarrow> increasing bs"
  by (induction bss) (auto simp: increasing_append)

lemma length_concat_le: "bs \<in> set bss \<Longrightarrow> length bs \<le> length (concat bss)"
  by (induction bss) auto

lemma batch_ok_split:
  assumes "batch_ok b" "c \<in> set (split_by_coinbase b)"
  shows "batch_ok c"
proof -
  have in_blocks: "blocks c \<in> set (map blocks (split_by_coinbase b))" using assms(2) by simp
  have "settings c = settings b" using split_by_coinbase_spec [of b] assms(2) by (auto simp: same_anchor_def)
  moreover have "increasing (blocks c)" "length (blocks c) \<le> length (blocks b)"
    using increasing_concatD [OF _ in_blocks] length_concat_le [OF in_blocks] split_by_coinbase_spec [of b] assms(1)
    by (auto simp: batch_ok_def)
  ultimately show ?thesis using assms(1) by (auto simp: batch_ok_def)
qed

lemma unique_batches_ok:
  assumes "map_holds s (inner bm) ps" "0 < capacity s" "b \<in> set (into_vec (ensure_unique_coinbase bm))"
  shows "batch_ok b"
proof -
  obtain c where c: "c \<in> set (into_vec bm)" "b \<in> set (split_by_coinbase c)"
    using assms(3) by (auto simp: into_vec_unique)
  then obtain k cs where k: "(k, cs) \<in> set (inner bm)" "c \<in> set cs" by (auto simp: into_vec_def bt_values_def)
  then have "good_batches s k cs"
    using assms(1) bt.entries_get [of "inner bm" k cs] by (auto simp: map_holds_def)
  with k assms(2) have "batch_ok c" by (auto simp: good_batches_def)
  then show ?thesis using batch_ok_split c(2) by blast
qed

lemma pipeline_batches_ok:
  assumes "increasing (into_preconfirmed bs)" "0 < capacity s" "batch_map_new est bs s = Some bm"
    "reanchor est' (ensure_unique_coinbase bm) n safe s = Some bm'" "b \<in> set (into_vec bm')"
  shows "batch_ok b"
proof -
  let ?u = "ensure_unique_coinbase bm"
  have holds: "map_holds s (inner bm) bs" using batch_map_new_holds [OF assms(1), of est s] assms(3) by auto
  then have ok: "bt_ok (inner ?u)" by (intro ok_unique) (simp add: map_holds_def)
  have "mset (all_blocks (into_vec ?u)) = mset (into_preconfirmed bs)"
    using mset_into_vec [OF holds] by (simp add: into_vec_unique all_blocks_split)
  then have "mset (map pb_number (all_blocks (into_vec ?u))) = mset (map pb_number (into_preconfirmed bs))" by simp
  then have dist: "distinct (map pb_number (all_blocks (into_vec ?u)))"
    using distinct_increasing [OF assms(1)] by (metis mset_eq_imp_distinct_iff)
  obtain due where d: "map_should_reanchor ?u n = Some due" using map_should_reanchor_total [OF ok] by blast
  show ?thesis
  proof (cases due)
    case False
    with d assms(4,5) have "b \<in> set (into_vec ?u)"
      by (simp add: reanchor_not_due) (auto simp: into_vec_def map_of_inner_def)
    with unique_batches_ok [OF holds assms(2)] show ?thesis .
  next
    case True
    with d have t: "map_should_reanchor ?u n = Some True" by simp
    then obtain oldest where "min_anchor ?u = Some oldest" using should_reanchor_min by blast
    from reanchor_due [OF t this dist, of est' safe s] assms(4,5) have "reanchored safe s b"
      by (auto simp: into_vec_def)
    with assms(2) show ?thesis by (simp add: reanchored_def)
  qed
qed

lemma retimestamp_batches_ok:
  assumes "\<forall>b \<in> set (into_vec bm). batch_ok b"
  shows "\<forall>b \<in> set (into_vec (retimestamp bm lo hi)). batch_ok b"
  using assms by (auto simp: retimestamp_into_vec retimestamp_batches_spec dest: set_takeWhileD set_dropWhileD)

lemma into_outstanding_ok:
  assumes "increasing (into_preconfirmed bs)" "0 < capacity s"
  shows "batch_ok (into_outstanding bs safe s)"
proof -
  let ?p = "\<lambda>b. anchored_anchor_id b = number (case max_by_key anchored_anchor_id bs of None \<Rightarrow> safe | Some b \<Rightarrow> ab_anchor b)"
  have "increasing (into_preconfirmed (filter ?p bs))"
    using assms(1) by (simp add: into_preconfirmed_def increasing_def sorted_wrt_map sorted_wrt_filter)
  then have "increasing (drop k (into_preconfirmed (filter ?p bs)))" for k
    by (metis append_take_drop_id increasing_append)
  then show ?thesis
    using assms(2) by (simp add: batch_ok_def into_outstanding_def from_blocks_unchecked_def Let_def
        into_preconfirmed_def drop_map)
qed

text \<open>Every batch that a sync returns is well-formed, when the downloads are contiguous.\<close>

definition downloads_ok :: "(u64 \<Rightarrow> u64 \<Rightarrow> syncer_error + anchored_block list) \<Rightarrow> bool" where
  "downloads_ok dl = (\<forall>lo hi bs. dl lo hi = Inr bs \<longrightarrow> increasing (into_preconfirmed bs))"

lemma create_batch_map_batches_ok:
  assumes "increasing (into_preconfirmed bs)" "0 < capacity (cfg_batch_settings cfg)"
    "create_batch_map cfg est est' env bs safe = Ok bm"
  shows "\<forall>b \<in> set (into_vec bm). batch_ok b"
proof (cases "bs = []")
  case True
  then show ?thesis using assms(3) by (auto simp: create_batch_map_def into_vec_def map_of_inner_def bt_empty_def)
next
  case False
  with assms(3) obtain bm0 h bm1 where "batch_map_new est bs (cfg_batch_settings cfg) = Some bm0"
    "reanchor est' (ensure_unique_coinbase bm0) (number (h :: header)) safe (cfg_batch_settings cfg) = Some bm1"
    "bm = retimestamp bm1 (min_proposable_ts cfg (sy_now env)) (sy_now env)"
    by (auto simp: create_batch_map_def Let_def)
  with pipeline_batches_ok [OF assms(1,2)] retimestamp_batches_ok [of bm1] show ?thesis by blast
qed

lemma sync_batches_ok:
  assumes "downloads_ok (sy_download env)" "0 < capacity (cfg_batch_settings cfg)"
    "sync cfg codec est est' env status = Ok (batches, reasons, fees)"
  shows "\<forall>b \<in> set batches. batch_ok b"
proof -
  have new: "batch_ok (batch_new a (cfg_batch_settings cfg))" for a
    using assms(2) by (simp add: batch_ok_def batch_new_def)
  from assms(3) consider a where "batches = [batch_new a (cfg_batch_settings cfg)]"
    | lo hi bs a where "sy_download env lo hi = Inr bs" "batches = [into_outstanding bs a (cfg_batch_settings cfg)]"
    | lo hi bs safe bm where "sy_download env lo hi = Inr bs" "create_batch_map cfg est est' env bs safe = Ok bm"
        "batches = into_vec bm"
    by (auto simp: sync_def create_batches_def Let_def split: driver_status.splits if_splits)
  then show ?thesis
  proof cases
    case 1
    with new show ?thesis by simp
  next
    case 2
    with assms(1,2) into_outstanding_ok [of _ "cfg_batch_settings cfg"] show ?thesis by (auto simp: downloads_ok_def)
  next
    case 3
    then have "increasing (into_preconfirmed bs)" using assms(1) by (simp add: downloads_ok_def)
    from create_batch_map_batches_ok [OF this assms(2)] 3 show ?thesis by simp
  qed
qed

text \<open>The sync as a client of a block source.\<close>

context block_source
begin

lemma source_downloads_ok: "(\<And>lo hi. returns lo hi (dl lo hi)) \<Longrightarrow> downloads_ok dl"
  unfolding downloads_ok_def using in_order by metis

lemma sync_from_source:
  assumes "\<And>lo hi. returns lo hi (sy_download env lo hi)" and "0 < capacity (cfg_batch_settings cfg)"
    and "sync cfg codec est est' env status = Ok (batches, reasons, fees)" and "b \<in> set batches"
  shows "batch_ok b"
  using sync_batches_ok [OF source_downloads_ok [OF assms(1)] assms(2,3)] assms(4) by blast

end

section \<open>Properties\<close>

definition without_timestamp :: "preconfirmed_block \<Rightarrow> preconfirmed_block" where
  "without_timestamp x = x\<lparr>pb_timestamp := 0\<rparr>"

lemma without_timestamp_eq: "without_timestamp = (\<lambda>x. x\<lparr>pb_timestamp := 0\<rparr>)"
  by (simp add: fun_eq_iff without_timestamp_def)

text \<open>
  C8. When the driver may propose, syncing makes batches of exactly the blocks that L1 does not have:
  every L2 block after the last proposed one, up to the head, is in exactly one place of one batch,
  changed in nothing but its timestamp, and no other block is. The timestamps are proposable when the
  bounds are in order, and an anchor is not too old unless all batches were re-anchored together. The
  sync never panics.
\<close>

theorem sync_batches_every_soft_block:
  fixes batches :: "batch list"
  assumes "can_propose status"
    and "sy_l2_head env = Inr head" "get_head_l1_origin (sy_stats2 env) (sy_batch env) = Inr origin" "origin < head"
    and "\<forall>n \<in> set (range_inclusive (origin + 1) head). serves codec denv n"
    and "download codec denv schedule (origin + 1) head = Some (sy_download env (origin + 1) head)"
  shows "sync cfg codec est est' env status \<noteq> Panic \<and>
    (\<forall>batches reasons fees. sync cfg codec est est' env status = Ok (batches, reasons, fees) \<longrightarrow>
      image_mset without_timestamp (mset (all_blocks batches)) =
        mset (map (\<lambda>n. without_timestamp (into_preconfirmed_block (fetch_one codec denv n))) (range_inclusive (origin + 1) head)) \<and>
      (min_proposable_ts cfg (sy_now env) \<le> sy_now env \<longrightarrow>
        (\<forall>x \<in> set (all_blocks batches).
           min_proposable_ts cfg (sy_now env) \<le> pb_timestamp x \<and> pb_timestamp x \<le> sy_now env)) \<and>
      (\<exists>l1_head oldest. sy_l1_head_later env = Inr l1_head \<and>
         sy_l1_header env (Some (min_proposable_anchor_id cfg l1_head)) = Inr oldest \<and>
         ((\<exists>safe. \<forall>b \<in> set batches. anchor_block b = safe) \<or>
          (\<forall>b \<in> set batches. number oldest \<le> anchor_id b))))"
proof -
  let ?R = "range_inclusive (origin + 1) head" and ?lo = "min_proposable_ts cfg (sy_now env)" and ?hi = "sy_now env"
  let ?bs = "map (fetch_one codec denv) ?R"
  have dl: "sy_download env (origin + 1) head = Inr ?bs"
    using download_ok [OF assms(5), of schedule] assms(6) by simp
  note inc = increasing_download [OF assms(5)]
  have ne: "?bs \<noteq> []"
    using inc_le [OF assms(4)] by (simp add: range_inclusive_def word_le_nat_alt)
  show ?thesis
  proof (intro conjI allI impI)
    have "create_batch_map cfg est est' env ?bs safe \<noteq> Panic" for safe
      using create_batch_map_ok [OF inc] by blast
    then show "sync cfg codec est est' env status \<noteq> Panic"
      using assms(1-4)
      by (auto simp: sync_def create_batches_def Let_def can_propose_def dl split: driver_status.splits if_splits)
  next
    fix batches reasons fees
    assume "sync cfg codec est est' env status = Ok (batches, reasons, fees)"
    then obtain safe bm where bm: "create_batch_map cfg est est' env ?bs safe = Ok bm" "batches = into_vec bm"
      using assms(1-4)
      by (auto simp: sync_def create_batches_def Let_def can_propose_def dl split: driver_status.splits if_splits)
    from create_batch_map_ok [OF inc] bm(1) ne obtain l1_head oldest bm0 where b0: "sy_l1_head_later env = Inr l1_head"
      "sy_l1_header env (Some (min_proposable_anchor_id cfg l1_head)) = Inr oldest"
      "bm = retimestamp bm0 ?lo ?hi" "mset (all_blocks (into_vec bm0)) = mset (into_preconfirmed ?bs)"
      "anchors_ok safe (number oldest) bm0" by blast
    have "image_mset without_timestamp (mset (all_blocks batches)) =
        image_mset without_timestamp (mset (all_blocks (into_vec bm0)))"
      using arg_cong [OF retimestamp_keeps [of bm0 ?lo ?hi], of mset]
      by (simp add: bm(2) b0(3) without_timestamp_eq)
    also have "\<dots> = mset (map (\<lambda>n. without_timestamp (into_preconfirmed_block (fetch_one codec denv n))) ?R)"
      unfolding b0(4) by (simp add: into_preconfirmed_def image_mset.compositionality comp_def)
    finally show "image_mset without_timestamp (mset (all_blocks batches)) =
        mset (map (\<lambda>n. without_timestamp (into_preconfirmed_block (fetch_one codec denv n))) ?R)" .
    show "\<forall>x \<in> set (all_blocks batches). ?lo \<le> pb_timestamp x \<and> pb_timestamp x \<le> ?hi" if "?lo \<le> ?hi"
      using retimestamp_in_range [OF that] by (auto simp: bm(2) b0(3) in_range_def)
    have "(\<exists>safe. \<forall>b \<in> set batches. anchor_block b = safe) \<or> (\<forall>b \<in> set batches. number oldest \<le> anchor_id b)"
      using b0(5) unfolding anchors_ok_def bm(2) b0(3)
      by (auto simp: anchor_id_def elim!: anchors_after_retimestamp)
    with b0(1,2) show "\<exists>l1_head oldest. sy_l1_head_later env = Inr l1_head \<and>
         sy_l1_header env (Some (min_proposable_anchor_id cfg l1_head)) = Inr oldest \<and>
         ((\<exists>safe. \<forall>b \<in> set batches. anchor_block b = safe) \<or>
          (\<forall>b \<in> set batches. number oldest \<le> anchor_id b))" by blast
  qed
qed

definition example_inbox_batch :: InboxBatch where
  "example_inbox_batch =
     \<lparr>metaHash = 0, batch_lastBlockId = 2, reserved3 = 0, livenessBond = 0, batch_batchId = 0,
      batch_lastBlockTimestamp = 0, batch_anchorBlockId = 0, nextTransitionId = 0, reserved4 = 0,
      verifiedTransitionId = 0\<rparr>"

definition example_sync_env :: sync_env where
  "example_sync_env =
     \<lparr>sy_l2_head = Inr 4,
      sy_stats2 = Inr \<lparr>numBatches = 1, lastVerifiedBatchId = 0, paused = False, lastProposedIn = 0, lastUnpausedAt = 0\<rparr>,
      sy_batch = \<lambda>n. Inr example_inbox_batch,
      sy_l1_head = Inr 100, sy_l1_head_later = Inr 100,
      sy_l1_header = \<lambda>n. Inr (example_header (the n) 900),
      sy_l2_latest = Inr \<lparr>block_header = example_header 4 1000,
        transactions = Full_Txs [(TAIKO_GOLDEN_TOUCH_ACCOUNT, [21])]\<rparr>,
      sy_download = \<lambda>lo hi. Inr (map (fetch_one example_codec example_download_env) (range_inclusive lo hi)),
      sy_now = 1010\<rparr>"

lemma example_origin: "get_head_l1_origin (sy_stats2 example_sync_env) (sy_batch example_sync_env) = Inr 2"
  by (simp add: get_head_l1_origin_def example_sync_env_def example_inbox_batch_def)

lemma example_anchor_id:
  "block_anchor_block_id example_codec \<lparr>block_header = h, transactions = Full_Txs [(TAIKO_GOLDEN_TOUCH_ACCOUNT, [21])]\<rparr> = Inr 21"
  by (simp add: block_anchor_block_id_def anchor_tx_def decode_anchor_tx_from_full_block_def first_tx_def
      decode_anchor_tx_data_def example_codec_def anchor_input_from_call_def anchor_call_from_input_def)

lemma example_numbers: "range_inclusive 3 4 = [3, 4]"
  by (simp add: range_inclusive_def)

theorem sync_batches_every_soft_block_witness:
  "\<exists>batches reasons fees.
     sync example_config example_codec (\<lambda>_. id) (\<lambda>_. id) example_sync_env Active = Ok (batches, reasons, fees) \<and>
     size (all_blocks batches) = 2"
proof -
  let ?schedule = "[(Some 0, True), (Some 0, True), (Some 0, True), (Some 0, True)]"
  let ?sync = "sync example_config example_codec (\<lambda>_. id) (\<lambda>_. id) example_sync_env Active"
  have serves: "\<forall>n \<in> set (range_inclusive lo hi). serves example_codec example_download_env n" for lo hi
    by (simp add: example_serves)
  have "download example_codec example_download_env ?schedule (2 + 1) 4 = Some (sy_download example_sync_env (2 + 1) 4)"
    using download_ok [OF serves, where lo = 3 and hi = 4 and schedule = ?schedule] by (simp add: example_sync_env_def example_numbers split: option.splits)
  note main = sync_batches_every_soft_block [OF _ _ example_origin _ serves this, of Active]
  have "sy_l2_head example_sync_env = Inr 4" by (simp add: example_sync_env_def)
  note main = main [OF _ this, of example_config "\<lambda>_. id" "\<lambda>_. id"]
  have not_err: "?sync \<noteq> Err e" for e
    by (auto simp: sync_def create_batches_def create_batch_map_def Let_def example_sync_env_def example_anchor_id
          get_head_l1_origin_def example_inbox_batch_def
        split: if_splits)
  with main obtain batches reasons fees where ok: "?sync = Ok (batches, reasons, fees)"
    by (cases ?sync) (auto simp: can_propose_def)
  with main have "size (image_mset without_timestamp (mset (all_blocks batches))) = 2"
    by (simp add: can_propose_def example_numbers)
  with ok show ?thesis by auto
qed

text \<open>
  C29. When the latest L2 block has a newer anchor than the safe one, re-anchoring uses the header of that
  L2 block itself: the batches are anchored to the number of an L2 block.
\<close>

theorem reanchoring_uses_an_L2_header:
  assumes "create_batches cfg codec est est' env bs safe = Ok (batches, reasons)"
    and "increasing (into_preconfirmed bs)"
    and "sy_l2_latest env = Inr highest" "block_anchor_block_id codec highest = Inr a" "number safe < a"
    and "Reanchor old new \<in> set reasons"
  shows "new = number (block_header highest) \<and> (\<forall>b \<in> set batches. anchor_block b = block_header highest)"
proof -
  from assms(1,3-5) obtain bm where bm: "create_batch_map cfg est est' env bs (block_header highest) = Ok bm"
    "batches = into_vec bm" "reasons = reorg_reasons bm"
    by (auto simp: create_batches_def)
  have "bs \<noteq> []" using bm assms(6) by (auto simp: create_batch_map_def map_of_inner_def)
  with create_batch_map_ok [OF assms(2)] bm(1) obtain oldest :: header and bm0 where b0:
    "bm = retimestamp bm0 (min_proposable_ts cfg (sy_now env)) (sy_now env)"
    "anchors_ok (block_header highest) (number oldest) bm0" by blast
  have "Reanchor old new \<in> set (reorg_reasons bm0)"
    using assms(6) bm(3) b0(1) by (auto simp: retimestamp_def case_prod_unfold Let_def split: if_splits)
  with b0(2) have "new = number (block_header highest)" "\<forall>b \<in> set (into_vec bm0). anchor_block b = block_header highest"
    by (auto simp: anchors_ok_def)
  then show ?thesis
    using bm(2) b0(1) by (auto elim!: anchors_after_retimestamp)
qed

theorem reanchoring_uses_an_L2_header_witness:
  "\<exists>batches reasons. create_batches example_config example_codec (\<lambda>_. id) (\<lambda>_. id) example_sync_env
      [example_anchored 3 1000 1 7] (example_header 10 900) = Ok (batches, reasons) \<and>
     Reanchor 1 4 \<in> set reasons \<and> list_all (\<lambda>b. anchor_block b = example_header 4 1000) batches"
proof -
  let ?x = "example_anchored 3 1000 1 7" and ?s = "cfg_batch_settings example_config"
  let ?p = "into_preconfirmed_block ?x" and ?s7 = "(cfg_batch_settings example_config)\<lparr>default_coinbase := 7\<rparr>"
  let ?h = "example_header 4 1000" and ?env = example_sync_env
  have p: "from_block (ab_block ?x) = ?p" "pb_coinbase ?p = 7" "pb_number ?p = 3" "pb_timestamp ?p = 1000"
    "ab_anchor ?x = example_header 1 100"
    by (simp_all add: into_preconfirmed_block_def example_anchored_def example_header_def)
  let ?b = "from_blocks_unchecked (example_header 1 100) ?s7 [?p]"
  let ?u = "(batch_new (example_header 1 100) ?s7)\<lparr>coinbase := 7, blocks := [?p]\<rparr>"
  have new: "batch_map_new (\<lambda>_. id) [?x] ?s = Some (map_of_inner [(1, [?b])])"
    by (simp add: batch_map_new_def new_step_def p bt_empty_def) (simp add: example_header_def sort_batches_def)
  have u: "ensure_unique_coinbase (map_of_inner [(1, [?b])]) = map_of_inner [(1, [?u])]"
    by (simp add: ensure_unique_coinbase_def map_of_inner_def bt_map_values_def split_by_coinbase_def
        from_blocks_unchecked_def p change_coinbase_def batch_new_def)
  have due: "map_should_reanchor (map_of_inner [(1, [?u])]) 42 = Some True" "min_anchor (map_of_inner [(1, [?u])]) = Some 1"
    by (simp_all add: map_should_reanchor_def min_anchor_def bt_keys_def map_of_inner_def batch_new_def example_header_def)
  have "distinct (map pb_number (all_blocks (into_vec (map_of_inner [(1, [?u])]))))"
    by (simp add: into_vec_def map_of_inner_def)
  from reanchor_due [OF due this, of "\<lambda>_. id" ?h ?s] obtain new_batches cursor where
    re: "reanchor (\<lambda>_. id) (map_of_inner [(1, [?u])]) 42 ?h ?s =
      Some \<lparr>inner = [(number ?h, new_batches @ [cursor])], reorg_reasons = [Reanchor 1 (number ?h)]\<rparr>"
    by blast
  define bm where "bm = \<lparr>inner = [(number ?h, new_batches @ [cursor])], reorg_reasons = [Reanchor 1 (number ?h)]\<rparr>"
  define bm' where "bm' = retimestamp bm (min_proposable_ts example_config 1010) 1010"
  have id: "min_proposable_anchor_id example_config 100 = 42"
    by (simp add: min_proposable_anchor_id_def example_config_def default_preconf_opts_def)
  have "create_batch_map example_config (\<lambda>_. id) (\<lambda>_. id) ?env [?x] ?h = Ok bm'"
    using re [folded bm_def] by (simp add: create_batch_map_def new u id example_sync_env_def bm'_def)
       (simp add: example_header_def bm_def)
  then have created: "create_batches example_config example_codec (\<lambda>_. id) (\<lambda>_. id) ?env [?x] (example_header 10 900) =
      Ok (into_vec bm', reorg_reasons bm')"
    by (simp add: create_batches_def example_sync_env_def example_anchor_id) (simp add: example_header_def)
  have reason: "Reanchor 1 4 \<in> set (reorg_reasons bm')"
    by (auto simp: bm'_def bm_def retimestamp_def case_prod_unfold Let_def example_header_def)
  have "sy_l2_latest ?env = Inr \<lparr>block_header = ?h, transactions = Full_Txs [(TAIKO_GOLDEN_TOUCH_ACCOUNT, [21])]\<rparr>"
    by (simp add: example_sync_env_def)
  from reanchoring_uses_an_L2_header [OF created _ this example_anchor_id _ reason]
  have "\<forall>b \<in> set (into_vec bm'). anchor_block b = ?h"
    by (simp add: into_preconfirmed_def example_header_def)
  with created reason show ?thesis by (auto simp: list_all_iff)
qed

end
