(* ===== verification/Preconf_Client.thy ===== *)
theory Preconf_Client
  imports Batch_Errors
begin

text \<open>
  The client of the preconfirmation server, \<open>crates/clients/src/taiko_preconf.rs\<close>, with the retry
  policy of \<open>crates/primitives/src/retries.rs\<close>, and the long-running tasks of
  \<open>crates/primitives/src/task.rs\<close>. HTTP, JSON, the JWT library and the websocket are parameters: what
  they answer is an argument. An HTTP error is what the code reads of it. Durations are in milliseconds.
\<close>

section \<open>Errors\<close>

record http_error =
  http_message :: string
  is_timeout :: bool
  is_connect :: bool
  http_status :: "nat option"

datatype preconf_client_error =
    ParseUrl
  | Http http_error
  | Ws
  | Jwt string
  | Serde
  | Build string
  | RetriesExhausted preconf_client_error

definition is_connection_refused :: "string \<Rightarrow> bool" where
  "is_connection_refused e = contains_str (to_lowercase e) ''connection refused''"

definition is_server_error :: "nat \<Rightarrow> bool" where
  "is_server_error status = (500 \<le> status \<and> status < 600)"

fun is_retryable :: "preconf_client_error \<Rightarrow> bool" where
  "is_retryable (Http e) =
     (is_connection_refused (http_message e) \<or> is_timeout e \<or> is_connect e \<or>
      (case http_status e of None \<Rightarrow> False | Some s \<Rightarrow> is_server_error s))"
| "is_retryable _ = False"

section \<open>Retries\<close>

record client_config =
  timeout :: nat
  retry_attempts :: nat
  base_delay :: nat

definition default_client_config :: client_config where
  "default_client_config = \<lparr>timeout = 10000, retry_attempts = 3, base_delay = 100\<rparr>"

text \<open>
  The loop over the attempts: \<open>left\<close> are still allowed, the next one has the number \<open>attempt\<close>. The
  result comes with the delays that were slept; \<open>None\<close> is the panic of \<open>last_err.unwrap()\<close>.
\<close>

fun retry_loop ::
  "(nat \<Rightarrow> preconf_client_error + 'a) \<Rightarrow> nat \<Rightarrow> nat \<Rightarrow> nat \<Rightarrow> nat \<Rightarrow> preconf_client_error option \<Rightarrow>
   nat list \<times> (preconf_client_error + 'a) option" where
  "retry_loop operation attempts 0 attempt delay last_err =
     ([], map_option (\<lambda>e. Inl (RetriesExhausted e)) last_err)"
| "retry_loop operation attempts (Suc left) attempt delay last_err =
     (let (slept, delay) = (if attempt > 0 then ([delay], min (delay * 2) 10000) else ([], delay))
      in case operation attempt of
           Inr result \<Rightarrow> (slept, Some (Inr result))
         | Inl e \<Rightarrow>
             if \<not> is_retryable e then (slept, Some (Inl e))
             else if attempt = attempts then (slept, Some (Inl (RetriesExhausted e)))
             else
               (case retry_loop operation attempts left (Suc attempt) delay (Some e) of
                  (slept', r) \<Rightarrow> (slept @ slept', r)))"

definition retry ::
  "client_config \<Rightarrow> (nat \<Rightarrow> preconf_client_error + 'a) \<Rightarrow> nat list \<times> (preconf_client_error + 'a) option" where
  "retry config operation =
     retry_loop operation (retry_attempts config) (Suc (retry_attempts config)) 0 (base_delay config) None"

text \<open>The health check is retried; an answer with an error status is an HTTP error.\<close>

definition health_check ::
  "client_config \<Rightarrow> bool \<Rightarrow> (nat \<Rightarrow> http_error + http_error option) \<Rightarrow> nat list \<times> (preconf_client_error + unit) option" where
  "health_check config join_ok get =
     retry config (\<lambda>i.
       if \<not> join_ok then Inl ParseUrl
       else case get i of
              Inl e \<Rightarrow> Inl (Http e)
            | Inr (Some error_status) \<Rightarrow> Inl (Http error_status)
            | Inr None \<Rightarrow> Inr ())"

section \<open>Requests\<close>

datatype 'h build_response = Success 'h | Error_Response string

record ('body, 'json, 'h) preconf_env =
  jwt_encode :: "u64 \<Rightarrow> u64 \<Rightarrow> string + string"
  url_join_ok :: bool
  post :: "string \<Rightarrow> 'body \<Rightarrow> http_error + (http_error + 'json)"
  from_value :: "'json \<Rightarrow> 'h build_response option"

definition build_preconf_block ::
  "('body, 'json, 'h) preconf_env \<Rightarrow> u64 \<Rightarrow> 'body \<Rightarrow> preconf_client_error + 'h" where
  "build_preconf_block env time body =
     (case jwt_encode env time (time + 3600) of
        Inl e \<Rightarrow> Inl (Jwt e)
      | Inr token \<Rightarrow>
          if \<not> url_join_ok env then Inl ParseUrl
          else
            (case post env token body of
               Inl e \<Rightarrow> Inl (Http e)
             | Inr (Inl e) \<Rightarrow> Inl (Http e)
             | Inr (Inr json) \<Rightarrow>
                 (case from_value env json of
                    None \<Rightarrow> Inl Serde
                  | Some (Success h) \<Rightarrow> Inr h
                  | Some (Error_Response error) \<Rightarrow> Inl (Build error))))"

definition get_status :: "bool \<Rightarrow> http_error + http_error option \<Rightarrow> http_error + 'status \<Rightarrow> preconf_client_error + 'status" where
  "get_status join_ok get json =
     (if \<not> join_ok then Inl ParseUrl
      else case get of
             Inl e \<Rightarrow> Inl (Http e)
           | Inr (Some error_status) \<Rightarrow> Inl (Http error_status)
           | Inr None \<Rightarrow> (case json of Inl e \<Rightarrow> Inl (Http e) | Inr status \<Rightarrow> Inr status))"

section \<open>Websocket events\<close>

datatype ws_message = Text string | Close | Ws_Failure | Other_Message

definition WS_CHANNEL_CAPACITY :: nat where "WS_CHANNEL_CAPACITY = 128"

text \<open>
  The messages of one connection: the channel to the driver afterwards, and whether the connection is
  left, so that the outer loop connects again.
\<close>

fun ws_messages :: "(string \<Rightarrow> 'ev option) \<Rightarrow> 'ev list \<Rightarrow> ws_message list \<Rightarrow> 'ev list \<times> bool" where
  "ws_messages parse channel [] = (channel, True)"
| "ws_messages parse channel (Text text # msgs) =
     (case parse text of
        Some event \<Rightarrow>
          if length channel < WS_CHANNEL_CAPACITY then ws_messages parse (channel @ [event]) msgs
          else (channel, True)
      | None \<Rightarrow> ws_messages parse channel msgs)"
| "ws_messages parse channel (Close # msgs) = (channel, True)"
| "ws_messages parse channel (Ws_Failure # msgs) = (channel, True)"
| "ws_messages parse channel (Other_Message # msgs) = ws_messages parse channel msgs"

text \<open>
  How an event is read from the JSON of a message: a field of the object is absent, has the wrong type or has a
  value. The flag has a default, so it may be absent.
\<close>

datatype 'a json_field = Absent | Wrong_Type | Field 'a

record end_of_sequencing_message =
  msg_current_epoch :: u64
  msg_end_of_sequencing :: bool

datatype preconf_ws_event = EndOfSequencing end_of_sequencing_message

definition read_ws_event :: "u64 json_field \<Rightarrow> bool json_field \<Rightarrow> preconf_ws_event option" where
  "read_ws_event current_epoch end_of_sequencing =
     (case (current_epoch, end_of_sequencing) of
        (Field ep, Absent) \<Rightarrow> Some (EndOfSequencing \<lparr>msg_current_epoch = ep, msg_end_of_sequencing = False\<rparr>)
      | (Field ep, Field b) \<Rightarrow> Some (EndOfSequencing \<lparr>msg_current_epoch = ep, msg_end_of_sequencing = b\<rparr>)
      | _ \<Rightarrow> None)"

text \<open>
  The flag is meant to identify the event. It does not: every object with an epoch is the end of a sequencing
  window for the driver, which never looks at the flag.
\<close>

lemma flag_does_not_identify_the_event:
  "flag \<noteq> Wrong_Type \<Longrightarrow> \<exists>msg. read_ws_event (Field ep) flag = Some (EndOfSequencing msg) \<and> msg_current_epoch msg = ep"
  by (cases flag) (simp_all add: read_ws_event_def)

section \<open>The retry policy of the RPC clients\<close>

text \<open>\<open>is_retry_err\<close> of a transport error and of an error payload belong to the RPC library.\<close>

datatype ('kind, 'payload) transport_rpc_error =
    Transport_Err 'kind
  | DeserError string
  | ErrorResp_Payload 'payload
  | NullResp
  | SerError
  | Other_Rpc_Error

fun rpc_is_retryable ::
  "('kind \<Rightarrow> bool) \<Rightarrow> ('payload \<Rightarrow> bool) \<Rightarrow> (string \<Rightarrow> 'payload option) \<Rightarrow> (string \<Rightarrow> 'payload option) \<Rightarrow>
   ('kind, 'payload) transport_rpc_error \<Rightarrow> bool" where
  "rpc_is_retryable kind_retry payload_retry parse_payload parse_resp (Transport_Err err) = kind_retry err"
| "rpc_is_retryable kind_retry payload_retry parse_payload parse_resp (DeserError text) =
     (case parse_payload text of
        Some resp \<Rightarrow> payload_retry resp
      | None \<Rightarrow>
          (case parse_resp text of
             Some error \<Rightarrow> payload_retry error
           | None \<Rightarrow> False))"
| "rpc_is_retryable kind_retry payload_retry parse_payload parse_resp (ErrorResp_Payload err) = payload_retry err"
| "rpc_is_retryable kind_retry payload_retry parse_payload parse_resp NullResp = True"
| "rpc_is_retryable kind_retry payload_retry parse_payload parse_resp SerError = False"
| "rpc_is_retryable kind_retry payload_retry parse_payload parse_resp Other_Rpc_Error = False"

definition should_retry ::
  "('kind \<Rightarrow> bool) \<Rightarrow> ('payload \<Rightarrow> bool) \<Rightarrow> (string \<Rightarrow> 'payload option) \<Rightarrow> (string \<Rightarrow> 'payload option) \<Rightarrow>
   (('kind, 'payload) transport_rpc_error \<Rightarrow> string) \<Rightarrow> ('kind, 'payload) transport_rpc_error \<Rightarrow> bool" where
  "should_retry kind_retry payload_retry parse_payload parse_resp to_string error =
     (rpc_is_retryable kind_retry payload_retry parse_payload parse_resp error \<or>
      is_connection_refused (to_string error))"

section \<open>Long-running tasks\<close>

text \<open>A join error is a panic with its message, if it is a string, or a cancellation.\<close>

datatype join_error = Join_Panic "string option" | Join_Cancelled

record task_result =
  task_name :: string
  task_err :: "join_error option"

definition error_message :: "task_result \<Rightarrow> string" where
  "error_message r =
     (case task_err r of
        None \<Rightarrow> ''''
      | Some (Join_Panic (Some s)) \<Rightarrow> s
      | Some (Join_Panic None) \<Rightarrow> ''Task panicked with unknown type''
      | Some Join_Cancelled \<Rightarrow> '''')"

type_synonym 'handle critical_tasks = "string \<rightharpoonup> 'handle"

definition add_handle :: "'handle critical_tasks \<Rightarrow> 'handle \<Rightarrow> string \<Rightarrow> 'handle critical_tasks" where
  "add_handle tasks handle name = tasks(name \<mapsto> handle)"

datatype 'a poll = Pending | Ready 'a

text \<open>
  \<open>order\<close> is the order in which the hash map is iterated, and \<open>poll_handle\<close> what a handle answers:
  nothing while its task runs, and then its error, if any.
\<close>

fun poll_in_order ::
  "('handle \<Rightarrow> join_error option option) \<Rightarrow> 'handle critical_tasks \<Rightarrow> string list \<Rightarrow> task_result option poll" where
  "poll_in_order poll_handle tasks [] = Pending"
| "poll_in_order poll_handle tasks (name # names) =
     (case tasks name of
        None \<Rightarrow> poll_in_order poll_handle tasks names
      | Some handle \<Rightarrow>
          (case poll_handle handle of
             Some res \<Rightarrow> Ready (Some \<lparr>task_name = name, task_err = res\<rparr>)
           | None \<Rightarrow> poll_in_order poll_handle tasks names))"

definition poll_tasks ::
  "('handle \<Rightarrow> join_error option option) \<Rightarrow> string list \<Rightarrow> 'handle critical_tasks \<Rightarrow> task_result option poll" where
  "poll_tasks poll_handle order tasks =
     (if order = [] then Ready None else poll_in_order poll_handle tasks order)"

section \<open>Properties\<close>

text \<open>The delay before attempt \<open>i + 1\<close>: the base delay, doubled each time up to 10 seconds.\<close>

fun delay_before :: "nat \<Rightarrow> nat \<Rightarrow> nat" where
  "delay_before base 0 = base"
| "delay_before base (Suc i) = min (delay_before base i * 2) 10000"

definition settles :: "(nat \<Rightarrow> preconf_client_error + 'a) \<Rightarrow> nat \<Rightarrow> bool" where
  "settles operation i = (case operation i of Inr _ \<Rightarrow> True | Inl e \<Rightarrow> \<not> is_retryable e)"

definition slept_before :: "nat \<Rightarrow> nat \<Rightarrow> nat list" where
  "slept_before base i = map (delay_before base) [0..<i]"

lemma not_settles:
  assumes "\<not> settles operation i"
  obtains e where "operation i = Inl e" "is_retryable e"
  using assms by (cases "operation i") (auto simp: settles_def)

lemma delay_step: "min (delay_before base (a - 1) * 2) 10000 = delay_before base a" if "0 < a"
  using that by (cases a) simp_all

lemma upt_step: "0 < a \<Longrightarrow> a \<le> i \<Longrightarrow> [a - Suc 0..<i] = (a - Suc 0) # [a..<i]"
  by (cases a) (simp_all add: upt_conv_Cons)

lemma retry_loop_settles:
  assumes "settles operation i" "\<forall>j. a \<le> j \<and> j < i \<longrightarrow> \<not> settles operation j" "a \<le> i" "i \<le> n"
  shows "retry_loop operation n (Suc n - a) a (delay_before base (a - 1)) last_err =
    (map (delay_before base) [a - 1..<i], Some (operation i))"
  using assms
proof (induction "i - a" arbitrary: a last_err)
  case 0
  then have "a = i" by simp
  with 0 show ?case
    by (cases "0 < i") (auto simp: Suc_diff_le settles_def upt_step split: sum.splits)
next
  case (Suc d)
  then have less: "a < i" "a < n" by auto
  with Suc.prems have "\<not> settles operation a" by auto
  then obtain e where e: "operation a = Inl e" "is_retryable e" by (elim not_settles)
  have ih: "retry_loop operation n (Suc n - Suc a) (Suc a) (delay_before base (Suc a - 1)) (Some e) =
      (map (delay_before base) [Suc a - 1..<i], Some (operation i))"
    using Suc.hyps(2) Suc.prems less by (intro Suc.hyps(1)) auto
  have left: "Suc n - a = Suc (n - a)" using less by simp
  show ?case
  proof (cases "0 < a")
    case True
    then show ?thesis
      using ih e less delay_step [OF True, of base] upt_step [of a i] by (simp add: left)
  next
    case False
    then show ?thesis using ih e less by (simp add: left)
  qed
qed

lemma retry_loop_exhausted:
  assumes "\<forall>j. a \<le> j \<and> j \<le> n \<longrightarrow> \<not> settles operation j" "a \<le> n" "operation n = Inl e'"
  shows "retry_loop operation n (Suc n - a) a (delay_before base (a - 1)) last_err =
    (map (delay_before base) [a - 1..<n], Some (Inl (RetriesExhausted e')))"
  using assms
proof (induction "n - a" arbitrary: a last_err)
  case 0
  then have "a = n" by simp
  with 0 show ?case
    by (cases "0 < n") (auto simp: settles_def upt_step)
next
  case (Suc d)
  then have less: "a < n" by auto
  with Suc.prems have "\<not> settles operation a" by auto
  then obtain e where e: "operation a = Inl e" "is_retryable e" by (elim not_settles)
  have ih: "retry_loop operation n (Suc n - Suc a) (Suc a) (delay_before base (Suc a - 1)) (Some e) =
      (map (delay_before base) [Suc a - 1..<n], Some (Inl (RetriesExhausted e')))"
    using Suc.hyps(2) Suc.prems less by (intro Suc.hyps(1)) auto
  have left: "Suc n - a = Suc (n - a)" using less by simp
  show ?case
  proof (cases "0 < a")
    case True
    then show ?thesis
      using ih e less delay_step [OF True, of base] upt_step [of a n] by (simp add: left)
  next
    case False
    then show ?thesis using ih e less by (simp add: left)
  qed
qed

text \<open>
  C33. Retrying ends after at most \<open>retry_attempts + 1\<close> attempts and never panics: the result is that of
  the first attempt that succeeds or fails for good, otherwise the last error wrapped as exhausted. Before
  attempt number \<open>i\<close> it has slept \<open>i\<close> times, each time twice as long as before, up to ten seconds.
\<close>

theorem retry_correct:
  "(\<forall>i \<le> retry_attempts config. settles operation i \<and> (\<forall>j < i. \<not> settles operation j) \<longrightarrow>
      retry config operation = (slept_before (base_delay config) i, Some (operation i))) \<and>
   ((\<forall>i \<le> retry_attempts config. \<not> settles operation i) \<longrightarrow>
      (\<exists>e. operation (retry_attempts config) = Inl e \<and>
         retry config operation = (slept_before (base_delay config) (retry_attempts config), Some (Inl (RetriesExhausted e)))))"
proof (intro conjI allI impI)
  fix i assume "i \<le> retry_attempts config" "settles operation i \<and> (\<forall>j < i. \<not> settles operation j)"
  then show "retry config operation = (slept_before (base_delay config) i, Some (operation i))"
    using retry_loop_settles [of operation i 0 "retry_attempts config" "base_delay config" None]
    by (simp add: retry_def slept_before_def)
next
  assume none: "\<forall>i \<le> retry_attempts config. \<not> settles operation i"
  then obtain e where "operation (retry_attempts config) = Inl e" by (metis not_settles order_refl)
  with none retry_loop_exhausted [of 0 "retry_attempts config" operation e "base_delay config" None]
  show "\<exists>e. operation (retry_attempts config) = Inl e \<and>
         retry config operation = (slept_before (base_delay config) (retry_attempts config), Some (Inl (RetriesExhausted e)))"
    by (simp add: retry_def slept_before_def)
qed

definition example_timeout :: "nat \<Rightarrow> preconf_client_error + nat" where
  "example_timeout i =
     (if i < 2 then Inl (Http \<lparr>http_message = ''timed out'', is_timeout = True, is_connect = False, http_status = None\<rparr>)
      else Inr 7)"

theorem retry_correct_witness:
  "retry default_client_config example_timeout = ([100, 200], Some (Inr 7))"
proof -
  have "settles example_timeout 2 \<and> (\<forall>j < 2. \<not> settles example_timeout j)"
    by (simp add: settles_def example_timeout_def)
  then show ?thesis
    using retry_correct [of default_client_config example_timeout, THEN conjunct1, rule_format, of 2]
    by (simp add: default_client_config_def slept_before_def example_timeout_def upt_conv_Cons numeral_2_eq_2)
qed

lemma poll_in_order_Ready:
  "poll_in_order poll_handle tasks order = Ready r \<Longrightarrow>
   \<exists>name handle res. name \<in> set order \<and> tasks name = Some handle \<and> poll_handle handle = Some res \<and>
     r = Some \<lparr>task_name = name, task_err = res\<rparr>"
  by (induction poll_handle tasks order rule: poll_in_order.induct) (auto split: option.splits)

lemma poll_in_order_Pending:
  "poll_in_order poll_handle tasks order = Pending \<longleftrightarrow>
   (\<forall>name \<in> set order. \<forall>handle. tasks name = Some handle \<longrightarrow> poll_handle handle = None)"
  by (induction poll_handle tasks order rule: poll_in_order.induct) (auto split: option.splits)

end
