(* ===== verification/Builder.thy ===== *)
theory Builder
  imports Sync Preconf_Client Transitions
begin

text \<open>
  The block builder, \<open>crates/driver/src/block_builder/\<close>, with the request types of
  \<open>crates/primitives/src/taiko/builder.rs\<close>. The state of the builder is a \<open>watch\<close> channel of tokio: the
  value with its version, and the version that the receiver has seen. \<open>borrow\<close> does not mark a value as
  seen; \<open>changed\<close> returns at once when the newest value is unseen and marks it, and waits otherwise.
  The answers of the engine, of the anchor contract and of the preconfirmation server are \<open>builder_env\<close>.
\<close>

section \<open>The state of the builder\<close>

datatype builder_value = Idle | Finalizing u64

record builder_state =
  state_value :: builder_value
  state_version :: nat
  state_seen :: nat

definition watch_send :: "builder_value \<Rightarrow> builder_state \<Rightarrow> builder_state" where
  "watch_send v s = s\<lparr>state_value := v, state_version := state_version s + 1\<rparr>"

text \<open>\<open>None\<close>: the future is pending.\<close>

definition watch_changed :: "builder_state \<Rightarrow> builder_state option" where
  "watch_changed s = (if state_seen s < state_version s then Some (s\<lparr>state_seen := state_version s\<rparr>) else None)"

definition builder_state_new :: builder_state where
  "builder_state_new = \<lparr>state_value = Idle, state_version = 0, state_seen = 0\<rparr>"

definition set_finalizing :: "u64 \<Rightarrow> builder_state \<Rightarrow> builder_state" where
  "set_finalizing n s = watch_send (Finalizing n) s"

definition is_finalizing :: "builder_state \<Rightarrow> u64 option" where
  "is_finalizing s = (case state_value s of Finalizing n \<Rightarrow> Some n | Idle \<Rightarrow> None)"

definition wait_for_idle :: "builder_state \<Rightarrow> builder_state option" where
  "wait_for_idle s = (if is_finalizing s \<noteq> None then watch_changed s else Some s)"

text \<open>A response, without its guard; dropping it sets the state to idle.\<close>

record builder_response =
  resp_preconfirmed_block :: preconfirmed_block
  resp_anchor :: header

definition drop_response :: "builder_state \<Rightarrow> builder_state" where
  "drop_response s = watch_send Idle s"

definition into_block_with_anchor ::
  "builder_response \<Rightarrow> builder_state \<Rightarrow> (preconfirmed_block \<times> header) \<times> builder_state" where
  "into_block_with_anchor r s = ((resp_preconfirmed_block r, resp_anchor r), drop_response s)"

section \<open>Requests and payloads\<close>

record pre_built_tx_list =
  pre_tx_list :: "tx_envelope list"
  estimated_gas_used :: u64
  bytes_length :: u64

record tx_pool_content_params =
  pool_beneficiary :: address
  pool_base_fee :: u64
  block_max_gas_limit :: u64
  max_bytes_per_tx_list :: u64
  local_accounts :: "address list"
  pool_max_tx_lists_per_call :: u64
  min_tip :: u64

record executable_data =
  exec_parent_hash :: b256
  exec_fee_recipient :: address
  exec_block_number :: u64
  exec_gas_limit :: u64
  exec_timestamp :: u64
  exec_transactions :: bytes
  exec_extra_data :: bytes
  exec_base_fee_per_gas :: u64

record build_request_body =
  body_executable_data :: executable_data
  end_of_sequencing :: bool

record block_payload =
  payload_parent :: header
  payload_base_fee :: u64
  payload_timestamp :: u64
  payload_is_last :: bool
  tx_list_without_anchor_tx :: "tx_envelope list"

record build_payload_request =
  brq_timestamp :: u64
  brq_force_empty :: bool
  brq_is_last :: bool
  brq_parent :: header
  brq_transaction_list :: "tx_envelope list option"
  brq_base_fee :: "u64 option"
  brq_max_size :: "u64 option"

definition build_request_new :: "u64 \<Rightarrow> header \<Rightarrow> build_payload_request" where
  "build_request_new ts parent =
     \<lparr>brq_timestamp = ts, brq_force_empty = False, brq_is_last = False, brq_parent = parent,
      brq_transaction_list = None, brq_base_fee = None, brq_max_size = None\<rparr>"

definition with_transaction_list :: "tx_envelope list \<Rightarrow> build_payload_request \<Rightarrow> build_payload_request" where
  "with_transaction_list txs r = r\<lparr>brq_transaction_list := Some txs\<rparr>"

definition with_force_empty :: "bool \<Rightarrow> build_payload_request \<Rightarrow> build_payload_request" where
  "with_force_empty force r = r\<lparr>brq_force_empty := force\<rparr>"

definition with_is_last :: "bool \<Rightarrow> build_payload_request \<Rightarrow> build_payload_request" where
  "with_is_last is_last r = r\<lparr>brq_is_last := is_last\<rparr>"

definition with_max_size :: "u64 \<Rightarrow> build_payload_request \<Rightarrow> build_payload_request" where
  "with_max_size max_size r = r\<lparr>brq_max_size := Some max_size\<rparr>"

definition with_base_fee :: "u64 \<Rightarrow> build_payload_request \<Rightarrow> build_payload_request" where
  "with_base_fee fee r = r\<lparr>brq_base_fee := Some fee\<rparr>"

datatype builder_error =
    Builder_Rpc rpc_error
  | ChainIO rpc_error
  | ZlibCompression
  | PreconfClient preconf_client_error

record 'sig builder_env =
  env_codec :: "'sig anchor_codec"
  env_sign :: "bytes \<Rightarrow> bytes \<Rightarrow> (signer_error, 'sig) outcome"
  env_anchor :: taiko_anchor
  env_base_fee :: "u32 \<Rightarrow> u64 \<Rightarrow> AnchorBaseFeeConfig \<Rightarrow> rpc_error + u256 \<times> u64 \<times> u64"
  env_nonce :: "b256 \<Rightarrow> rpc_error + u64"
  env_tx_pool :: "tx_pool_content_params \<Rightarrow> rpc_error + pre_built_tx_list list option"
  env_compress :: "tx_envelope list \<Rightarrow> bytes option"
  env_preconf :: "build_request_body \<Rightarrow> preconf_client_error + header"

section \<open>Building a payload\<close>

text \<open>The conversion of the base fee to 64 bits panics when it does not fit.\<close>

definition get_next_block_base_fee ::
  "runtime_config \<Rightarrow> 'sig builder_env \<Rightarrow> u32 \<Rightarrow> u64 \<Rightarrow> (rpc_error, u64) outcome" where
  "get_next_block_base_fee cfg env gas next_block_ts =
     (let base_fee_cfg = anchor_base_fee_config_from (baseFeeConfig (pacaya_config cfg))
      in case get_base_fee_v2 (env_base_fee env gas next_block_ts base_fee_cfg) of
           Inl e \<Rightarrow> Err e
         | Inr res \<Rightarrow> if unat (base_fee res) < 2 ^ 64 then Ok (ucast (base_fee res)) else Panic)"

definition fetch_tx_lists :: "runtime_config \<Rightarrow> 'sig builder_env \<Rightarrow> u64 \<Rightarrow> u64 \<Rightarrow> tx_envelope list" where
  "fetch_tx_lists cfg env fee max_bytes =
     (let params =
            \<lparr>pool_beneficiary = operator_address cfg, pool_base_fee = fee,
             block_max_gas_limit = ucast (blockMaxGasLimit (pacaya_config cfg)),
             max_bytes_per_tx_list = max_bytes, local_accounts = [],
             pool_max_tx_lists_per_call = max_tx_lists_per_call (preconf cfg),
             min_tip = min_tip_wei (preconf cfg)\<rparr>
      in case env_tx_pool env params of
           Inr (Some block_candidate) \<Rightarrow>
             (case first_option block_candidate of
                Some first_block \<Rightarrow> pre_tx_list first_block
              | None \<Rightarrow> [])
         | Inr None \<Rightarrow> []
         | Inl e \<Rightarrow> [])"

fun map_outcome_err :: "('e \<Rightarrow> 'f) \<Rightarrow> ('e, 'a) outcome \<Rightarrow> ('f, 'a) outcome" where
  "map_outcome_err f Panic = Panic"
| "map_outcome_err f (Err e) = Err (f e)"
| "map_outcome_err f (Ok x) = Ok x"

definition build_payload ::
  "runtime_config \<Rightarrow> 'sig builder_env \<Rightarrow> build_payload_request \<Rightarrow> (builder_error, block_payload option) outcome" where
  "build_payload cfg env req =
     and_then
       (case brq_base_fee req of
          Some fee \<Rightarrow> Ok fee
        | None \<Rightarrow> map_outcome_err ChainIO
                    (get_next_block_base_fee cfg env (ucast (gas_used (brq_parent req))) (brq_timestamp req)))
       (\<lambda>fee.
        let txs = (case brq_transaction_list req of
                     Some txs \<Rightarrow> txs
                   | None \<Rightarrow>
                       let max_size = (case brq_max_size req of Some s \<Rightarrow> s | None \<Rightarrow> max_block_size_bytes (preconf cfg))
                       in fetch_tx_lists cfg env fee max_size);
            can_skip_empty_block =
              \<not> (brq_force_empty req \<or> brq_is_last req \<or> enable_building_empty_blocks (preconf cfg))
        in if can_skip_empty_block \<and> txs = [] then Ok None
           else Ok (Some \<lparr>payload_parent = brq_parent req, payload_base_fee = fee,
                          payload_timestamp = brq_timestamp req, payload_is_last = brq_is_last req,
                          tx_list_without_anchor_tx = txs\<rparr>))"

section \<open>Finalizing a block\<close>

definition anchor_input :: "runtime_config \<Rightarrow> header \<Rightarrow> header \<Rightarrow> TaikoAnchorTxInput" where
  "anchor_input cfg parent_block anchor =
     \<lparr>anchor_block_id = number anchor, anchor_state_root = state_root anchor,
      parent_gas_used = ucast (gas_used parent_block),
      base_fee_config = anchor_base_fee_config_from (baseFeeConfig (pacaya_config cfg)), signal_slots = []\<rparr>"

definition assemble_anchor_tx ::
  "runtime_config \<Rightarrow> 'sig builder_env \<Rightarrow> header \<Rightarrow> header \<Rightarrow> u64 \<Rightarrow> (rpc_error, tx_envelope) outcome" where
  "assemble_anchor_tx cfg env parent_block anchor fee =
     build_anchor_v3_tx (env_codec env) (env_sign env) (env_anchor env) (env_nonce env (block_hash parent_block))
       (anchor_input cfg parent_block anchor) (ucast fee)"

definition build_block_body :: "runtime_config \<Rightarrow> block_payload \<Rightarrow> bytes \<Rightarrow> build_request_body option" where
  "build_block_body cfg payload compressed_encoded_tx_list =
     map_option (\<lambda>extra.
       \<lparr>body_executable_data =
          \<lparr>exec_parent_hash = block_hash (payload_parent payload), exec_fee_recipient = operator_address cfg,
           exec_block_number = number (payload_parent payload) + 1,
           exec_gas_limit = ucast (blockMaxGasLimit (pacaya_config cfg)) + TAIKO_ANCHOR_V3_GAS_LIMIT,
           exec_timestamp = payload_timestamp payload, exec_transactions = compressed_encoded_tx_list,
           exec_extra_data = extra, exec_base_fee_per_gas = payload_base_fee payload\<rparr>,
        end_of_sequencing = payload_is_last payload\<rparr>)
     (encoded_extra_data (baseFeeConfig (pacaya_config cfg)))"

definition finalize_block ::
  "runtime_config \<Rightarrow> 'sig builder_env \<Rightarrow> header \<Rightarrow> block_payload \<Rightarrow> (builder_error, builder_response) outcome" where
  "finalize_block cfg env anchor payload =
     and_then (map_outcome_err Builder_Rpc
         (assemble_anchor_tx cfg env (payload_parent payload) anchor (payload_base_fee payload))) (\<lambda>anchor_tx.
     let final_tx_list = anchor_tx # tx_list_without_anchor_tx payload
     in case env_compress env final_tx_list of
          None \<Rightarrow> Err ZlibCompression
        | Some compressed \<Rightarrow>
            and_then (or_panic (build_block_body cfg payload compressed)) (\<lambda>body.
            case env_preconf env body of
              Inl e \<Rightarrow> Err (PreconfClient e)
            | Inr new_block \<Rightarrow>
                Ok \<lparr>resp_preconfirmed_block = preconfirmed_new new_block (tx_list_without_anchor_tx payload),
                    resp_anchor = anchor\<rparr>))"

datatype preconf_mismatch =
    Timestamp_Mismatch | Base_Fee_Mismatch | Gas_Limit_Mismatch | Extra_Data_Mismatch
  | Beneficiary_Mismatch | Number_Mismatch | Parent_Hash_Mismatch

definition sanity_check_preconf_block :: "header \<Rightarrow> executable_data \<Rightarrow> preconf_mismatch list" where
  "sanity_check_preconf_block new_block data =
     (if timestamp new_block \<noteq> exec_timestamp data then [Timestamp_Mismatch] else []) @
     (case base_fee_per_gas new_block of
        None \<Rightarrow> []
      | Some bf \<Rightarrow> if bf \<noteq> exec_base_fee_per_gas data then [Base_Fee_Mismatch] else []) @
     (if gas_limit new_block \<noteq> exec_gas_limit data then [Gas_Limit_Mismatch] else []) @
     (if extra_data new_block \<noteq> exec_extra_data data then [Extra_Data_Mismatch] else []) @
     (if beneficiary new_block \<noteq> exec_fee_recipient data then [Beneficiary_Mismatch] else []) @
     (if number new_block \<noteq> exec_block_number data then [Number_Mismatch] else []) @
     (if parent_hash new_block \<noteq> exec_parent_hash data then [Parent_Hash_Mismatch] else [])"

section \<open>Finalizing in the background\<close>

text \<open>
  The blocks in flight: the state, the background tasks that finalize a block, each with its anchor and its
  payload, and the channel of responses that the driver has not taken yet. A background task that succeeds
  sends its response; one that fails releases the state itself.
\<close>

record in_flight =
  fl_state :: builder_state
  fl_running :: "(header \<times> block_payload) list"
  fl_channel :: "builder_response list"

definition in_flight_new :: in_flight where
  "in_flight_new = \<lparr>fl_state = builder_state_new, fl_running = [], fl_channel = []\<rparr>"

definition trigger_finalize_block :: "header \<Rightarrow> block_payload \<Rightarrow> in_flight \<Rightarrow> in_flight" where
  "trigger_finalize_block anchor payload f =
     f\<lparr>fl_state := set_finalizing (number (payload_parent payload) + 1) (fl_state f),
       fl_running := fl_running f @ [(anchor, payload)]\<rparr>"

text \<open>Task number \<open>i\<close> ends with the given result; without such a task nothing ends.\<close>

definition finalize_task_done :: "nat \<Rightarrow> (builder_error, builder_response) outcome \<Rightarrow> in_flight \<Rightarrow> in_flight" where
  "finalize_task_done i result f =
     (if length (fl_running f) \<le> i then f
      else
        let f = f\<lparr>fl_running := take i (fl_running f) @ drop (Suc i) (fl_running f)\<rparr>
        in case result of
             Ok res \<Rightarrow> f\<lparr>fl_channel := fl_channel f @ [res]\<rparr>
           | Err e \<Rightarrow> f\<lparr>fl_state := watch_send Idle (fl_state f)\<rparr>
           | Panic \<Rightarrow> f)"

definition BLOCK_ALREADY_EXISTS_ERROR :: string where
  "BLOCK_ALREADY_EXISTS_ERROR = ''is less than or equal to the current head L1 origin block ID''"

definition INVALID_OPERATOR_ERROR :: string where "INVALID_OPERATOR_ERROR = ''invalid operator''"

text \<open>Whether a failure is counted: the two known causes are only logged.\<close>

definition counts_as_failure :: "string \<Rightarrow> bool" where
  "counts_as_failure err_str =
     (\<not> contains_str err_str BLOCK_ALREADY_EXISTS_ERROR \<and> \<not> contains_str err_str INVALID_OPERATOR_ERROR)"

definition watch_ok :: "builder_state \<Rightarrow> bool" where
  "watch_ok s = (state_seen s \<le> state_version s)"

section \<open>Properties\<close>

lemma is_finalizing_simps [simp]:
  "is_finalizing (set_finalizing n s) = Some n" "is_finalizing (watch_send Idle s) = None"
  "is_finalizing builder_state_new = None"
  by (simp_all add: is_finalizing_def set_finalizing_def watch_send_def builder_state_new_def)

definition example_payload :: block_payload where
  "example_payload =
     \<lparr>payload_parent = (example_header 4 1000)\<lparr>gas_used := 100\<rparr>, payload_base_fee = 10, payload_timestamp = 1002,
      payload_is_last = False, tx_list_without_anchor_tx = [[1, 2]]\<rparr>"

text \<open>
  Waiting for the builder does not wait for it to be idle. The state that \<open>set_finalizing\<close> sends has
  not been seen by the receiver, so the first wait returns at once while the block is still being
  finalized. A second wait then stays pending when the block is finished successfully, because only the
  driver, which is the one that waits, takes the response and so releases the state.
\<close>

theorem wait_for_idle_does_not_wait:
  assumes "watch_ok (fl_state f)" and "fl_state f' = set_finalizing n (fl_state f)"
  shows "\<exists>s. wait_for_idle (fl_state f') = Some s \<and> is_finalizing s = Some n \<and> wait_for_idle s = None \<and>
    wait_for_idle (fl_state (finalize_task_done i (Ok res) (f'\<lparr>fl_state := s\<rparr>))) = None"
proof -
  let ?s = "(fl_state f')\<lparr>state_seen := state_version (fl_state f')\<rparr>"
  have "wait_for_idle (fl_state f') = Some ?s"
    using assms by (simp add: wait_for_idle_def is_finalizing_def watch_changed_def set_finalizing_def watch_send_def watch_ok_def)
  moreover have "is_finalizing ?s = Some n"
    using assms by (simp add: is_finalizing_def set_finalizing_def watch_send_def)
  moreover have "watch_changed ?s = None" by (simp add: watch_changed_def)
  ultimately show ?thesis
    by (intro exI [of _ ?s]) (simp add: wait_for_idle_def finalize_task_done_def)
qed

theorem wait_for_idle_does_not_wait_witness:
  "\<exists>s. wait_for_idle (set_finalizing 5 builder_state_new) = Some s \<and> is_finalizing s = Some 5 \<and> wait_for_idle s = None"
  using wait_for_idle_does_not_wait [of in_flight_new "in_flight_new\<lparr>fl_state := set_finalizing 5 builder_state_new\<rparr>" 5]
  by (auto simp: in_flight_new_def watch_ok_def builder_state_new_def)

text \<open>
  A payload is only dropped when it is empty and an empty block may be skipped; otherwise it has the
  parent, the timestamp and the mark of the request, and the transactions that were asked for, or those of
  the engine.
\<close>

theorem build_payload_correct:
  assumes "build_payload cfg env req = Ok result"
  shows "\<exists>fee. (\<forall>f. brq_base_fee req = Some f \<longrightarrow> fee = f) \<and>
    (let max_size = (case brq_max_size req of Some s \<Rightarrow> s | None \<Rightarrow> max_block_size_bytes (preconf cfg));
         txs = (case brq_transaction_list req of Some txs \<Rightarrow> txs | None \<Rightarrow> fetch_tx_lists cfg env fee max_size)
     in case result of
          None \<Rightarrow> txs = [] \<and> \<not> brq_force_empty req \<and> \<not> brq_is_last req \<and> \<not> enable_building_empty_blocks (preconf cfg)
        | Some p \<Rightarrow> tx_list_without_anchor_tx p = txs \<and> payload_base_fee p = fee \<and> payload_parent p = brq_parent req \<and>
            payload_timestamp p = brq_timestamp req \<and> payload_is_last p = brq_is_last req \<and>
            (txs = [] \<longrightarrow> brq_force_empty req \<or> brq_is_last req \<or> enable_building_empty_blocks (preconf cfg)))"
proof -
  from assms obtain fee where fee: "(case brq_base_fee req of
      Some fee \<Rightarrow> Ok fee
    | None \<Rightarrow> map_outcome_err ChainIO
        (get_next_block_base_fee cfg env (ucast (gas_used (brq_parent req))) (brq_timestamp req))) = Ok fee"
    by (auto simp: build_payload_def)
  show ?thesis
    using assms fee
    by (intro exI [of _ fee]) (auto simp: build_payload_def Let_def split: option.splits if_splits)
qed

definition example_env_builder :: "unit builder_env" where
  "example_env_builder =
     \<lparr>env_codec = example_codec, env_sign = \<lambda>k h. Ok (), env_anchor = \<lparr>anchor_chain_id = 167, anchor_address = 4\<rparr>,
      env_base_fee = \<lambda>g t c. Inr (10, 0, 0), env_nonce = \<lambda>h. Inr 0, env_tx_pool = \<lambda>p. Inr None,
      env_compress = \<lambda>txs. Some (concat txs), env_preconf = \<lambda>body. Inr (example_header 5 1002)\<rparr>"

theorem build_payload_correct_witness:
  "build_payload example_config example_env_builder (build_request_new 1002 (example_header 4 1000)) = Ok None \<and>
   fetch_tx_lists example_config example_env_builder 10 126976 = []"
proof -
  let ?req = "build_request_new 1002 (example_header 4 1000)"
  have none: "build_payload example_config example_env_builder ?req = Ok None"
    by (simp add: build_payload_def build_request_new_def get_next_block_base_fee_def get_base_fee_v2_def
        fetch_tx_lists_def example_env_builder_def example_config_def default_preconf_opts_def)
  from build_payload_correct [OF none] have "fetch_tx_lists example_config example_env_builder 10 126976 = []"
    by (auto simp: build_request_new_def fetch_tx_lists_def example_env_builder_def)
  with none show ?thesis by simp
qed

text \<open>
  C34. A finalized block is the child of its parent and carries its anchor: the body that is sent names the
  number after the parent, the hash of the parent and the operator; its transactions are the compression
  of an anchor transaction followed by those of the payload, and whoever finds that anchor transaction in
  front of a block reads the number and the state root of the given anchor. The response pairs the block
  with that anchor.
\<close>

theorem finalized_block_carries_its_anchor:
  assumes "finalize_block cfg env anchor payload = Ok res"
    and "codec_ok (env_codec env) (anchor_call_from_input (anchor_input cfg (payload_parent payload) anchor))"
  shows "\<exists>tx body new_block.
    env_compress env (tx # tx_list_without_anchor_tx payload) = Some (exec_transactions (body_executable_data body)) \<and>
    env_preconf env body = Inr new_block \<and>
    exec_block_number (body_executable_data body) = number (payload_parent payload) + 1 \<and>
    exec_parent_hash (body_executable_data body) = block_hash (payload_parent payload) \<and>
    exec_fee_recipient (body_executable_data body) = operator_address cfg \<and>
    end_of_sequencing body = payload_is_last payload \<and>
    resp_anchor res = anchor \<and> pb_number (resp_preconfirmed_block res) = number new_block \<and>
    tx_list (resp_preconfirmed_block res) = tx_list_without_anchor_tx payload \<and>
    (\<forall>b rest. transactions b = Full_Txs ((TAIKO_GOLDEN_TOUCH_ACCOUNT, tx) # rest) \<longrightarrow>
       block_anchor_block_id (env_codec env) b = Inr (number anchor) \<and>
       anchor_tx (env_codec env) b = Inr (anchor_input cfg (payload_parent payload) anchor))"
proof -
  from assms(1) obtain tx where tx:
    "assemble_anchor_tx cfg env (payload_parent payload) anchor (payload_base_fee payload) = Ok tx"
    by (cases "assemble_anchor_tx cfg env (payload_parent payload) anchor (payload_base_fee payload)")
       (simp_all add: finalize_block_def)
  with assms(1) obtain compressed where c: "env_compress env (tx # tx_list_without_anchor_tx payload) = Some compressed"
    by (cases "env_compress env (tx # tx_list_without_anchor_tx payload)") (simp_all add: finalize_block_def)
  with assms(1) tx obtain body where bd: "build_block_body cfg payload compressed = Some body"
    by (auto simp: finalize_block_def)
  with assms(1) tx c obtain new_block where n: "env_preconf env body = Inr new_block"
    by (cases "env_preconf env body") (simp_all add: finalize_block_def)
  have r: "res = \<lparr>resp_preconfirmed_block = preconfirmed_new new_block (tx_list_without_anchor_tx payload), resp_anchor = anchor\<rparr>"
    using assms(1) tx c bd n by (simp add: finalize_block_def)
  have "anchor_tx (env_codec env) blk = Inr (anchor_input cfg (payload_parent payload) anchor)"
    if "transactions blk = Full_Txs ((TAIKO_GOLDEN_TOUCH_ACCOUNT, tx) # rest)" for blk rest
    using built_anchor_is_decoded [OF assms(2) tx [unfolded assemble_anchor_tx_def] that] .
  with c bd n r show ?thesis
    by (intro exI [of _ tx] exI [of _ body] exI [of _ new_block])
       (auto simp: build_block_body_def preconfirmed_new_def block_anchor_block_id_def anchor_input_def)
qed

definition example_anchor_header :: header where
  "example_anchor_header = (example_header 21 900)\<lparr>state_root := 5\<rparr>"

theorem finalized_block_carries_its_anchor_witness:
  "\<exists>tx. \<exists>body :: build_request_body. env_compress example_env_builder (tx # [[1, 2]]) = Some (exec_transactions (body_executable_data body)) \<and>
     exec_block_number (body_executable_data body) = 5 \<and> end_of_sequencing body = False"
proof -
  let ?res = "\<lparr>resp_preconfirmed_block = preconfirmed_new (example_header 5 1002) [[1, 2]], resp_anchor = example_anchor_header\<rparr>"
  have input: "anchor_input example_config (payload_parent example_payload) example_anchor_header = example_input"
    by (simp add: anchor_input_def example_config_def example_payload_def example_anchor_header_def example_header_def
        example_input_def anchor_base_fee_config_from_def)
  have fin: "finalize_block example_config example_env_builder example_anchor_header example_payload = Ok ?res"
    by (simp add: finalize_block_def assemble_anchor_tx_def build_anchor_v3_tx_def example_env_builder_def
        build_block_body_def extra_data_is_big_endian) (simp add: example_payload_def)
  have ok: "codec_ok (env_codec example_env_builder)
      (anchor_call_from_input (anchor_input example_config (payload_parent example_payload) example_anchor_header))"
    unfolding input using example_codec_ok by (simp add: example_env_builder_def)
  obtain tx and body :: build_request_body where w:
    "env_compress example_env_builder (tx # tx_list_without_anchor_tx example_payload) =
       Some (exec_transactions (body_executable_data body))"
    "exec_block_number (body_executable_data body) = number (payload_parent example_payload) + 1"
    "end_of_sequencing body = payload_is_last example_payload"
    using finalized_block_carries_its_anchor [OF fin ok] by (elim exE conjE) (rule that, assumption+)
  have "tx_list_without_anchor_tx example_payload = [[1, 2]]" "number (payload_parent example_payload) + 1 = 5"
    "payload_is_last example_payload = False"
    by (simp_all add: example_payload_def example_header_def)
  with w show ?thesis by (intro exI [of _ tx] exI [of _ body]) simp
qed

end
