(* ===== verification/Chain_State.thy ===== *)
theory Chain_State
  imports Builder Submission
begin

text \<open>
  The state of the two chains that the driver keeps, \<open>crates/driver/src/state.rs\<close>, and the token of
  \<open>crates/chainio/src/taiko/token.rs\<close>. The answers of the clients are arguments. The balances that a
  background task shows are in \<open>Compression\<close>, with the doubles; the flag of the router is stored by a background task
  when its answer arrives (\<open>store_preconf_router\<close>).
\<close>

datatype driver_error =
    Driver_Transport rpc_error
  | Driver_RuntimeConfig string
  | Driver_Syncer syncer_error
  | InsufficientTokenBalance string u256 u256
  | Driver_Contract rpc_error
  | Driver_BatchProposal "unit proposal_error"
  | Driver_BlockBuilder builder_error
  | Driver_Custom string

section \<open>The L1 state\<close>

record l1_state =
  l1_cfg :: runtime_config
  tip :: header
  l1_anchor :: header
  epoch :: u64
  l1_head_slot :: u64
  preconf_router_set :: bool

text \<open>If the address cannot be fetched, the router counts as set.\<close>

definition router_is_set :: "'e + address \<Rightarrow> bool" where
  "router_is_set answer = (case answer of Inl _ \<Rightarrow> True | Inr a \<Rightarrow> a \<noteq> 0)"

definition l1_state_new ::
  "runtime_config \<Rightarrow> rpc_error + header \<Rightarrow> (u64 \<Rightarrow> rpc_error + header) \<Rightarrow> rpc_error + address \<Rightarrow>
   (rpc_error, l1_state) outcome" where
  "l1_state_new cfg latest header_at get_preconf_router =
     and_then (map_err id latest) (\<lambda>tip.
     let anchor_number = sat_sub (number tip) (anchor_block_lag (preconf cfg))
     in and_then (map_err id (header_at anchor_number)) (\<lambda>anchor.
        and_then (or_panic (cfg_timestamp_to_l1_slot cfg (timestamp tip))) (\<lambda>head_slot.
        Ok \<lparr>l1_cfg = cfg, tip = tip, l1_anchor = anchor, epoch = number tip div EPOCH_SLOTS,
            l1_head_slot = head_slot, preconf_router_set = router_is_set get_preconf_router\<rparr>)))"

definition update_anchor :: "(u64 \<Rightarrow> rpc_error + header) \<Rightarrow> u64 \<Rightarrow> l1_state \<Rightarrow> l1_state \<times> (rpc_error + unit)" where
  "update_anchor header_at new l1 =
     (case header_at new of
        Inl e \<Rightarrow> (l1, Inl e)
      | Inr new_anchor \<Rightarrow> (l1\<lparr>l1_anchor := new_anchor\<rparr>, Inr ()))"

text \<open>The state that is left behind, also by an error.\<close>

definition l1_sync :: "(u64 \<Rightarrow> rpc_error + header) \<Rightarrow> header \<Rightarrow> l1_state \<Rightarrow> l1_state \<times> (driver_error + unit)" where
  "l1_sync header_at l1_header l1 =
     (let num = number l1_header;
          l1 = l1\<lparr>tip := l1_header\<rparr>;
          new_safe_anchor = sat_sub num (anchor_block_lag (preconf (l1_cfg l1)))
      in if number (l1_anchor l1) < new_safe_anchor
         then (case update_anchor header_at new_safe_anchor l1 of
                 (l1, Inl e) \<Rightarrow> (l1, Inl (Driver_Transport e))
               | (l1, Inr _) \<Rightarrow> (l1, Inr ()))
         else (l1, Inr ()))"

definition store_preconf_router :: "'e + address \<Rightarrow> l1_state \<Rightarrow> l1_state" where
  "store_preconf_router answer l1 = l1\<lparr>preconf_router_set := router_is_set answer\<rparr>"

definition is_new_epoch :: "l1_state \<Rightarrow> u64 \<Rightarrow> bool" where
  "is_new_epoch l1 slot = (slot div EPOCH_SLOTS > epoch l1)"

section \<open>Balances\<close>

definition assert_token_balance :: "string \<Rightarrow> u256 \<Rightarrow> u256 \<Rightarrow> driver_error + unit" where
  "assert_token_balance name current required =
     (if current < required then Inl (InsufficientTokenBalance name current required) else Inr ())"

definition get_token_balances :: "rpc_error + u256 \<Rightarrow> rpc_error + u256 \<Rightarrow> driver_error + u256 \<times> u256" where
  "get_token_balances get_balance get_balance_of =
     (case get_balance of
        Inl e \<Rightarrow> Inl (Driver_Custom ''Failed to get ETH balance of operator'')
      | Inr eth \<Rightarrow>
          (case get_balance_of of
             Inl e \<Rightarrow> Inl (Driver_Custom ''Failed to get TKO balance of operator'')
           | Inr tko \<Rightarrow> Inr (eth, tko)))"

definition assert_token_balances ::
  "runtime_config \<Rightarrow> rpc_error + u256 \<Rightarrow> rpc_error + u256 \<Rightarrow> driver_error + unit" where
  "assert_token_balances cfg get_balance get_balance_of =
     (case get_token_balances get_balance get_balance_of of
        Inl e \<Rightarrow> Inl e
      | Inr (eth_balance, taiko_balance) \<Rightarrow>
          (case assert_token_balance ''ETH'' eth_balance (min_eth_balance cfg) of
             Inl e \<Rightarrow> Inl e
           | Inr _ \<Rightarrow> assert_token_balance ''TAIKO'' taiko_balance (min_taiko_balance cfg)))"

text \<open>
  The token: the allowance, then the answers to sending the approval and to waiting for its receipt,
  which is its status. The result also says what amount was approved, if any.
\<close>

definition check_and_approve ::
  "u256 \<Rightarrow> rpc_error + u256 \<Rightarrow> (u256 \<Rightarrow> rpc_error + unit) \<Rightarrow> rpc_error + bool \<Rightarrow> u256 option \<times> (rpc_error + unit)" where
  "check_and_approve min_allowance allowance send_approve get_receipt =
     (case allowance of
        Inl e \<Rightarrow> (None, Inl e)
      | Inr current \<Rightarrow>
          if current < min_allowance
          then (case send_approve (- 1) of
                  Inl e \<Rightarrow> (None, Inl e)
                | Inr _ \<Rightarrow>
                    (Some (- 1),
                     case get_receipt of
                       Inl e \<Rightarrow> Inl e
                     | Inr status \<Rightarrow>
                         if status then Inr ()
                         else Inl (OtherRpc ''Failed to approve spender to spend $TAIKO'')))
          else (None, Inr ()))"

definition approve_taiko_spending ::
  "rpc_error + u256 \<Rightarrow> (u256 \<Rightarrow> rpc_error + unit) \<Rightarrow> rpc_error + bool \<Rightarrow> u256 option \<times> (driver_error + unit)" where
  "approve_taiko_spending allowance send_approve get_receipt =
     (let min_allowance = (- 1 :: u256) div 2
      in case check_and_approve min_allowance allowance send_approve get_receipt of
           (sent, Inl e) \<Rightarrow> (sent, Inl (Driver_Custom ''Failed to check and approve $TKO tokens for taiko inbox''))
         | (sent, Inr _) \<Rightarrow> (sent, Inr ()))"

section \<open>The L2 state\<close>

record l2_state =
  head_block :: u64
  head_l1_origin :: u64

definition l2_state_new ::
  "rpc_error + u64 \<Rightarrow> rpc_error + Stats2 \<Rightarrow> (u64 \<Rightarrow> rpc_error + InboxBatch) \<Rightarrow> driver_error + l2_state" where
  "l2_state_new get_block_number get_stats2 get_batch =
     (case get_block_number of
        Inl e \<Rightarrow> Inl (Driver_Transport e)
      | Inr head \<Rightarrow>
          (case get_head_l1_origin get_stats2 get_batch of
             Inl e \<Rightarrow> Inl (Driver_Contract e)
           | Inr origin \<Rightarrow> Inr \<lparr>head_block = head, head_l1_origin = origin\<rparr>))"

section \<open>Waiting for the clients\<close>

text \<open>
  \<open>wait_for_clients_sync\<close> of \<open>helpers.rs\<close>: what the two clients answer in each round; \<open>None\<close> when the
  loop is still running at the end. A sync status carries the highest block.
\<close>

datatype sync_status = Not_Syncing | Sync_Info u256

fun wait_for_clients_sync :: "(rpc_error + sync_status \<times> sync_status) list \<Rightarrow> (driver_error + unit) option" where
  "wait_for_clients_sync [] = None"
| "wait_for_clients_sync (Inl e # rounds) = Some (Inl (Driver_Transport e))"
| "wait_for_clients_sync (Inr (Not_Syncing, Not_Syncing) # rounds) = Some (Inr ())"
| "wait_for_clients_sync (Inr (Not_Syncing, Sync_Info highest) # rounds) =
     (if highest = 0 then Some (Inr ()) else wait_for_clients_sync rounds)"
| "wait_for_clients_sync (Inr (Sync_Info highest, Not_Syncing) # rounds) =
     (if highest = 0 then Some (Inr ()) else wait_for_clients_sync rounds)"
| "wait_for_clients_sync (Inr (Sync_Info _, Sync_Info _) # rounds) = wait_for_clients_sync rounds"

section \<open>Properties\<close>

text \<open>The node answers a request for a number with the header of that number.\<close>

definition answers_by_number :: "(u64 \<Rightarrow> rpc_error + header) \<Rightarrow> bool" where
  "answers_by_number header_at = (\<forall>n h. header_at n = Inr h \<longrightarrow> number h = n)"

text \<open>
  C35. The cached anchor never moves back, whatever the head of L1 does and also when a request fails; when
  the requests succeed, it is at most the configured lag behind the new head.
\<close>

theorem anchor_never_moves_back:
  fixes l1 :: l1_state
  assumes "answers_by_number header_at" and "l1_sync header_at h l1 = (l1', result)"
  shows "number (l1_anchor l1) \<le> number (l1_anchor l1') \<and> tip l1' = h \<and>
    (result = Inr () \<longrightarrow> sat_sub (number h) (anchor_block_lag (preconf (l1_cfg l1))) \<le> number (l1_anchor l1')) \<and>
    (number (l1_anchor l1') \<noteq> number (l1_anchor l1) \<longrightarrow> number (l1_anchor l1') \<le> number h)"
proof -
  let ?safe = "sat_sub (number h) (anchor_block_lag (preconf (l1_cfg l1)))"
  have le: "?safe \<le> number h" by (rule sat_sub_le)
  show ?thesis
    using assms le
    by (cases "header_at ?safe")
       (auto simp: l1_sync_def update_anchor_def Let_def answers_by_number_def split: if_splits)
qed

definition example_l1 :: l1_state where
  "example_l1 =
     \<lparr>l1_cfg = example_config, tip = example_header 100 1000, l1_anchor = example_header 96 900, epoch = 3,
      l1_head_slot = 100, preconf_router_set = True\<rparr>"

theorem anchor_never_moves_back_witness:
  "number (l1_anchor (fst (l1_sync (\<lambda>n. Inr (example_header n 0)) (example_header 103 1100) example_l1))) = 99"
proof -
  have ok: "answers_by_number (\<lambda>n. Inr (example_header n 0))"
    by (simp add: answers_by_number_def example_header_def)
  show ?thesis
    using anchor_never_moves_back [OF ok surjective_pairing [of "l1_sync (\<lambda>n. Inr (example_header n 0)) (example_header 103 1100) example_l1"]]
    by (simp add: l1_sync_def update_anchor_def example_l1_def example_config_def default_preconf_opts_def example_header_def
        sat_sub_def)
qed

text \<open>
  The first epoch is computed from a block number: until the epoch of a slot is above the number of the
  first tip divided by the slots of an epoch, no epoch counts as new.
\<close>

lemma first_epoch_is_a_block_number:
  assumes "l1_state_new cfg latest header_at router = Ok l1" and "latest = Inr h"
    and "slot div EPOCH_SLOTS \<le> number h div EPOCH_SLOTS"
  shows "\<not> is_new_epoch l1 slot"
  using assms by (auto simp: l1_state_new_def is_new_epoch_def Let_def)

text \<open>
  Starting up goes on only with enough of both balances and with a sufficient allowance: an allowance
  below half of the maximum is raised to the maximum, once, and then its receipt must be a success.
\<close>

theorem startup_checks_balances_and_allowance:
  "(assert_token_balances cfg eth tko = Inr () \<longleftrightarrow>
      (\<exists>e t. eth = Inr e \<and> tko = Inr t \<and> min_eth_balance cfg \<le> e \<and> min_taiko_balance cfg \<le> t)) \<and>
   (snd (approve_taiko_spending allowance send receipt) = Inr () \<longleftrightarrow>
      (\<exists>a. allowance = Inr a \<and> (2 ^ 255 - 1 \<le> unat a \<or> send (- 1) = Inr () \<and> receipt = Inr True))) \<and>
   (\<forall>amount. fst (approve_taiko_spending allowance send receipt) = Some amount \<longrightarrow> amount = - 1)"
proof (intro conjI)
  show "assert_token_balances cfg eth tko = Inr () \<longleftrightarrow>
      (\<exists>e t. eth = Inr e \<and> tko = Inr t \<and> min_eth_balance cfg \<le> e \<and> min_taiko_balance cfg \<le> t)"
    by (auto simp: assert_token_balances_def get_token_balances_def assert_token_balance_def not_less split: sum.splits)
  have "unat ((- 1 :: u256) div 2) = (2 ^ 256 - 1) div 2"
    by (simp add: unat_div unat_minus_one_word)
  then have half: "a < (- 1 :: u256) div 2 \<longleftrightarrow> unat a < 2 ^ 255 - 1" for a
    by (simp add: word_less_nat_alt)
  show "snd (approve_taiko_spending allowance send receipt) = Inr () \<longleftrightarrow>
      (\<exists>a. allowance = Inr a \<and> (2 ^ 255 - 1 \<le> unat a \<or> send (- 1) = Inr () \<and> receipt = Inr True))"
    unfolding approve_taiko_spending_def check_and_approve_def Let_def half
    by (auto simp: not_less split: sum.splits if_splits)
  show "\<forall>amount. fst (approve_taiko_spending allowance send receipt) = Some amount \<longrightarrow> amount = - 1"
    by (auto simp: approve_taiko_spending_def check_and_approve_def Let_def split: sum.splits if_splits)
qed

theorem startup_checks_balances_and_allowance_witness:
  "snd (approve_taiko_spending (Inr 5) (\<lambda>amount. Inr ()) (Inr True)) = Inr () \<and>
   snd (approve_taiko_spending (Inr 5) (\<lambda>amount. Inr ()) (Inr False)) \<noteq> Inr () \<and>
   assert_token_balances example_config (Inr 1) (Inr 2) = Inr ()"
  using startup_checks_balances_and_allowance [of example_config "Inr 1" "Inr 2" "Inr 5" "\<lambda>amount. Inr ()" "Inr True"]
    startup_checks_balances_and_allowance [of example_config "Inr 1" "Inr 2" "Inr 5" "\<lambda>amount. Inr ()" "Inr False"]
  by (simp add: example_config_def)

end
