(* ===== verification/Driver.thy ===== *)
theory Driver
  imports Chain_State
begin

text \<open>
  The driver, \<open>crates/driver/src/driver.rs\<close>: its state and the handlers of its event loop, each run to
  its end as the loop does. What the clients answer during a handler is its environment. A handler can
  panic (an \<open>expect\<close>, a division by a zero block time), and it can wait forever for the block builder:
  the background tasks that finish meanwhile are an argument, and when the wait is still pending after
  them the handler hangs. Metrics, logs and the subscriptions themselves have no model.
\<close>

datatype 'a handled = Done 'a | Panicked | Hangs

fun then_h :: "'a handled \<Rightarrow> ('a \<Rightarrow> 'b handled) \<Rightarrow> 'b handled" where
  "then_h (Done x) f = f x"
| "then_h Panicked f = Panicked"
| "then_h Hangs f = Hangs"

lemma then_h_DoneE:
  assumes "then_h m f = Done y" obtains x where "m = Done x" "f x = Done y"
  using assms by (cases m) auto

fun expect :: "'a option \<Rightarrow> 'a handled" where
  "expect None = Panicked"
| "expect (Some x) = Done x"

record driver =
  d_cfg :: runtime_config
  d_l1 :: l1_state
  d_l2 :: l2_state
  d_status :: driver_status
  d_builder :: in_flight
  d_handle :: "submission_cmd list"
  d_lookahead :: lookahead
  d_outstanding :: batch

text \<open>One round of the loop of \<open>sync_and_propose\<close>, and the answers of one handler.\<close>

type_synonym background = "(nat \<times> (builder_error, builder_response) outcome) list"

record sync_round =
  r_current_operator :: "rpc_error + address"
  r_next_operator :: "rpc_error + address"
  r_now :: u64
  r_instant :: instant
  r_background :: background
  r_sync :: sync_env

record 'sig driver_env =
  de_now :: u64
  de_instant :: instant
  de_current_operator :: "rpc_error + address"
  de_next_operator :: "rpc_error + address"
  de_l1_header :: "u64 \<Rightarrow> rpc_error + header"
  de_stats2 :: "rpc_error + Stats2"
  de_batch :: "u64 \<Rightarrow> rpc_error + InboxBatch"
  de_l2_header :: "u64 option \<Rightarrow> rpc_error + header"
  de_preconf_status :: "preconf_client_error + u64"
  de_max_size :: u64
  de_background :: background
  de_rounds :: "sync_round list"
  de_download :: "u64 \<Rightarrow> u64 \<Rightarrow> syncer_error + anchored_block list"
  de_builder :: "'sig builder_env"
  de_estimate :: "nat \<Rightarrow> usize \<Rightarrow> usize"
  de_estimate_reanchor :: "nat \<Rightarrow> usize \<Rightarrow> usize"

section \<open>The status\<close>

definition update_status :: "driver_status \<Rightarrow> driver \<Rightarrow> driver" where
  "update_status new_status d =
     (if \<not> preconf_router_set (d_l1 d) then d\<lparr>d_status := Inactive\<rparr>
      else if d_status d \<noteq> new_status then d\<lparr>d_status := new_status\<rparr>
      else d)"

definition sync_lookahead ::
  "u64 \<Rightarrow> rpc_error + address \<Rightarrow> rpc_error + address \<Rightarrow> u64 \<Rightarrow> instant \<Rightarrow> driver \<Rightarrow> driver handled" where
  "sync_lookahead slot current next time inst d =
     (case lookahead_sync (d_lookahead d) slot current next time inst of
        (la, st) \<Rightarrow> then_h (expect st) (\<lambda>st. Done (update_status st (d\<lparr>d_lookahead := la\<rparr>))))"

definition update_head_l1_origin :: "'sig driver_env \<Rightarrow> driver \<Rightarrow> driver \<times> (driver_error + unit)" where
  "update_head_l1_origin env d =
     (case get_head_l1_origin (de_stats2 env) (de_batch env) of
        Inl e \<Rightarrow> (d, Inl (Driver_Contract e))
      | Inr protocol_value \<Rightarrow> (d\<lparr>d_l2 := (d_l2 d)\<lparr>head_l1_origin := protocol_value\<rparr>\<rparr>, Inr ()))"

section \<open>The outstanding batch\<close>

definition update_outstanding_batch_anchor_if_needed :: "driver \<Rightarrow> driver" where
  "update_outstanding_batch_anchor_if_needed d =
     (if blocks (d_outstanding d) = [] then
        (if is_finalizing (fl_state (d_builder d)) \<noteq> None then d
         else d\<lparr>d_outstanding := change_anchor (d_outstanding d) (l1_anchor (d_l1 d))\<rparr>)
      else d)"

text \<open>Waiting for a change of the builder while the background tasks finish one after the other.\<close>

fun await_changed :: "background \<Rightarrow> in_flight \<Rightarrow> in_flight handled" where
  "await_changed [] f =
     (case watch_changed (fl_state f) of
        Some s \<Rightarrow> Done (f\<lparr>fl_state := s\<rparr>)
      | None \<Rightarrow> Hangs)"
| "await_changed ((i, result) # bg) f =
     (case watch_changed (fl_state f) of
        Some s \<Rightarrow> Done (f\<lparr>fl_state := s\<rparr>)
      | None \<Rightarrow> await_changed bg (finalize_task_done i result f))"

definition await_idle :: "background \<Rightarrow> driver \<Rightarrow> driver handled" where
  "await_idle bg d =
     (if is_finalizing (fl_state (d_builder d)) \<noteq> None
      then then_h (await_changed bg (d_builder d)) (\<lambda>f. Done (d\<lparr>d_builder := f\<rparr>))
      else Done d)"

definition submit :: "batch \<Rightarrow> u64 \<Rightarrow> driver \<Rightarrow> driver handled" where
  "submit b deadline d =
     then_h (expect (trigger_batch_submission (d_handle d) b deadline)) (\<lambda>h. Done (d\<lparr>d_handle := h\<rparr>))"

definition submit_local_outstanding_batch :: "background \<Rightarrow> u64 \<Rightarrow> driver \<Rightarrow> driver handled" where
  "submit_local_outstanding_batch bg deadline d =
     (let new_anchor = l1_anchor (d_l1 d)
      in then_h (await_idle bg d) (\<lambda>d.
         let (b, rest) = take_and_reset (d_outstanding d) new_anchor
         in submit b deadline (d\<lparr>d_outstanding := rest\<rparr>)))"

section \<open>Reposting blocks\<close>

definition repost_request ::
  "reorg_reason list \<Rightarrow> (u64 \<rightharpoonup> u64) \<Rightarrow> preconfirmed_block \<Rightarrow> header \<Rightarrow> driver_error + build_payload_request" where
  "repost_request reasons fees block parent =
     (let req = with_force_empty True
                  (with_transaction_list (tx_list block) (build_request_new (pb_timestamp block) parent))
      in if only_reanchoring reasons
         then (case fees (pb_number block) of
                 Some fee \<Rightarrow> Inr (with_base_fee fee req)
               | None \<Rightarrow> Inl (Driver_Custom ''Could not find base fee for block''))
         else Inr req)"

text \<open>The response of \<open>finalize_block\<close> is dropped at once, which sets the builder to idle.\<close>

definition repost_block ::
  "'sig driver_env \<Rightarrow> reorg_reason list \<Rightarrow> (u64 \<rightharpoonup> u64) \<Rightarrow> header \<Rightarrow> preconfirmed_block \<Rightarrow> driver \<Rightarrow>
   (driver \<times> (driver_error + unit)) handled" where
  "repost_block env reasons fees anchor block d =
     (let parent_bn = sat_sub (pb_number block) 1
      in case de_l2_header env (Some parent_bn) of
           Inl e \<Rightarrow> Done (d, Inl (Driver_Transport e))
         | Inr parent \<Rightarrow>
             (case repost_request reasons fees block parent of
                Inl e \<Rightarrow> Done (d, Inl e)
              | Inr req \<Rightarrow>
                  (case build_payload (d_cfg d) (de_builder env) req of
                     Panic \<Rightarrow> Panicked
                   | Err e \<Rightarrow> Done (d, Inl (Driver_BlockBuilder e))
                   | Ok None \<Rightarrow> Panicked
                   | Ok (Some payload) \<Rightarrow>
                       (case finalize_block (d_cfg d) (de_builder env) anchor payload of
                          Panic \<Rightarrow> Panicked
                        | Err e \<Rightarrow> Done (d, Inl (Driver_BlockBuilder e))
                        | Ok res \<Rightarrow>
                            Done (d\<lparr>d_builder := (d_builder d)\<lparr>fl_state := drop_response (fl_state (d_builder d))\<rparr>\<rparr>,
                                  Inr ())))))"

fun repost_blocks ::
  "'sig driver_env \<Rightarrow> reorg_reason list \<Rightarrow> (u64 \<rightharpoonup> u64) \<Rightarrow> (header \<times> preconfirmed_block) list \<Rightarrow> driver \<Rightarrow>
   (driver \<times> (driver_error + unit)) handled" where
  "repost_blocks env reasons fees [] d = Done (d, Inr ())"
| "repost_blocks env reasons fees ((anchor, block) # rest) d =
     then_h (repost_block env reasons fees anchor block d) (\<lambda>(d, r).
       case r of
         Inl e \<Rightarrow> Done (d, Inl e)
       | Inr _ \<Rightarrow> repost_blocks env reasons fees rest d)"

definition finalize_all_blocks_from_batches ::
  "'sig driver_env \<Rightarrow> batch list \<Rightarrow> reorg_reason list \<Rightarrow> (u64 \<rightharpoonup> u64) \<Rightarrow> driver \<Rightarrow>
   (driver \<times> (driver_error + unit)) handled" where
  "finalize_all_blocks_from_batches env batches reasons fees d =
     repost_blocks env reasons fees
       (concat (map (\<lambda>b. map (Pair (anchor_block b)) (blocks b)) batches)) d"

section \<open>Syncing\<close>

text \<open>The loop until a sync succeeds; it hangs when no round of the environment does.\<close>

fun sync_loop :: "'sig driver_env \<Rightarrow> sync_round list \<Rightarrow> driver \<Rightarrow> (driver \<times> sync_result) handled" where
  "sync_loop env [] d = Hangs"
| "sync_loop env (r # rounds) d =
     then_h (sync_lookahead (l1_head_slot (d_l1 d)) (r_current_operator r) (r_next_operator r) (r_now r) (r_instant r) d) (\<lambda>d.
     then_h (await_idle (r_background r) d) (\<lambda>d.
     case sync (d_cfg d) (env_codec (de_builder env)) (de_estimate env) (de_estimate_reanchor env) (r_sync r) (d_status d) of
       Ok result \<Rightarrow> Done (d, result)
     | Err e \<Rightarrow> sync_loop env rounds d
     | Panic \<Rightarrow> Panicked))"

definition pop_ob :: "batch list \<Rightarrow> driver \<Rightarrow> batch list \<times> batch" where
  "pop_ob batches d =
     (case pop_with_coinbase batches (operator_address (d_cfg d)) of
        (rest, Some b) \<Rightarrow> (rest, b)
      | (rest, None) \<Rightarrow> (rest, batch_new (l1_anchor (d_l1 d)) (cfg_batch_settings (d_cfg d))))"

fun submit_all :: "batch list \<Rightarrow> driver \<Rightarrow> driver handled" where
  "submit_all [] d = Done d"
| "submit_all (b # bs) d = then_h (submit b (inclusion_window_end (d_lookahead d)) d) (submit_all bs)"

definition sync_and_propose :: "'sig driver_env \<Rightarrow> driver \<Rightarrow> driver handled" where
  "sync_and_propose env d =
     then_h (sync_loop env (de_rounds env) d) (\<lambda>(d, batches, reasons, fees).
     if can_propose (d_status d) then
       then_h (if reasons \<noteq> [] then finalize_all_blocks_from_batches env batches reasons fees d
               else Done (d, Inr ())) (\<lambda>(d, _).
       let (batches, outstanding) = pop_ob batches d
       in then_h (submit_all batches d) (\<lambda>d. Done (d\<lparr>d_outstanding := outstanding\<rparr>)))
     else
       let (batches, outstanding) = pop_ob batches d
       in Done (d\<lparr>d_outstanding := outstanding\<rparr>))"

section \<open>Handlers of the event loop\<close>

definition update_l1_info :: "'sig driver_env \<Rightarrow> header \<Rightarrow> driver \<Rightarrow> (driver \<times> (driver_error + u64)) handled" where
  "update_l1_info env l1_header d =
     then_h (expect (cfg_timestamp_to_l1_slot (d_cfg d) (timestamp l1_header))) (\<lambda>slot.
     case l1_sync (de_l1_header env) l1_header (d_l1 d) of
       (l1, Inl e) \<Rightarrow> Done (d\<lparr>d_l1 := l1\<rparr>, Inl e)
     | (l1, Inr _) \<Rightarrow>
         (case update_head_l1_origin env (d\<lparr>d_l1 := l1\<rparr>) of
            (d, Inl e) \<Rightarrow> Done (d, Inl e)
          | (d, Inr _) \<Rightarrow>
              let d = d\<lparr>d_outstanding := retain_blocks_after (d_outstanding d) (head_l1_origin (d_l2 d))\<rparr>;
                  d = update_outstanding_batch_anchor_if_needed d
              in then_h (sync_lookahead slot (de_current_operator env) (de_next_operator env) (de_now env) (de_instant env) d)
                   (\<lambda>d. Done (d, Inr slot))))"

text \<open>The three parts of the tick of an L1 slot.\<close>

definition propose_before_age_limit :: "'sig driver_env \<Rightarrow> u64 \<Rightarrow> driver \<Rightarrow> driver handled" where
  "propose_before_age_limit env slots_left d =
     (if slots_left \<le> preconf_anchor_max_height_buffer (preconf (d_cfg d))
      then then_h (expect (current_slot (d_cfg d) (de_now env))) (\<lambda>current.
             submit_local_outstanding_batch (de_background env) (current + slots_left) d)
      else Done d)"

definition new_window_or_status :: "'sig driver_env \<Rightarrow> u64 \<Rightarrow> driver \<Rightarrow> driver handled" where
  "new_window_or_status env slot d =
     (if slot mod EPOCH_SLOTS = 0 \<and> is_new_inclusion_window (d_lookahead d) slot
      then sync_and_propose env d
      else then_h (expect (compute_driver_status (d_lookahead d) slot (de_now env) (de_instant env)))
             (\<lambda>st. Done (update_status st d)))"

definition propose_in_handover :: "'sig driver_env \<Rightarrow> driver \<Rightarrow> driver handled" where
  "propose_in_handover env d =
     (if d_status d = InclusionOnly
      then submit_local_outstanding_batch (de_background env) (inclusion_window_end (d_lookahead d)) d
      else Done d)"

definition on_l1_slot_tick :: "'sig driver_env \<Rightarrow> u64 \<Rightarrow> driver \<Rightarrow> driver handled" where
  "on_l1_slot_tick env time d =
     then_h (expect (cfg_timestamp_to_l1_slot (d_cfg d) time)) (\<lambda>slot.
     let next_block_ts = time + l1_block_time (chain (d_cfg d));
         next_block_num = number (tip (d_l1 d)) + 1;
         d = d\<lparr>d_l1 := (d_l1 d)\<lparr>l1_head_slot := slot\<rparr>\<rparr>;
         slots_left = compute_age_limit (d_outstanding d) next_block_ts next_block_num
     in then_h (propose_before_age_limit env slots_left d) (\<lambda>d.
        then_h (new_window_or_status env slot d) (\<lambda>d.
        then_h (propose_in_handover env d) (\<lambda>d.
        Done (update_outstanding_batch_anchor_if_needed d)))))"

text \<open>The anchor of a new block: that of the outstanding batch, or a new one when the block does not fit.\<close>

definition block_anchor_choice :: "(usize \<Rightarrow> usize) \<Rightarrow> driver \<Rightarrow> block_payload \<Rightarrow> header" where
  "block_anchor_choice est d payload =
     (case doesnt_fit est (d_outstanding d) (tx_list_without_anchor_tx payload) of
        Some reason \<Rightarrow> l1_anchor (d_l1 d)
      | None \<Rightarrow> anchor_block (d_outstanding d))"

text \<open>
  The tick of an L2 slot. The handler changes the state only through the builder and the command that asks
  the batch submitter for the size, which the actor answers at once.
\<close>

definition on_l2_slot_tick :: "'sig driver_env \<Rightarrow> u64 \<Rightarrow> driver \<Rightarrow> driver handled" where
  "on_l2_slot_tick env time d =
     (if \<not> can_sequence (d_status d) then Done d
      else if is_finalizing (fl_state (d_builder d)) \<noteq> None then Done d
      else
        let force = (if head_block (d_l2 d) = 0 then True else should_build_empty_block (d_outstanding d) time)
        in case (de_l2_header env None, de_preconf_status env) of
             (Inr parent, Inr highest_unsafe_block) \<Rightarrow>
               let l2_tip = max highest_unsafe_block (head_l1_origin (d_l2 d))
               in if number parent < l2_tip then Done d
                  else
                    then_h (expect (is_last_block_in_sequencing_window (d_lookahead d) time)) (\<lambda>is_last.
                    then_h (expect (get_suggested_max_size (d_handle d))) (\<lambda>_.
                    let req = with_max_size (de_max_size env) (with_is_last is_last (with_force_empty force
                                (build_request_new time parent)))
                    in case build_payload (d_cfg d) (de_builder env) req of
                         Panic \<Rightarrow> Panicked
                       | Err e \<Rightarrow> Done d
                       | Ok None \<Rightarrow> Done d
                       | Ok (Some payload) \<Rightarrow>
                           Done (d\<lparr>d_builder := trigger_finalize_block (block_anchor_choice (de_estimate env 0) d payload) payload (d_builder d)\<rparr>)))
           | _ \<Rightarrow> Done d)"


definition on_taiko_preconf_event :: "'sig driver_env \<Rightarrow> u64 \<Rightarrow> driver \<Rightarrow> driver handled" where
  "on_taiko_preconf_event env current_epoch d =
     sync_lookahead (l1_head_slot (d_l1 d)) (de_current_operator env) (de_next_operator env) (de_now env) (de_instant env)
       (d\<lparr>d_lookahead := update_end_of_sequencing_mark (d_lookahead d) current_epoch\<rparr>)"

text \<open>The loop over the blocks to add; \<open>i\<close> numbers the estimates of the compressed size.\<close>

fun add_blocks :: "(nat \<Rightarrow> usize \<Rightarrow> usize) \<Rightarrow> nat \<Rightarrow> header \<Rightarrow> preconfirmed_block list \<Rightarrow> driver \<Rightarrow> driver handled" where
  "add_blocks est i anchor [] d = Done d"
| "add_blocks est i anchor (block # rest) d =
     (case add_block_and_reset_if_full (est i) (d_outstanding d) block anchor of
        (outstanding, Added _) \<Rightarrow> add_blocks est (Suc i) anchor rest (d\<lparr>d_outstanding := outstanding\<rparr>)
      | (outstanding, Full reason full_batch) \<Rightarrow>
          let d = d\<lparr>d_outstanding := outstanding\<rparr>;
              deadline = inclusion_window_end (d_lookahead d)
          in then_h (if can_propose (d_status d) then submit full_batch deadline d else Done d)
               (add_blocks est (Suc i) anchor rest))"

text \<open>
  A new block. The blocks between the outstanding batch and it are downloaded; when that fails, they are
  left out.
\<close>

definition gap_blocks :: "'sig driver_env \<Rightarrow> preconfirmed_block \<Rightarrow> driver \<Rightarrow> preconfirmed_block list" where
  "gap_blocks env new_block d =
     (let expected = sat_add (snd (blocks_range (d_outstanding d))) 1;
          got = pb_number new_block;
          last_missing = sat_sub got 1
      in if blocks (d_outstanding d) = [] \<or> last_missing < expected then []
         else case de_download env expected last_missing of
                Inr gapped_blocks \<Rightarrow> into_preconfirmed gapped_blocks
              | Inl e \<Rightarrow> [])"

definition on_produced_block :: "'sig driver_env \<Rightarrow> preconfirmed_block \<Rightarrow> header \<Rightarrow> driver \<Rightarrow> driver handled" where
  "on_produced_block env new_block anchor d =
     add_blocks (de_estimate env) 0 anchor (gap_blocks env new_block d @ [new_block]) d"

definition on_l1_block :: "'sig driver_env \<Rightarrow> header \<Rightarrow> driver \<Rightarrow> driver handled" where
  "on_l1_block env l1_header d =
     then_h (update_l1_info env l1_header d) (\<lambda>(d, r).
       case r of
         Inl e \<Rightarrow> Done d
       | Inr slot \<Rightarrow>
           if is_new_epoch (d_l1 d) slot then Done (d\<lparr>d_l1 := (d_l1 d)\<lparr>epoch := to_epoch slot\<rparr>\<rparr>)
           else Done d)"

definition on_l2_reorg :: "'sig driver_env \<Rightarrow> u64 \<Rightarrow> driver \<Rightarrow> driver handled" where
  "on_l2_reorg env n d =
     then_h (expect (clear_batch_submissions (d_handle d))) (\<lambda>h.
     Done (fst (update_head_l1_origin env
       (d\<lparr>d_handle := h, d_outstanding := retain_blocks_before (d_outstanding d) n\<rparr>))))"

definition on_l2_block :: "'sig driver_env \<Rightarrow> rpc_block \<Rightarrow> driver \<Rightarrow> driver handled" where
  "on_l2_block env new_l2 d =
     (let h = block_header new_l2;
          built_by_us = (beneficiary h = operator_address (d_cfg d))
      in then_h (if number h < head_block (d_l2 d) then on_l2_reorg env (number h) d else Done d) (\<lambda>d.
         let d = d\<lparr>d_l2 := (d_l2 d)\<lparr>head_block := number h\<rparr>\<rparr>
         in if built_by_us then Done d
            else
              (case block_anchor_block_id (env_codec (de_builder env)) new_l2 of
                 Inl e \<Rightarrow> Done d
               | Inr anchor \<Rightarrow>
                   if anchor > number (l1_anchor (d_l1 d))
                   then Done (d\<lparr>d_l1 := fst (update_anchor (de_l1_header env) anchor (d_l1 d))\<rparr>)
                   else Done d)))"

definition on_operator_changed :: "'sig driver_env \<Rightarrow> driver \<Rightarrow> driver handled" where
  "on_operator_changed env d = sync_and_propose env d"

definition on_batch_proposal_err :: "'sig driver_env \<Rightarrow> 'b proposal_error \<Rightarrow> driver \<Rightarrow> driver handled" where
  "on_batch_proposal_err env e d = (if matches_not_preconfer e then Done d else sync_and_propose env d)"

text \<open>
  The events that the loop selects. A response of the block builder is taken out of its channel, which
  releases the builder before its block is handled; a finished critical task ends the program. Batch
  proposal events and successful batch results change nothing.
\<close>

datatype 'b driver_event =
    L1_Slot_Tick u64
  | L2_Slot_Tick u64
  | Preconf_End_Of_Sequencing u64
  | Block_Produced
  | New_L1_Block header
  | New_L2_Block rpc_block
  | Operator_Changed
  | Batch_Proposed_Event
  | Batch_Error "'b proposal_error"
  | Task_Failed

definition handle_event :: "'sig driver_env \<Rightarrow> 'b driver_event \<Rightarrow> driver \<Rightarrow> driver handled" where
  "handle_event env event d =
     (case event of
        L1_Slot_Tick time \<Rightarrow> on_l1_slot_tick env time d
      | L2_Slot_Tick time \<Rightarrow> on_l2_slot_tick env time d
      | Preconf_End_Of_Sequencing ep \<Rightarrow> on_taiko_preconf_event env ep d
      | Block_Produced \<Rightarrow>
          (case fl_channel (d_builder d) of
             [] \<Rightarrow> Done d
           | r # rs \<Rightarrow>
               (case into_block_with_anchor r (fl_state (d_builder d)) of
                  ((new_block, anchor), st) \<Rightarrow>
                    on_produced_block env new_block anchor
                      (d\<lparr>d_builder := (d_builder d)\<lparr>fl_state := st, fl_channel := rs\<rparr>\<rparr>)))
      | New_L1_Block h \<Rightarrow> on_l1_block env h d
      | New_L2_Block b \<Rightarrow> on_l2_block env b d
      | Operator_Changed \<Rightarrow> on_operator_changed env d
      | Batch_Proposed_Event \<Rightarrow> Done d
      | Batch_Error e \<Rightarrow> on_batch_proposal_err env e d
      | Task_Failed \<Rightarrow> Panicked)"

section \<open>Starting\<close>

definition driver_new ::
  "runtime_config \<Rightarrow> (driver_error + unit) option \<Rightarrow> (rpc_error, l1_state) outcome \<Rightarrow> driver_error + l2_state \<Rightarrow>
   driver_error + unit \<Rightarrow> driver_error + unit \<Rightarrow> (driver_error + driver) handled" where
  "driver_new cfg clients_synced new_l1 new_l2 balances approval =
     (case clients_synced of
        None \<Rightarrow> Hangs
      | Some (Inl e) \<Rightarrow> Done (Inl e)
      | Some (Inr _) \<Rightarrow>
          (case new_l1 of
             Panic \<Rightarrow> Panicked
           | Err e \<Rightarrow> Done (Inl (Driver_Transport e))
           | Ok l1 \<Rightarrow>
               (case new_l2 of
                  Inl e \<Rightarrow> Done (Inl e)
                | Inr l2 \<Rightarrow>
                    (case balances of
                       Inl e \<Rightarrow> Done (Inl e)
                     | Inr _ \<Rightarrow>
                         (case approval of
                            Inl e \<Rightarrow> Done (Inl e)
                          | Inr _ \<Rightarrow>
                              Done (Inr \<lparr>d_cfg = cfg, d_l1 = l1, d_l2 = l2, d_status = Inactive, d_builder = in_flight_new,
                                         d_handle = [], d_lookahead = lookahead_new cfg,
                                         d_outstanding = batch_new (l1_anchor l1) (cfg_batch_settings cfg)\<rparr>))))))"

text \<open>The loop of \<open>startup_sync\<close>; each attempt has the answer to the request for the L1 head.\<close>

fun startup_sync :: "((rpc_error + header) \<times> 'sig driver_env) list \<Rightarrow> driver \<Rightarrow> driver handled" where
  "startup_sync [] d = Hangs"
| "startup_sync ((l1_tip, env) # attempts) d =
     (case l1_tip of
        Inl e \<Rightarrow> startup_sync attempts d
      | Inr h \<Rightarrow>
          then_h (update_l1_info env h d) (\<lambda>(d, r).
            case r of
              Inl e \<Rightarrow> startup_sync attempts d
            | Inr _ \<Rightarrow> sync_and_propose env d))"

end
