(* ===== verification/Driver_Correct.thy ===== *)
theory Driver_Correct
  imports Driver
begin

text \<open>
  What the handlers of the driver guarantee: the invariant that every handler preserves, from the start of the
  driver on, and the properties of the single handlers. Two properties show how the
  wait for the builder goes wrong.
\<close>

section \<open>What holds when a handler returns\<close>

fun when_done :: "('a \<Rightarrow> bool) \<Rightarrow> 'a handled \<Rightarrow> bool" where
  "when_done P (Done x) = P x"
| "when_done P Panicked = True"
| "when_done P Hangs = True"

lemma when_done_then: "when_done Q m \<Longrightarrow> (\<And>x. Q x \<Longrightarrow> when_done P (f x)) \<Longrightarrow> when_done P (then_h m f)"
  by (cases m) auto

lemma when_done_expect: "(\<And>x. P x) \<Longrightarrow> when_done P (expect m)"
  by (cases m) auto

lemma when_done_expect_then: "(\<And>x. m = Some x \<Longrightarrow> when_done P (f x)) \<Longrightarrow> when_done P (then_h (expect m) f)"
  by (cases m) auto

text \<open>
  The invariant of the driver: the configuration stays, and the outstanding batch and every batch that has
  been submitted are well-formed; a submitted batch also has a block.
\<close>

fun cmd_ok :: "submission_cmd \<Rightarrow> bool" where
  "cmd_ok (Submit b deadline) = (batch_ok b \<and> blocks b \<noteq> [])"
| "cmd_ok ClearQueue = True"
| "cmd_ok (GetSuggestedMaxSize w) = True"

definition cmds_ok :: "submission_cmd list \<Rightarrow> bool" where
  "cmds_ok cmds = (\<forall>c \<in> set cmds. cmd_ok c)"

lemma send_cmd_ok: "send_cmd handle c = Some handle' \<Longrightarrow> cmds_ok handle \<Longrightarrow> cmd_ok c \<Longrightarrow> cmds_ok handle'"
  by (auto simp: send_cmd_def cmds_ok_def split: if_splits)

definition driver_ok :: "runtime_config \<Rightarrow> driver \<Rightarrow> bool" where
  "driver_ok cfg d =
     (d_cfg d = cfg \<and> 0 < capacity (cfg_batch_settings cfg) \<and> batch_ok (d_outstanding d) \<and> cmds_ok (d_handle d))"

definition env_ok :: "'sig driver_env \<Rightarrow> bool" where
  "env_ok env = (\<forall>r \<in> set (de_rounds env). downloads_ok (sy_download (r_sync r)))"

lemma driver_ok_update [simp]:
  "driver_ok cfg (d\<lparr>d_l1 := l1\<rparr>) = driver_ok cfg d"
  "driver_ok cfg (d\<lparr>d_l2 := l2\<rparr>) = driver_ok cfg d"
  "driver_ok cfg (d\<lparr>d_status := st\<rparr>) = driver_ok cfg d"
  "driver_ok cfg (d\<lparr>d_builder := f\<rparr>) = driver_ok cfg d"
  "driver_ok cfg (d\<lparr>d_lookahead := la\<rparr>) = driver_ok cfg d"
  by (simp_all add: driver_ok_def)

lemma driver_ok_outstanding: "driver_ok cfg d \<Longrightarrow> batch_ok b \<Longrightarrow> driver_ok cfg (d\<lparr>d_outstanding := b\<rparr>)"
  by (simp add: driver_ok_def)

lemma batch_ok_retain [simp]:
  "batch_ok b \<Longrightarrow> batch_ok (retain_blocks_after b n)" "batch_ok b \<Longrightarrow> batch_ok (retain_blocks_before b n)"
  by (simp_all add: retain_blocks_after_def retain_blocks_before_def batch_ok_filter_blocks)

lemma batch_ok_change_anchor [simp]: "batch_ok (change_anchor b a) = batch_ok b"
  by (simp add: batch_ok_def change_anchor_def)

lemma batch_ok_empty [simp]: "0 < capacity s \<Longrightarrow> batch_ok (batch_new a s)"
  by (simp add: batch_ok_def batch_new_def)

named_theorems driver_rules \<open>the handlers preserve the invariant of the driver\<close>

lemma update_status_ok [simp]: "driver_ok cfg (update_status st d) = driver_ok cfg d"
  by (simp add: update_status_def)

lemma sync_lookahead_ok [driver_rules]:
  "driver_ok cfg d \<Longrightarrow> when_done (driver_ok cfg) (sync_lookahead slot current next time inst d)"
  by (auto simp: sync_lookahead_def split: prod.split intro: when_done_expect_then)

lemma update_origin_ok [simp]: "driver_ok cfg (fst (update_head_l1_origin env d)) = driver_ok cfg d"
  by (simp add: update_head_l1_origin_def split: sum.split)

lemma update_anchor_ok [simp]:
  "driver_ok cfg d \<Longrightarrow> driver_ok cfg (update_outstanding_batch_anchor_if_needed d)"
  by (simp add: update_outstanding_batch_anchor_if_needed_def driver_ok_def)

lemma await_idle_ok [driver_rules]: "driver_ok cfg d \<Longrightarrow> when_done (driver_ok cfg) (await_idle bg d)"
  by (cases "await_changed bg (d_builder d)") (simp_all add: await_idle_def)

lemma submit_ok [driver_rules]:
  "driver_ok cfg d \<Longrightarrow> batch_ok b \<Longrightarrow> when_done (driver_ok cfg) (submit b deadline d)"
  unfolding submit_def
  by (rule when_done_expect_then)
     (auto simp: driver_ok_def trigger_batch_submission_def split: if_splits elim: send_cmd_ok)

lemma submit_local_ok [driver_rules]:
  "driver_ok cfg d \<Longrightarrow> when_done (driver_ok cfg) (submit_local_outstanding_batch bg deadline d)"
  unfolding submit_local_outstanding_batch_def Let_def
  by (rule when_done_then [OF await_idle_ok])
     (auto simp: take_and_reset_def intro!: submit_ok, simp_all add: driver_ok_def batch_ok_def)

lemma repost_block_ok [driver_rules]:
  "driver_ok cfg d \<Longrightarrow> when_done (\<lambda>(d, r). driver_ok cfg d) (repost_block env reasons fees anchor block d)"
  by (auto simp: repost_block_def Let_def split: sum.split outcome.split option.split)

lemma repost_blocks_ok [driver_rules]:
  "driver_ok cfg d \<Longrightarrow> when_done (\<lambda>(d, r). driver_ok cfg d) (repost_blocks env reasons fees bs d)"
proof (induction env reasons fees bs d rule: repost_blocks.induct)
  case (2 env reasons fees anchor block rest d)
  show ?case
    unfolding repost_blocks.simps
    by (rule when_done_then [OF repost_block_ok [OF "2.prems"]]) (auto intro: "2.IH" split: sum.split)
qed simp

lemma sync_loop_ok [driver_rules]:
  assumes "driver_ok cfg d" "\<forall>r \<in> set rounds. downloads_ok (sy_download (r_sync r))"
  shows "when_done (\<lambda>(d, batches, rest). driver_ok cfg d \<and> (\<forall>b \<in> set batches. batch_ok b)) (sync_loop env rounds d)"
  using assms
proof (induction rounds arbitrary: d)
  case (Cons r rounds)
  show ?case
    unfolding sync_loop.simps
  proof (rule when_done_then [OF sync_lookahead_ok [OF Cons.prems(1)]], rule when_done_then [OF await_idle_ok], assumption)
    fix d1 d assume d: "driver_ok cfg d"
    then have cfg: "d_cfg d = cfg" "0 < capacity (cfg_batch_settings (d_cfg d))" by (auto simp: driver_ok_def)
    have "\<forall>b \<in> set batches. batch_ok b"
      if "sync (d_cfg d) (env_codec (de_builder env)) (de_estimate env) (de_estimate_reanchor env) (r_sync r) (d_status d) =
        Ok (batches, reasons, fees)" for batches reasons fees
      using sync_batches_ok [OF _ cfg(2) that] Cons.prems(2) by simp
    moreover have "when_done (\<lambda>(d, batches, rest). driver_ok cfg d \<and> (\<forall>b \<in> set batches. batch_ok b)) (sync_loop env rounds d)"
      using Cons.IH [OF d] Cons.prems(2) by simp
    ultimately show "when_done (\<lambda>(d, batches, rest). driver_ok cfg d \<and> (\<forall>b \<in> set batches. batch_ok b))
        (case sync (d_cfg d) (env_codec (de_builder env)) (de_estimate env) (de_estimate_reanchor env) (r_sync r) (d_status d) of
           Panic \<Rightarrow> Panicked | Err e \<Rightarrow> sync_loop env rounds d | Ok result \<Rightarrow> Done (d, result))"
      using d by (fastforce split: outcome.split)
  qed
qed simp

lemma submit_all_ok [driver_rules]:
  "driver_ok cfg d \<Longrightarrow> \<forall>b \<in> set bs. batch_ok b \<Longrightarrow> when_done (driver_ok cfg) (submit_all bs d)"
proof (induction bs arbitrary: d)
  case (Cons b bs)
  then show ?case by (auto intro!: when_done_then [OF submit_ok])
qed simp

lemma pop_ob_ok:
  assumes "pop_ob batches d = (rest, b)" "driver_ok cfg d" "\<forall>b \<in> set batches. batch_ok b"
  shows "batch_ok b" "\<forall>b \<in> set rest. batch_ok b"
proof -
  have "batch_ok (last (x # xs))" if "\<forall>b \<in> set (x # xs). batch_ok b" for x xs
    using that last_in_set by blast
  then show "batch_ok b"
    using assms by (cases batches) (auto simp: pop_ob_def pop_with_coinbase_def driver_ok_def split: if_splits)
  show "\<forall>b \<in> set rest. batch_ok b"
    using assms(3) in_set_butlastD [of _ batches]
    by (cases batches) (use assms(1) in \<open>auto simp: pop_ob_def pop_with_coinbase_def split: if_splits\<close>)
qed

lemma propose_ok:
  assumes "driver_ok cfg d" "\<forall>b \<in> set batches. batch_ok b"
  shows "when_done (driver_ok cfg)
    (case pop_ob batches d of (batches, outstanding) \<Rightarrow>
       then_h (submit_all batches d) (\<lambda>d. Done (d\<lparr>d_outstanding := outstanding\<rparr>)))"
proof -
  obtain rest b where pop: "pop_ob batches d = (rest, b)" by (cases "pop_ob batches d")
  have "when_done (driver_ok cfg) (then_h (submit_all rest d) (\<lambda>d. Done (d\<lparr>d_outstanding := b\<rparr>)))"
    by (rule when_done_then [OF submit_all_ok [OF assms(1) pop_ob_ok(2) [OF pop assms]]])
       (simp add: driver_ok_outstanding pop_ob_ok(1) [OF pop assms])
  then show ?thesis by (simp add: pop)
qed

lemma sync_and_propose_ok [driver_rules]:
  assumes "driver_ok cfg d" "env_ok env"
  shows "when_done (driver_ok cfg) (sync_and_propose env d)"
  unfolding sync_and_propose_def
proof (rule when_done_then [OF sync_loop_ok [OF assms(1)]])
  show "\<forall>r \<in> set (de_rounds env). downloads_ok (sy_download (r_sync r))" using assms(2) by (simp add: env_ok_def)
next
  fix x :: "driver \<times> sync_result"
  obtain d batches reasons fees where x: "x = (d, batches, reasons, fees)" by (cases x)
  assume "case x of (d, batches, rest) \<Rightarrow> driver_ok cfg d \<and> (\<forall>b \<in> set batches. batch_ok b)"
  with x have ok: "driver_ok cfg d" "\<forall>b \<in> set batches. batch_ok b" by auto
  show "when_done (driver_ok cfg) (case x of (d, batches, reasons, fees) \<Rightarrow>
     if can_propose (d_status d) then
       then_h (if reasons \<noteq> [] then finalize_all_blocks_from_batches env batches reasons fees d
               else Done (d, Inr ())) (\<lambda>(d, _).
       let (batches, outstanding) = pop_ob batches d
       in then_h (submit_all batches d) (\<lambda>d. Done (d\<lparr>d_outstanding := outstanding\<rparr>)))
     else
       let (batches, outstanding) = pop_ob batches d
       in Done (d\<lparr>d_outstanding := outstanding\<rparr>))"
    using ok unfolding x prod.case
    by (auto simp: finalize_all_blocks_from_batches_def driver_ok_outstanding pop_ob_ok(1) split: prod.split_asm
        intro!: when_done_then [OF repost_blocks_ok] propose_ok)
       (cases "pop_ob batches d", auto intro: driver_ok_outstanding dest: pop_ob_ok(1))+
qed

lemma update_l1_info_ok [driver_rules]:
  assumes "driver_ok cfg d"
  shows "when_done (\<lambda>(d, r). driver_ok cfg d) (update_l1_info env l1_header d)"
proof -
  have batch: "driver_ok cfg (d\<lparr>d_outstanding := retain_blocks_after (d_outstanding d) n\<rparr>)"
    if "driver_ok cfg d" for d n
    using that by (simp add: driver_ok_def)
  have origin: "driver_ok cfg d'" if "update_head_l1_origin env (d\<lparr>d_l1 := l1\<rparr>) = (d', r)" for l1 d' r
    using update_origin_ok [of cfg env "d\<lparr>d_l1 := l1\<rparr>"] that assms by simp
  have rest: "when_done (\<lambda>(d, r). driver_ok cfg d)
      (then_h (sync_lookahead slot current next time inst d) (\<lambda>d. Done (d, r)))"
    if "driver_ok cfg d" for slot current "next" time inst d and r :: "driver_error + u64"
    by (rule when_done_then [OF sync_lookahead_ok [OF that]]) simp
  show ?thesis
    unfolding update_l1_info_def Let_def
    by (rule when_done_expect_then)
       (auto simp: assms split: prod.split sum.split intro!: rest update_anchor_ok batch dest: origin)
qed

lemma propose_before_age_limit_ok:
  "driver_ok cfg d \<Longrightarrow> when_done (driver_ok cfg) (propose_before_age_limit env slots_left d)"
  by (auto simp: propose_before_age_limit_def intro!: when_done_expect_then submit_local_ok)

lemma new_window_or_status_ok:
  "driver_ok cfg d \<Longrightarrow> env_ok env \<Longrightarrow> when_done (driver_ok cfg) (new_window_or_status env slot d)"
  by (auto simp: new_window_or_status_def intro!: when_done_expect_then sync_and_propose_ok)

lemma propose_in_handover_ok: "driver_ok cfg d \<Longrightarrow> when_done (driver_ok cfg) (propose_in_handover env d)"
  by (simp add: propose_in_handover_def submit_local_ok)

lemma on_l1_slot_tick_ok [driver_rules]:
  assumes "driver_ok cfg d" "env_ok env"
  shows "when_done (driver_ok cfg) (on_l1_slot_tick env time d)"
proof -
  have 3: "when_done (driver_ok cfg) (then_h (propose_in_handover env d)
      (\<lambda>d. Done (update_outstanding_batch_anchor_if_needed d)))" if "driver_ok cfg d" for d
    by (rule when_done_then [OF propose_in_handover_ok [OF that]]) simp
  have 2: "when_done (driver_ok cfg) (then_h (new_window_or_status env slot d) (\<lambda>d.
      then_h (propose_in_handover env d) (\<lambda>d. Done (update_outstanding_batch_anchor_if_needed d))))"
    if "driver_ok cfg d" for d slot
    by (rule when_done_then [OF new_window_or_status_ok [OF that assms(2)] 3])
  show ?thesis
    unfolding on_l1_slot_tick_def Let_def
    by (intro when_done_expect_then when_done_then [OF propose_before_age_limit_ok 2]) (use assms(1) in auto)
qed

lemma on_l2_slot_tick_ok [driver_rules]:
  assumes "driver_ok cfg d"
  shows "when_done (driver_ok cfg) (on_l2_slot_tick env time d)"
  using assms unfolding on_l2_slot_tick_def Let_def
  by (auto split: sum.split outcome.split option.split intro!: when_done_expect_then)

lemma on_taiko_preconf_event_ok [driver_rules]:
  "driver_ok cfg d \<Longrightarrow> when_done (driver_ok cfg) (on_taiko_preconf_event env ep d)"
  by (simp add: on_taiko_preconf_event_def sync_lookahead_ok)

lemma add_blocks_ok [driver_rules]:
  "driver_ok cfg d \<Longrightarrow> when_done (driver_ok cfg) (add_blocks est i anchor bs d)"
proof (induction est i anchor bs d rule: add_blocks.induct)
  case (2 est i anchor block rest d)
  obtain ob r where add: "add_block_and_reset_if_full (est i) (d_outstanding d) block anchor = (ob, r)"
    by (cases "add_block_and_reset_if_full (est i) (d_outstanding d) block anchor")
  have ok: "driver_ok cfg (d\<lparr>d_outstanding := ob\<rparr>)"
    and full: "r = Full reason this \<Longrightarrow> batch_ok this" for reason this
    using add_block_ok [OF _ add] "2.prems" by (simp_all add: driver_ok_def)
  show ?case
  proof (cases r)
    case Added
    then show ?thesis using "2.IH"(1) [OF add [symmetric] Added ok] add by simp
  next
    case (Full reason full_batch)
    show ?thesis
      using "2.IH"(2) [OF add [symmetric] Full refl refl] ok full [OF Full]
      by (auto simp: add Full Let_def intro!: when_done_then [where Q = "driver_ok cfg"] submit_ok)
  qed
qed simp

lemma on_produced_block_ok [driver_rules]:
  "driver_ok cfg d \<Longrightarrow> when_done (driver_ok cfg) (on_produced_block env block anchor d)"
  by (simp add: on_produced_block_def add_blocks_ok)

lemma on_l1_block_ok [driver_rules]:
  "driver_ok cfg d \<Longrightarrow> when_done (driver_ok cfg) (on_l1_block env l1_header d)"
  unfolding on_l1_block_def
  by (rule when_done_then [OF update_l1_info_ok]) (auto split: sum.split)

lemma on_l2_reorg_ok [driver_rules]:
  "driver_ok cfg d \<Longrightarrow> when_done (driver_ok cfg) (on_l2_reorg env n d)"
  unfolding on_l2_reorg_def
  by (rule when_done_expect_then)
     (auto simp: driver_ok_def update_head_l1_origin_def clear_batch_submissions_def split: sum.split elim: send_cmd_ok)

lemma on_l2_block_ok [driver_rules]:
  "driver_ok cfg d \<Longrightarrow> when_done (driver_ok cfg) (on_l2_block env new_l2 d)"
  unfolding on_l2_block_def Let_def
  by (rule when_done_then [where Q = "driver_ok cfg"]) (auto intro: on_l2_reorg_ok split: sum.split)

lemma handle_event_ok:
  assumes "driver_ok cfg d" "env_ok env"
  shows "when_done (driver_ok cfg) (handle_event env event d)"
  using assms
  by (cases event)
     (auto simp: handle_event_def on_operator_changed_def on_batch_proposal_err_def
        intro: driver_rules split: list.split prod.split)

section \<open>Starting\<close>

lemma startup_sync_ok:
  "driver_ok cfg d \<Longrightarrow> (\<forall>(answer, env) \<in> set attempts. env_ok env) \<Longrightarrow>
   when_done (driver_ok cfg) (startup_sync attempts d)"
proof (induction attempts d rule: startup_sync.induct)
  case (2 l1_tip env attempts d)
  show ?case
  proof (cases l1_tip)
    case (Inr h)
    have "when_done (driver_ok cfg) (case x of (d, r) \<Rightarrow>
        case r of Inl e \<Rightarrow> startup_sync attempts d | Inr _ \<Rightarrow> sync_and_propose env d)"
      if "case x of (d, r) \<Rightarrow> driver_ok cfg d" for x :: "driver \<times> (driver_error + u64)"
      using "2.IH"(2) [OF Inr] "2.prems" that by (cases x) (auto intro: sync_and_propose_ok split: sum.split)
    then show ?thesis
      unfolding startup_sync.simps Inr sum.case by (rule when_done_then [OF update_l1_info_ok [OF "2.prems"(1)]])
  qed (use "2.IH"(1) "2.prems" in auto)
qed simp

section \<open>Waiting for the builder\<close>

lemma submit_result:
  assumes "length (d_handle d) < MAX_BUFFERED_BATCHES"
  shows "submit b deadline d =
    Done (d\<lparr>d_handle := d_handle d @ (if blocks b = [] then [] else [Submit b deadline])\<rparr>)"
  using assms by (simp add: submit_def trigger_batch_submission_def send_cmd_def)

lemma await_idle_unseen:
  assumes "is_finalizing (fl_state (d_builder d)) = Some n"
    and "state_seen (fl_state (d_builder d)) < state_version (fl_state (d_builder d))"
  shows "await_idle bg d = Done (d\<lparr>d_builder := (d_builder d)\<lparr>fl_state :=
      (fl_state (d_builder d))\<lparr>state_seen := state_version (fl_state (d_builder d))\<rparr>\<rparr>\<rparr>)"
  using assms by (cases bg) (auto simp: await_idle_def watch_changed_def)

lemma await_changed_seen:
  assumes "state_seen (fl_state f) = state_version (fl_state f)" "\<forall>(i, result) \<in> set bg. \<exists>res. result = Ok res"
  shows "await_changed bg f = Hangs"
  using assms
proof (induction bg f rule: await_changed.induct)
  case (2 i result bg f)
  then have "watch_changed (fl_state f) = None" by (simp add: watch_changed_def)
  moreover have "fl_state (finalize_task_done i result f) = fl_state f"
    using "2.prems"(2) by (auto simp: finalize_task_done_def Let_def)
  ultimately show ?case using "2.IH" "2.prems" by simp
qed (simp add: watch_changed_def)

lemma await_idle_hangs:
  assumes "is_finalizing (fl_state (d_builder d)) \<noteq> None"
    and "state_seen (fl_state (d_builder d)) = state_version (fl_state (d_builder d))"
    and "\<forall>(i, result) \<in> set bg. \<exists>res. result = Ok res"
  shows "await_idle bg d = Hangs"
  using assms by (simp add: await_idle_def await_changed_seen)

text \<open>
  C19. The wait before a submission does not wait. While a block is being finalized whose start the driver has
  not seen, which is the state that triggering a block leaves behind, a submission goes through at once: the
  builder is still finalizing, the outstanding batch has the new anchor, and the block that the builder then
  delivers, built on the old anchor, becomes the first block of that batch. The batch is later proposed with
  an anchor that is not the one of its block.
\<close>

theorem proposal_during_finalization_mixes_anchors:
  assumes "d_builder d = trigger_finalize_block anchor payload f" and "state_seen (fl_state f) \<le> state_version (fl_state f)"
    and "length (d_handle d) < MAX_BUFFERED_BATCHES" and "blocks (d_outstanding d) \<noteq> []"
    and "anchor = anchor_block (d_outstanding d)" and "anchor \<noteq> l1_anchor (d_l1 d)"
    and "doesnt_fit (de_estimate env 0) ((d_outstanding d)\<lparr>blocks := [], anchor_block := l1_anchor (d_l1 d)\<rparr>)
      (tx_list new_block) = None"
  shows "\<exists>d1 d2. submit_local_outstanding_batch bg deadline d = Done d1 \<and>
    is_finalizing (fl_state (d_builder d1)) = Some (number (payload_parent payload) + 1) \<and>
    on_produced_block env new_block anchor d1 = Done d2 \<and>
    blocks (d_outstanding d2) = [new_block] \<and> anchor_block (d_outstanding d2) \<noteq> anchor"
proof -
  let ?s = "fl_state (d_builder d)"
  have fin: "is_finalizing ?s = Some (number (payload_parent payload) + 1)" "state_seen ?s < state_version ?s"
    using assms(1,2) by (simp_all add: trigger_finalize_block_def set_finalizing_def watch_send_def is_finalizing_def)
  have room: "submit b deadline d' = Done (d'\<lparr>d_handle := d_handle d' @ (if blocks b = [] then [] else [Submit b deadline])\<rparr>)"
    if "d_handle d' = d_handle d" for b d'
    using submit_result [of d'] assms(3) that by simp
  let ?fresh = "(d_outstanding d)\<lparr>blocks := [], anchor_block := l1_anchor (d_l1 d)\<rparr>"
  obtain d1 where d1: "submit_local_outstanding_batch bg deadline d = Done d1" "d_outstanding d1 = ?fresh"
    "fl_state (d_builder d1) = ?s\<lparr>state_seen := state_version ?s\<rparr>"
    by (simp add: submit_local_outstanding_batch_def await_idle_unseen [OF fin] take_and_reset_def room)
  have "retain_blocks_before ?fresh n = ?fresh" for n by (simp add: retain_blocks_before_def)
  then have "on_produced_block env new_block anchor d1 = Done (d1\<lparr>d_outstanding := ?fresh\<lparr>blocks := [new_block]\<rparr>\<rparr>)"
    using d1(2) assms(7) by (simp add: on_produced_block_def gap_blocks_def add_block_and_reset_if_full_def Let_def)
  moreover have "is_finalizing (fl_state (d_builder d1)) = Some (number (payload_parent payload) + 1)"
    using fin(1) d1(3) by (simp add: is_finalizing_def)
  ultimately show ?thesis using d1(1) assms(6) by auto
qed

text \<open>
  C20. Two waits in a row deadlock the driver. When a submission happens while a block is being finalized, the
  next one that comes before the event loop takes the block out of its channel, as in one tick of an L1 slot
  whose outstanding batch reached its age limit in the handover window, waits for a change that only the event
  loop makes: with any number of background tasks that finish successfully it hangs.
\<close>

theorem second_submission_deadlocks:
  assumes "d_builder d = trigger_finalize_block anchor payload f" and "state_seen (fl_state f) \<le> state_version (fl_state f)"
    and "length (d_handle d) < MAX_BUFFERED_BATCHES" and "\<forall>(i, result) \<in> set bg'. \<exists>res. result = Ok res"
  shows "then_h (submit_local_outstanding_batch bg deadline d) (submit_local_outstanding_batch bg' deadline') = Hangs"
proof -
  let ?s = "fl_state (d_builder d)"
  have fin: "is_finalizing ?s = Some (number (payload_parent payload) + 1)" "state_seen ?s < state_version ?s"
    using assms(1,2) by (simp_all add: trigger_finalize_block_def set_finalizing_def watch_send_def is_finalizing_def)
  have room: "submit b deadline d' = Done (d'\<lparr>d_handle := d_handle d' @ (if blocks b = [] then [] else [Submit b deadline])\<rparr>)"
    if "d_handle d' = d_handle d" for b d'
    using submit_result [of d'] assms(3) that by simp
  obtain d1 where d1: "submit_local_outstanding_batch bg deadline d = Done d1"
    "fl_state (d_builder d1) = ?s\<lparr>state_seen := state_version ?s\<rparr>"
    by (simp add: submit_local_outstanding_batch_def await_idle_unseen [OF fin] take_and_reset_def room)
  then have "await_idle bg' d1 = Hangs"
    using fin(1) assms(4) by (intro await_idle_hangs) (auto simp: is_finalizing_def)
  then show ?thesis unfolding d1(1) then_h.simps by (simp add: submit_local_outstanding_batch_def)
qed

section \<open>The handlers\<close>

text \<open>
  C13. A tick of an L2 slot triggers a block only while the driver may sequence and no block is being finalized,
  and only on a parent that is not below the head of the preconfirmation chain and the last proposed block. The
  block has the tick as its timestamp and that parent, and it is anchored where the outstanding batch is when it
  fits there and at the newest anchor otherwise. An empty block is triggered only when the configuration wants
  it, when it is the last of the window, when the chain is at genesis, or when the last block of the batch is old.
\<close>

theorem block_production_is_guarded:
  assumes "on_l2_slot_tick env time d = Done d'" and "d' \<noteq> d"
  shows "can_sequence (d_status d) \<and> is_finalizing (fl_state (d_builder d)) = None \<and>
    (\<exists>parent tip payload. de_l2_header env None = Inr parent \<and> de_preconf_status env = Inr tip \<and>
       tip \<le> number parent \<and> head_l1_origin (d_l2 d) \<le> number parent \<and>
       payload_parent payload = parent \<and> payload_timestamp payload = time \<and>
       d' = d\<lparr>d_builder := trigger_finalize_block
              (case doesnt_fit (de_estimate env 0) (d_outstanding d) (tx_list_without_anchor_tx payload) of
                 None \<Rightarrow> anchor_block (d_outstanding d) | Some _ \<Rightarrow> l1_anchor (d_l1 d)) payload (d_builder d)\<rparr> \<and>
       (tx_list_without_anchor_tx payload = [] \<longrightarrow>
          enable_building_empty_blocks (preconf (d_cfg d)) \<or> payload_is_last payload \<or> head_block (d_l2 d) = 0 \<or>
          should_build_empty_block (d_outstanding d) time))"
proof -
  let ?force = "if head_block (d_l2 d) = 0 then True else should_build_empty_block (d_outstanding d) time"
  from assms obtain parent tip where
    g: "can_sequence (d_status d)" "is_finalizing (fl_state (d_builder d)) = None"
    and p: "de_l2_header env None = Inr parent" "de_preconf_status env = Inr tip"
    and t: "\<not> number parent < max tip (head_l1_origin (d_l2 d))"
    by (auto simp: on_l2_slot_tick_def Let_def split: if_splits sum.splits)
  from assms g p t obtain is_last req payload where
    req: "req = with_max_size (de_max_size env) (with_is_last is_last (with_force_empty ?force (build_request_new time parent)))"
    and b: "build_payload (d_cfg d) (de_builder env) req = Ok (Some payload)"
    and d': "d' = d\<lparr>d_builder := trigger_finalize_block (block_anchor_choice (de_estimate env 0) d payload) payload (d_builder d)\<rparr>"
    unfolding on_l2_slot_tick_def Let_def
    by (cases "is_last_block_in_sequencing_window (d_lookahead d) time"; cases "get_suggested_max_size (d_handle d)")
       (auto split: outcome.splits option.splits)
  have "payload_parent payload = parent" "payload_timestamp payload = time" "payload_is_last payload = is_last"
    "tx_list_without_anchor_tx payload = [] \<longrightarrow> ?force \<or> is_last \<or> enable_building_empty_blocks (preconf (d_cfg d))"
    using b unfolding req
    by (auto simp: build_payload_def Let_def build_request_new_def with_max_size_def with_is_last_def with_force_empty_def
        split: if_splits)
  moreover have "tip \<le> number parent" "head_l1_origin (d_l2 d) \<le> number parent"
    using t by (simp_all add: not_less)
  moreover have "?force \<longrightarrow> head_block (d_l2 d) = 0 \<or> should_build_empty_block (d_outstanding d) time" by simp
  ultimately show ?thesis
    using g p d' unfolding block_anchor_choice_def
    by (intro conjI exI [of _ parent] exI [of _ tip] exI [of _ payload]) (simp_all split: option.split, blast)
qed

text \<open>The blocks of a batch below the first of the blocks to add, and the blocks to add.\<close>

fun added_below :: "batch \<Rightarrow> preconfirmed_block list \<Rightarrow> preconfirmed_block list" where
  "added_below b [] = blocks b"
| "added_below b (x # xs) = kept_blocks b (pb_number x) @ x # xs"

lemma add_blocks_conserves:
  assumes "add_blocks est i anchor bs d = Done d'" and "increasing bs"
  shows "\<exists>full. d_handle d' = d_handle d @
      (if can_propose (d_status d) then map (\<lambda>b. Submit b (inclusion_window_end (d_lookahead d))) full else []) \<and>
    concat (map blocks full) @ blocks (d_outstanding d') = added_below (d_outstanding d) bs \<and>
    d_status d' = d_status d \<and> d_builder d' = d_builder d"
  using assms
proof (induction est i anchor bs d rule: add_blocks.induct)
  case (1 est i anchor d)
  then show ?case by (auto intro: exI [of _ "[]"])
next
  case (2 est i anchor block rest d)
  obtain ob r where add: "add_block_and_reset_if_full (est i) (d_outstanding d) block anchor = (ob, r)"
    by (cases "add_block_and_reset_if_full (est i) (d_outstanding d) block anchor")
  have con: "full_batch_blocks r @ blocks ob = kept_blocks (d_outstanding d) (pb_number block) @ [block]"
    by (rule add_block_conserves [OF add])
  have below: "full_batch_blocks r @ added_below ob rest = added_below (d_outstanding d) (block # rest)"
  proof (cases rest)
    case (Cons y ys)
    have "pb_number z < pb_number y" if "z \<in> set (blocks ob)" for z
    proof -
      have "z \<in> set (kept_blocks (d_outstanding d) (pb_number block) @ [block])"
        using that con [symmetric] by simp
      then have "pb_number z \<le> pb_number block" by (auto simp: kept_blocks_def)
      also have "\<dots> < pb_number y" using "2.prems"(2) Cons by simp
      finally show ?thesis .
    qed
    then have "kept_blocks ob (pb_number y) = blocks ob" by (rule kept_blocks_all)
    then show ?thesis using con Cons by simp
  qed (use con in simp)
  have inc: "increasing rest" using "2.prems"(2) by simp
  show ?case
  proof (cases r)
    case (Added n)
    then show ?thesis
      using "2.IH"(1) [OF add [symmetric] Added] "2.prems"(1) inc add below
      by (simp add: full_batch_blocks_def split del: if_split cong: if_cong)
  next
    case (Full reason b)
    show ?thesis
    proof (cases "can_propose (d_status d)")
      case no: False
      then have "add_blocks est (Suc i) anchor rest (d\<lparr>d_outstanding := ob\<rparr>) = Done d'"
        using "2.prems"(1) add Full by (simp add: Let_def)
      from "2.IH"(2) [OF add [symmetric] Full refl refl, of "d\<lparr>d_outstanding := ob\<rparr>"] this inc no obtain full :: "batch list" where
        "d_handle d' = d_handle d" "concat (map blocks full) @ blocks (d_outstanding d') = added_below ob rest"
        "d_status d' = d_status d" "d_builder d' = d_builder d"
        by auto
      then show ?thesis using no below Full by (intro exI [of _ "b # full"]) (simp add: full_batch_blocks_def)
    next
      case yes: True
      obtain h where h: "trigger_batch_submission (d_handle d) b (inclusion_window_end (d_lookahead d)) = Some h"
        and rest: "add_blocks est (Suc i) anchor rest (d\<lparr>d_outstanding := ob, d_handle := h\<rparr>) = Done d'"
        using "2.prems"(1) yes add Full
        by (cases "trigger_batch_submission (d_handle d) b (inclusion_window_end (d_lookahead d))")
           (auto simp: Let_def submit_def)
      from "2.IH"(2) [OF add [symmetric] Full refl refl rest] yes inc obtain full where
        full: "d_handle d' = h @ map (\<lambda>b. Submit b (inclusion_window_end (d_lookahead d))) full"
        "concat (map blocks full) @ blocks (d_outstanding d') = added_below ob rest"
        "d_status d' = d_status d" "d_builder d' = d_builder d"
        by auto
      show ?thesis
      proof (cases "blocks b = []")
        case True
        then show ?thesis
          using yes h full below Full
          by (intro exI [of _ full]) (simp add: trigger_batch_submission_def full_batch_blocks_def)
      next
        case False
        then show ?thesis
          using yes h full below Full
          by (intro exI [of _ "b # full"])
             (auto simp: trigger_batch_submission_def send_cmd_def full_batch_blocks_def split: if_splits)
      qed
    qed
  qed
qed

text \<open>
  C10. What becomes of the blocks that a produced block adds (the missing ones and itself, by increasing
  numbers): the blocks of the batches that get full meanwhile, followed by those of the new outstanding batch,
  are the blocks of the old batch below the first added one and then the added ones, each once and in order. While
  the driver may propose, the full batches go into the channel, with the end of the inclusion window as their
  deadline; otherwise nothing is sent, and the full batches are dropped (a later synchronisation fetches their
  blocks again).
\<close>

theorem produced_blocks_are_conserved:
  assumes "on_produced_block env new_block anchor d = Done d'"
    and "increasing (gap_blocks env new_block d @ [new_block])"
  shows "\<exists>full. d_handle d' = d_handle d @
      (if can_propose (d_status d) then map (\<lambda>b. Submit b (inclusion_window_end (d_lookahead d))) full else []) \<and>
    concat (map blocks full) @ blocks (d_outstanding d') =
      added_below (d_outstanding d) (gap_blocks env new_block d @ [new_block])"
  using add_blocks_conserves [OF assms(1) [unfolded on_produced_block_def] assms(2)] by blast

lemma on_cmds_snoc_clear:
  "on_cmds p (cmds @ [ClearQueue]) = Some (p', as) \<Longrightarrow> request_queue p' = []"
  by (induction cmds arbitrary: p p' as) (auto simp: on_cmd_def split: option.splits prod.splits)

text \<open>
  C21. A block of L2 below the head is a reorg: the queue of the batch submitter is empty once it has taken the
  commands of the channel, the outstanding batch keeps exactly its blocks below the new one, and the head is the
  new block. The anchor in the cache does not move back.
\<close>

theorem reorg_drops_what_is_built_on_it:
  fixes new_l2 :: rpc_block and p' :: "('b, 'r) processor"
  assumes "on_l2_block env new_l2 d = Done d'" and "number (block_header new_l2) < head_block (d_l2 d)"
    and "answers_by_number (de_l1_header env)"
  shows "blocks (d_outstanding d') =
      filter (\<lambda>b. pb_number b < number (block_header new_l2)) (blocks (d_outstanding d)) \<and>
    anchor_block (d_outstanding d') = anchor_block (d_outstanding d) \<and>
    head_block (d_l2 d') = number (block_header new_l2) \<and>
    number (l1_anchor (d_l1 d)) \<le> number (l1_anchor (d_l1 d')) \<and>
    (on_cmds p (d_handle d') = Some (p', as) \<longrightarrow> request_queue p' = [])"
proof -
  let ?h = "block_header new_l2"
  obtain d1 where d1: "on_l2_reorg env (number ?h) d = Done d1"
    using assms(1,2) by (cases "on_l2_reorg env (number ?h) d") (auto simp: on_l2_block_def Let_def)
  then have reorg: "d_handle d1 = d_handle d @ [ClearQueue]" "d_l1 d1 = d_l1 d"
    "d_outstanding d1 = retain_blocks_before (d_outstanding d) (number ?h)"
    by (cases "clear_batch_submissions (d_handle d)",
        auto simp: on_l2_reorg_def clear_batch_submissions_def send_cmd_def update_head_l1_origin_def
          split: if_splits sum.splits)+
  have "d_handle d' = d_handle d1 \<and> d_outstanding d' = d_outstanding d1 \<and> head_block (d_l2 d') = number ?h \<and>
    (l1_anchor (d_l1 d') = l1_anchor (d_l1 d1) \<or> number (l1_anchor (d_l1 d1)) \<le> number (l1_anchor (d_l1 d')))"
    using assms d1
    by (auto simp: on_l2_block_def Let_def update_anchor_def answers_by_number_def split: if_splits sum.splits)
  then show ?thesis
    using reorg by (auto simp: retain_blocks_before_def dest: on_cmds_snoc_clear)
qed

text \<open>What a local submission does, when it returns: all blocks of the outstanding batch are handed over.\<close>

definition handed_over :: "submission_cmd list \<Rightarrow> preconfirmed_block \<Rightarrow> bool" where
  "handed_over cmds x = (\<exists>b deadline. Submit b deadline \<in> set cmds \<and> x \<in> set (blocks b))"

lemma submit_local_hands_over:
  assumes "submit_local_outstanding_batch bg deadline d = Done d'"
  shows "blocks (d_outstanding d') = []" "d_status d' = d_status d" "d_l1 d' = d_l1 d"
    "set (d_handle d) \<subseteq> set (d_handle d')" "\<forall>x \<in> set (blocks (d_outstanding d)). handed_over (d_handle d') x"
    "d_lookahead d' = d_lookahead d"
proof -
  let ?b = "fst (take_and_reset (d_outstanding d) (l1_anchor (d_l1 d)))"
  have r: "blocks (d_outstanding d') = [] \<and> d_status d' = d_status d \<and> d_l1 d' = d_l1 d \<and>
      d_lookahead d' = d_lookahead d \<and> d_handle d' = d_handle d @ (if blocks (d_outstanding d) = [] then [] else [Submit ?b deadline])"
    using assms unfolding submit_local_outstanding_batch_def await_idle_def
    by (cases "is_finalizing (fl_state (d_builder d)) = None"; cases "await_changed bg (d_builder d)";
        cases "trigger_batch_submission (d_handle d) ?b deadline")
       (auto simp: submit_def take_and_reset_def trigger_batch_submission_def send_cmd_def split: if_splits)
  then show "blocks (d_outstanding d') = []" "d_status d' = d_status d" "d_l1 d' = d_l1 d"
    "set (d_handle d) \<subseteq> set (d_handle d')" "d_lookahead d' = d_lookahead d" by auto
  show "\<forall>x \<in> set (blocks (d_outstanding d)). handed_over (d_handle d') x"
    using r by (auto simp: take_and_reset_def handed_over_def split: if_splits)
qed

text \<open>
  C15. In the handover window the driver holds no blocks back: after the tick of an L1 slot that leaves it in the
  status that only includes, the outstanding batch is empty, and unless the tick started a new window, which
  rebuilds the batches from the chain, every block that was in it has been handed to the batch submitter.
\<close>

theorem handover_submits_every_block:
  assumes "on_l1_slot_tick env time d = Done d'" and "d_status d' = InclusionOnly"
    and "cfg_timestamp_to_l1_slot (d_cfg d) time = Some slot"
    and "\<not> (slot mod EPOCH_SLOTS = 0 \<and> is_new_inclusion_window (d_lookahead d) slot)"
  shows "blocks (d_outstanding d') = [] \<and> (\<forall>x \<in> set (blocks (d_outstanding d)). handed_over (d_handle d') x)"
proof -
  let ?d0 = "d\<lparr>d_l1 := (d_l1 d)\<lparr>l1_head_slot := slot\<rparr>\<rparr>"
  from assms(1,3) obtain left d1 d2 d3 where
    phases: "propose_before_age_limit env left ?d0 = Done d1" "new_window_or_status env slot d1 = Done d2"
      "propose_in_handover env d2 = Done d3"
    and d': "d' = update_outstanding_batch_anchor_if_needed d3"
    by (auto simp: on_l1_slot_tick_def Let_def elim!: then_h_DoneE)
  have 1: "(\<exists>bg deadline. submit_local_outstanding_batch bg deadline ?d0 = Done d1) \<or> d1 = ?d0"
    using phases(1) unfolding propose_before_age_limit_def
    by (cases "current_slot (d_cfg ?d0) (de_now env)") (auto split: if_splits)
  have la: "d_lookahead d1 = d_lookahead d"
    using 1 submit_local_hands_over(6) by force
  have 2: "\<exists>st. d2 = update_status st d1"
    using phases(2) assms(4) unfolding new_window_or_status_def la
    by (cases "compute_driver_status (d_lookahead d) slot (de_now env) (de_instant env)") (auto split: if_splits)
  have upd: "blocks (d_outstanding d') = blocks (d_outstanding d3)" "d_status d' = d_status d3" "d_handle d' = d_handle d3"
    by (simp_all add: d' update_outstanding_batch_anchor_if_needed_def change_anchor_def)
  have st: "d_outstanding d2 = d_outstanding d1" "d_handle d2 = d_handle d1"
    using 2 by (auto simp: update_status_def)
  obtain bg deadline where 3: "submit_local_outstanding_batch bg deadline d2 = Done d3"
    using phases(3) assms(2) upd(2) by (auto simp: propose_in_handover_def split: if_splits)
  note last = submit_local_hands_over [OF 3, unfolded st]
  have "handed_over (d_handle d3) x" if "x \<in> set (blocks (d_outstanding d))" for x
    using 1
  proof (elim disjE exE)
    fix bg deadline assume s: "submit_local_outstanding_batch bg deadline ?d0 = Done d1"
    then show ?thesis
      using submit_local_hands_over(5) [OF s] that last(4) by (fastforce simp: handed_over_def)
  next
    assume "d1 = ?d0"
    then show ?thesis using last(5) that by simp
  qed
  with last(1) upd show ?thesis by auto
qed

lemma update_status_sel [simp]:
  "d_cfg (update_status st d) = d_cfg d" "d_l1 (update_status st d) = d_l1 d" "d_l2 (update_status st d) = d_l2 d"
  "d_builder (update_status st d) = d_builder d" "d_handle (update_status st d) = d_handle d"
  "d_lookahead (update_status st d) = d_lookahead d" "d_outstanding (update_status st d) = d_outstanding d"
  by (simp_all add: update_status_def)

lemma batch_anchor_sel:
  "d_l1 (update_outstanding_batch_anchor_if_needed d) = d_l1 d" "d_l2 (update_outstanding_batch_anchor_if_needed d) = d_l2 d"
  "blocks (d_outstanding (update_outstanding_batch_anchor_if_needed d)) = blocks (d_outstanding d)"
  "anchor_block (d_outstanding (update_outstanding_batch_anchor_if_needed d)) =
     (if blocks (d_outstanding d) = [] \<and> is_finalizing (fl_state (d_builder d)) = None
      then l1_anchor (d_l1 d) else anchor_block (d_outstanding d))"
  by (simp_all add: update_outstanding_batch_anchor_if_needed_def change_anchor_def)

text \<open>
  C23. What L1 has proposed leaves the outstanding batch: when the L1 information is updated, the origin is the
  one of the inbox, the batch keeps exactly its blocks above it, and an empty batch is anchored at the newest
  anchor unless a block is being finalized. Without a router the driver is inactive, whatever the lookahead says.
\<close>

theorem proposed_blocks_leave_the_batch:
  assumes "update_l1_info env l1_header d = Done (d', Inr slot)"
  shows "\<exists>origin. get_head_l1_origin (de_stats2 env) (de_batch env) = Inr origin \<and> head_l1_origin (d_l2 d') = origin \<and>
    blocks (d_outstanding d') = filter (\<lambda>b. origin < pb_number b) (blocks (d_outstanding d)) \<and>
    cfg_timestamp_to_l1_slot (d_cfg d) (timestamp l1_header) = Some slot \<and> tip (d_l1 d') = l1_header \<and>
    anchor_block (d_outstanding d') =
      (if blocks (d_outstanding d') = [] \<and> is_finalizing (fl_state (d_builder d)) = None
       then l1_anchor (d_l1 d') else anchor_block (d_outstanding d)) \<and>
    (\<not> preconf_router_set (d_l1 d) \<longrightarrow> d_status d' = Inactive)"
proof -
  obtain l1 r where l1: "l1_sync (de_l1_header env) l1_header (d_l1 d) = (l1, r)"
    by (cases "l1_sync (de_l1_header env) l1_header (d_l1 d)")
  have l1_facts: "tip l1 = l1_header" "preconf_router_set l1 = preconf_router_set (d_l1 d)"
    using l1 by (auto simp: l1_sync_def update_anchor_def Let_def split: if_splits sum.splits)
  obtain slot' where slot': "cfg_timestamp_to_l1_slot (d_cfg d) (timestamp l1_header) = Some slot'"
    using assms by (cases "cfg_timestamp_to_l1_slot (d_cfg d) (timestamp l1_header)") (auto simp: update_l1_info_def)
  note run = assms [unfolded update_l1_info_def slot' expect.simps then_h.simps l1 prod.case]
  obtain u where r: "r = Inr u" using run by (cases r) auto
  obtain origin where origin: "get_head_l1_origin (de_stats2 env) (de_batch env) = Inr origin"
    using run by (cases "get_head_l1_origin (de_stats2 env) (de_batch env)") (auto simp: r update_head_l1_origin_def)
  let ?d = "update_outstanding_batch_anchor_if_needed
    (d\<lparr>d_l1 := l1, d_l2 := (d_l2 d)\<lparr>head_l1_origin := origin\<rparr>, d_outstanding := retain_blocks_after (d_outstanding d) origin\<rparr>)"
  from run obtain la st where d': "d' = update_status st (?d\<lparr>d_lookahead := la\<rparr>)" and slot: "slot' = slot"
    by (auto simp: r update_head_l1_origin_def origin Let_def sync_lookahead_def split: prod.splits elim!: then_h_DoneE)
  have "blocks (d_outstanding d') = filter (\<lambda>b. origin < pb_number b) (blocks (d_outstanding d))"
    "head_l1_origin (d_l2 d') = origin" "d_l1 d' = l1"
    by (simp_all add: d' batch_anchor_sel retain_blocks_after_def)
  moreover have "anchor_block (d_outstanding d') = (if blocks (d_outstanding d') = [] \<and>
      is_finalizing (fl_state (d_builder d)) = None then l1_anchor l1 else anchor_block (d_outstanding d))"
    by (simp add: d' batch_anchor_sel retain_blocks_after_def)
  moreover have "d_status d' = Inactive" if "\<not> preconf_router_set (d_l1 d)"
    using that l1_facts by (simp add: d' update_status_def batch_anchor_sel)
  ultimately show ?thesis
    using l1_facts origin slot' slot by simp
qed

section \<open>Examples\<close>

definition example_driver :: driver where
  "example_driver =
     \<lparr>d_cfg = example_config, d_l1 = example_l1, d_l2 = \<lparr>head_block = 0, head_l1_origin = 1\<rparr>, d_status = Active,
      d_builder = in_flight_new, d_handle = [], d_lookahead = lookahead_new example_config,
      d_outstanding = example_batch\<rparr>"

definition example_env :: "unit driver_env" where
  "example_env =
     \<lparr>de_now = 2000, de_instant = 0, de_current_operator = Inr 8, de_next_operator = Inr 8,
      de_l1_header = \<lambda>n. Inr (example_header n 0),
      de_stats2 = sy_stats2 example_sync_env, de_batch = sy_batch example_sync_env,
      de_l2_header = \<lambda>n. Inr (example_header 4 1000), de_preconf_status = Inr 4, de_max_size = 100,
      de_background = [], de_rounds = [], de_download = \<lambda>lo hi. Inr [], de_builder = example_env_builder,
      de_estimate = \<lambda>_. id, de_estimate_reanchor = \<lambda>_. id\<rparr>"

definition example_busy :: driver where
  "example_busy =
     example_driver\<lparr>d_builder := trigger_finalize_block (example_header 1 1000) example_payload in_flight_new\<rparr>"

theorem proposal_during_finalization_mixes_anchors_witness:
  "\<exists>d1 d2. submit_local_outstanding_batch [] 10 example_busy = Done d1 \<and>
    is_finalizing (fl_state (d_builder d1)) = Some 5 \<and>
    on_produced_block example_env (example_block 5 1002 7 10) (example_header 1 1000) d1 = Done d2 \<and>
    anchor_block (d_outstanding d2) \<noteq> example_header 1 1000"
proof -
  have "\<exists>d1 d2. submit_local_outstanding_batch [] 10 example_busy = Done d1 \<and>
    is_finalizing (fl_state (d_builder d1)) = Some (number (payload_parent example_payload) + 1) \<and>
    on_produced_block example_env (example_block 5 1002 7 10) (example_header 1 1000) d1 = Done d2 \<and>
    blocks (d_outstanding d2) = [example_block 5 1002 7 10] \<and> anchor_block (d_outstanding d2) \<noteq> example_header 1 1000"
    by (rule proposal_during_finalization_mixes_anchors [where payload = example_payload and f = in_flight_new])
       (simp_all add: example_busy_def example_driver_def in_flight_new_def builder_state_new_def MAX_BUFFERED_BATCHES_def
          example_defs example_l1_def example_env_def doesnt_fit_def raw_size_def eip2718_encoded_length_def)
  then show ?thesis by (auto simp: example_payload_def example_header_def)
qed

theorem second_submission_deadlocks_witness:
  "then_h (submit_local_outstanding_batch [] 10 example_busy)
     (submit_local_outstanding_batch
        [(0, Ok \<lparr>resp_preconfirmed_block = example_block 5 1002 7 10, resp_anchor = example_header 1 1000\<rparr>)] 10) = Hangs"
  by (rule second_submission_deadlocks [where payload = example_payload and f = in_flight_new])
     (simp_all add: example_busy_def example_driver_def in_flight_new_def builder_state_new_def MAX_BUFFERED_BATCHES_def)

lemma example_driver_sel [simp]:
  "d_cfg example_driver = example_config" "d_l1 example_driver = example_l1"
  "d_l2 example_driver = \<lparr>head_block = 0, head_l1_origin = 1\<rparr>" "d_status example_driver = Active"
  "d_builder example_driver = in_flight_new" "d_handle example_driver = []"
  "d_lookahead example_driver = lookahead_new example_config" "d_outstanding example_driver = example_batch"
  by (simp_all add: example_driver_def)

lemma example_env_sel [simp]:
  "de_now example_env = 2000" "de_instant example_env = 0" "de_current_operator example_env = Inr 8"
  "de_next_operator example_env = Inr 8" "de_l1_header example_env = (\<lambda>n. Inr (example_header n 0))"
  "de_stats2 example_env = sy_stats2 example_sync_env" "de_batch example_env = sy_batch example_sync_env"
  "de_l2_header example_env = (\<lambda>n. Inr (example_header 4 1000))" "de_preconf_status example_env = Inr 4"
  "de_rounds example_env = []" "de_background example_env = []" "de_builder example_env = example_env_builder"
  "de_estimate example_env = (\<lambda>_. id)"
  by (simp_all add: example_env_def)

lemma example_slot:
  "cfg_timestamp_to_l1_slot example_config 2236 = Some 103" "cfg_timestamp_to_l1_slot example_config 2000 = Some 83"
  "current_slot example_config 2000 = Some 83"
  by (simp_all add: cfg_timestamp_to_l1_slot_def current_slot_def timestamp_to_l1_slot_def checked_div_def sat_sub_def example_config_def)

lemma example_l2_tick:
  "\<exists>payload. on_l2_slot_tick example_env 2000 example_driver =
      Done (example_driver\<lparr>d_builder := trigger_finalize_block
        (block_anchor_choice id example_driver payload) payload in_flight_new\<rparr>)"
proof -
  have "window_end (sequencing_window (lookahead_new example_config)) = 0"
    by (simp add: lookahead_new_def with_offset_def window_end_def WINDOW_SIZE_def numeral_eq_Suc)
  then have last: "is_last_block_in_sequencing_window (lookahead_new example_config) 2000 = Some False"
    by (simp add: is_last_block_in_sequencing_window_def lookahead_new_def example_slot sat_sub_def)
  have "\<exists>payload. build_payload example_config example_env_builder (with_max_size m (with_is_last False
      (with_force_empty True (build_request_new 2000 (example_header 4 1000))))) = Ok (Some payload)" for m
    by (simp add: build_payload_def example_env_builder_def get_next_block_base_fee_def get_base_fee_v2_def Let_def
       with_max_size_def with_is_last_def with_force_empty_def build_request_new_def)
  then obtain payload where payload: "build_payload example_config example_env_builder (with_max_size (de_max_size example_env)
      (with_is_last False (with_force_empty True (build_request_new 2000 (example_header 4 1000))))) = Ok (Some payload)"
    by blast
  have "number (example_header 4 1000) = 4" by (simp add: example_header_def)
  then show ?thesis
    by (simp add: on_l2_slot_tick_def in_flight_new_def builder_state_new_def is_finalizing_def can_sequence_def last
        get_suggested_max_size_def send_cmd_def MAX_BUFFERED_BATCHES_def payload) blast
qed

theorem block_production_is_guarded_witness:
  "\<exists>d'. on_l2_slot_tick example_env 2000 example_driver = Done d' \<and> d' \<noteq> example_driver \<and>
    can_sequence (d_status example_driver)"
proof -
  from example_l2_tick obtain f where
    d': "on_l2_slot_tick example_env 2000 example_driver = Done (example_driver\<lparr>d_builder := f\<rparr>)"
    and f: "is_finalizing (fl_state f) \<noteq> None"
    by (fastforce simp: trigger_finalize_block_def set_finalizing_def watch_send_def is_finalizing_def)
  have "d_builder (example_driver\<lparr>d_builder := f\<rparr>) \<noteq> d_builder example_driver"
    using f by (auto simp: in_flight_new_def builder_state_new_def is_finalizing_def)
  then have "example_driver\<lparr>d_builder := f\<rparr> \<noteq> example_driver" by metis
  with block_production_is_guarded [OF d' this] d' show ?thesis by blast
qed

theorem produced_blocks_are_conserved_witness:
  "\<exists>d'. \<exists>full :: batch list. on_produced_block example_env (example_block 4 1003 7 10) (example_header 1 1000) example_driver = Done d' \<and>
    concat (map blocks full) @ blocks (d_outstanding d') =
      [example_block 2 1001 7 10, example_block 3 1002 7 10, example_block 4 1003 7 10]"
proof -
  let ?x = "example_block 4 1003 7 10"
  have gap: "gap_blocks example_env ?x example_driver = []"
    by (simp add: gap_blocks_def blocks_range_def example_defs sat_add_def sat_sub_def)
  obtain ob r where add: "add_block_and_reset_if_full id example_batch ?x (example_header 1 1000) = (ob, r)"
    by (cases "add_block_and_reset_if_full id example_batch ?x (example_header 1 1000)")
  obtain d' where d': "on_produced_block example_env ?x (example_header 1 1000) example_driver = Done d'"
    by (cases r) (auto simp: on_produced_block_def gap add submit_result MAX_BUFFERED_BATCHES_def Let_def can_propose_def)
  have "increasing (gap_blocks example_env ?x example_driver @ [?x])" by (simp add: gap)
  from produced_blocks_are_conserved [OF d' this] obtain full :: "batch list" where
    "concat (map blocks full) @ blocks (d_outstanding d') = added_below example_batch [?x]"
    by (auto simp: gap)
  moreover have "added_below example_batch [?x] = [example_block 2 1001 7 10, example_block 3 1002 7 10, ?x]"
    by (simp add: kept_blocks_def example_defs)
  ultimately show ?thesis using d' by metis
qed

theorem reorg_drops_what_is_built_on_it_witness:
  "\<exists>d'. on_l2_block example_env \<lparr>block_header = example_header 3 1000, transactions = Full_Txs [(TAIKO_GOLDEN_TOUCH_ACCOUNT, [21])]\<rparr>
      (example_driver\<lparr>d_l2 := \<lparr>head_block = 9, head_l1_origin = 1\<rparr>\<rparr>) = Done d' \<and>
    blocks (d_outstanding d') = [example_block 2 1001 7 10]"
proof -
  let ?b = "\<lparr>block_header = example_header 3 1000, transactions = Full_Txs [(TAIKO_GOLDEN_TOUCH_ACCOUNT, [21])]\<rparr> :: rpc_block"
  let ?d = "example_driver\<lparr>d_l2 := \<lparr>head_block = 9, head_l1_origin = 1\<rparr>\<rparr>"
  have "\<exists>d'. on_l2_block example_env ?b ?d = Done d'"
    by (simp add: on_l2_block_def on_l2_reorg_def clear_batch_submissions_def send_cmd_def MAX_BUFFERED_BATCHES_def
        example_header_def Let_def split: sum.split)
  then obtain d' where d': "on_l2_block example_env ?b ?d = Done d'" by blast
  have "number (block_header ?b) < head_block (d_l2 ?d)" "answers_by_number (de_l1_header example_env)"
    by (simp_all add: example_header_def answers_by_number_def)
  from reorg_drops_what_is_built_on_it [OF d' this, where p = "processor_new example_config :: (unit, unit) processor"
      and p' = "processor_new example_config" and as = "[]"] have
    "blocks (d_outstanding d') = filter (\<lambda>b. pb_number b < 3) (blocks example_batch)"
    by (simp add: example_header_def)
  with d' show ?thesis by (auto simp: example_defs)
qed


lemma example_handover_status:
  "compute_driver_status example_lookahead 60 1720 0 = Some InclusionOnly"
proof -
  note f = example_lookahead_facts
  have h: "handover example_lookahead = 4"
    by (simp add: handover_def f(2) example_config_def default_preconf_opts_def)
  have incl: "window_contains (inclusion_window example_lookahead) s \<longleftrightarrow> unat s div 32 = 1" for s
    by (simp add: in_windows [OF f(1)] f(3))
  have "\<not> window_contains (sequencing_window example_lookahead) 60"
    by (simp add: in_windows [OF f(1)] f(3) h)
  moreover have "window_contains (inclusion_window example_lookahead) 60" by (simp add: incl)
  ultimately show ?thesis
    by (simp add: compute_driver_status_def)
qed

definition example_handover :: driver where
  "example_handover = example_driver\<lparr>d_lookahead := example_lookahead\<rparr>"

lemma idle_submission_returns:
  assumes "is_finalizing (fl_state (d_builder d)) = None" "length (d_handle d) < MAX_BUFFERED_BATCHES"
  shows "\<exists>d'. submit_local_outstanding_batch bg deadline d = Done d' \<and> d_builder d' = d_builder d \<and>
    d_lookahead d' = d_lookahead d \<and> d_cfg d' = d_cfg d \<and> d_status d' = d_status d \<and> d_l1 d' = d_l1 d \<and>
    length (d_handle d') \<le> Suc (length (d_handle d))"
  using assms by (simp add: submit_local_outstanding_batch_def await_idle_def take_and_reset_def submit_result)

lemma example_slot_60:
  "cfg_timestamp_to_l1_slot example_config 1720 = Some 60" "current_slot example_config 1720 = Some 60"
  by (simp_all add: cfg_timestamp_to_l1_slot_def current_slot_def timestamp_to_l1_slot_def checked_div_def sat_sub_def
      example_config_def)

lemma example_l1_tick:
  "\<exists>d'. on_l1_slot_tick (example_env\<lparr>de_now := 1720\<rparr>) 1720 example_handover = Done d' \<and> d_status d' = InclusionOnly"
proof -
  let ?env = "example_env\<lparr>de_now := 1720\<rparr>"
  let ?d0 = "example_handover\<lparr>d_l1 := (d_l1 example_handover)\<lparr>l1_head_slot := 60\<rparr>\<rparr>"
  let ?left = "compute_age_limit (d_outstanding ?d0) (1720 + l1_block_time (chain (d_cfg ?d0))) (number (tip (d_l1 ?d0)) + 1)"
  have idle: "is_finalizing (fl_state in_flight_new) = None"
    by (simp add: is_finalizing_def in_flight_new_def builder_state_new_def)
  have d0: "d_builder ?d0 = in_flight_new" "d_handle ?d0 = []" "d_cfg ?d0 = example_config"
    "d_lookahead ?d0 = example_lookahead" "preconf_router_set (d_l1 ?d0)"
    by (simp_all add: example_handover_def example_l1_def)
  obtain d1 where d1: "propose_before_age_limit ?env ?left ?d0 = Done d1" "d_builder d1 = in_flight_new"
    "length (d_handle d1) \<le> 1" "d_lookahead d1 = example_lookahead" "preconf_router_set (d_l1 d1)"
    using idle_submission_returns [of ?d0 "de_background ?env" "60 + ?left"] idle d0
    by (cases "?left \<le> preconf_anchor_max_height_buffer (preconf example_config)")
       (auto simp: propose_before_age_limit_def example_slot_60 MAX_BUFFERED_BATCHES_def)
  let ?d2 = "update_status InclusionOnly d1"
  have d2: "new_window_or_status ?env 60 d1 = Done ?d2"
    by (simp add: new_window_or_status_def EPOCH_SLOTS_def d1(4) example_handover_status)
  have st: "d_status ?d2 = InclusionOnly" using d1(5) by (simp add: update_status_def)
  obtain d3 where d3: "propose_in_handover ?env ?d2 = Done d3" "d_status d3 = InclusionOnly"
    using idle_submission_returns [of ?d2 "de_background ?env" "inclusion_window_end (d_lookahead ?d2)"] d1(2,3) idle st
    by (auto simp: propose_in_handover_def MAX_BUFFERED_BATCHES_def)
  have "on_l1_slot_tick ?env 1720 example_handover = Done (update_outstanding_batch_anchor_if_needed d3)"
    using d0(3) d1(1) by (simp add: on_l1_slot_tick_def example_slot_60 Let_def d2 d3(1))
  then show ?thesis using d3(2) by (simp add: update_outstanding_batch_anchor_if_needed_def)
qed

theorem handover_submits_every_block_witness:
  "\<exists>d'. on_l1_slot_tick (example_env\<lparr>de_now := 1720\<rparr>) 1720 example_handover = Done d' \<and>
    blocks (d_outstanding d') = [] \<and> handed_over (d_handle d') (example_block 3 1002 7 10)"
proof -
  obtain d' where d': "on_l1_slot_tick (example_env\<lparr>de_now := 1720\<rparr>) 1720 example_handover = Done d'" "d_status d' = InclusionOnly"
    using example_l1_tick by blast
  have "cfg_timestamp_to_l1_slot (d_cfg example_handover) 1720 = Some 60"
    by (simp add: example_handover_def cfg_timestamp_to_l1_slot_def timestamp_to_l1_slot_def checked_div_def sat_sub_def example_config_def)
  moreover have "\<not> (60 mod EPOCH_SLOTS = 0 \<and> is_new_inclusion_window (d_lookahead example_handover) 60)"
    by (simp add: EPOCH_SLOTS_def)
  ultimately have "blocks (d_outstanding d') = [] \<and> (\<forall>x \<in> set (blocks example_batch). handed_over (d_handle d') x)"
    using handover_submits_every_block [OF d'] by (simp add: example_handover_def)
  then show ?thesis using d'(1) by (auto simp: example_batch_def)
qed


text \<open>A start whose sync finds nothing to repost, and the first block after it.\<close>

definition example_round :: sync_round where
  "example_round =
     \<lparr>r_current_operator = Inr 8, r_next_operator = Inr 8, r_now = 2000, r_instant = 0, r_background = [],
      r_sync = example_sync_env\<lparr>sy_l2_head := Inr 2, sy_download := \<lambda>lo hi. Inr []\<rparr>\<rparr>"

definition quiet :: "driver \<Rightarrow> bool" where
  "quiet d = (d_cfg d = example_config \<and> la_cfg (d_lookahead d) = example_config \<and>
     d_builder d = in_flight_new \<and> d_handle d = [])"

lemma quiet_sync_lookahead:
  assumes "quiet d"
  shows "\<exists>d'. sync_lookahead slot cur nxt now inst d = Done d' \<and> quiet d'"
proof -
  obtain la st where la: "lookahead_sync (d_lookahead d) slot cur nxt now inst = (la, st)"
    by (cases "lookahead_sync (d_lookahead d) slot cur nxt now inst")
  then have "la_cfg la = example_config" "st = compute_driver_status la slot now inst"
    using assms by (auto simp: lookahead_sync_def quiet_def Let_def split: if_splits sum.splits)
  moreover from this(1) have "l1_block_time (chain (la_cfg la)) \<noteq> 0" by (simp add: example_config_def)
  ultimately show ?thesis
    using compute_status_total [of la slot now inst] assms by (auto simp: sync_lookahead_def la quiet_def)
qed

lemma example_l1_sync: "\<exists>l1. l1_sync (\<lambda>n. Inr (example_header n 0)) h l1_0 = (l1, Inr ())"
  by (simp add: l1_sync_def update_anchor_def Let_def)

lemma example_slot_103: "cfg_timestamp_to_l1_slot example_config (timestamp (example_header 103 2236)) = Some 103"
  using example_slot(1) by (simp add: example_header_def)

lemma quiet_update:
  assumes "quiet d"
  shows "\<exists>d'. update_l1_info (example_env\<lparr>de_rounds := rs\<rparr>) (example_header 103 2236) d = Done (d', Inr 103) \<and> quiet d'"
proof -
  obtain l1 where l1: "l1_sync (\<lambda>n. Inr (example_header n 0)) (example_header 103 2236) (d_l1 d) = (l1, Inr ())"
    using example_l1_sync by blast
  let ?d = "update_outstanding_batch_anchor_if_needed
    (d\<lparr>d_l1 := l1, d_l2 := (d_l2 d)\<lparr>head_l1_origin := 2\<rparr>, d_outstanding := retain_blocks_after (d_outstanding d) 2\<rparr>)"
  have "quiet ?d"
    using assms by (simp add: quiet_def update_outstanding_batch_anchor_if_needed_def)
  then obtain d' where d': "sync_lookahead 103 (Inr 8) (Inr 8) 2000 0 ?d = Done d'" "quiet d'"
    using quiet_sync_lookahead by blast
  have "d_cfg d = example_config" using assms by (simp add: quiet_def)
  then show ?thesis
    using d' by (simp add: update_l1_info_def example_slot_103 l1 update_head_l1_origin_def example_origin Let_def)
qed

text \<open>A start whose download is \<open>f\<close>; the sync does not need it, as there is no soft block.\<close>

definition round_with :: "(u64 \<Rightarrow> u64 \<Rightarrow> syncer_error + anchored_block list) \<Rightarrow> sync_round" where
  "round_with f = example_round\<lparr>r_sync := (r_sync example_round)\<lparr>sy_download := f\<rparr>\<rparr>"

lemma round_with_example: "example_round = round_with (\<lambda>lo hi. Inr [])"
  by (simp add: round_with_def example_round_def)

lemma quiet_sync_and_propose:
  assumes "quiet d"
  shows "\<exists>d' a. sync_and_propose (example_env\<lparr>de_rounds := [round_with f]\<rparr>) d = Done d' \<and> quiet d' \<and>
    d_outstanding d' = batch_new a (cfg_batch_settings example_config)"
proof -
  let ?env = "example_env\<lparr>de_rounds := [round_with f]\<rparr>"
  obtain d1 where d1: "sync_lookahead (l1_head_slot (d_l1 d)) (Inr 8) (Inr 8) 2000 0 d = Done d1" "quiet d1"
    using quiet_sync_lookahead [OF assms] by blast
  have idle: "await_idle [] d1 = Done d1"
    using d1(2) by (simp add: quiet_def await_idle_def is_finalizing_def in_flight_new_def builder_state_new_def)
  obtain a where sync: "sync example_config c est est' (r_sync (round_with f)) status =
      Ok ([batch_new a (cfg_batch_settings example_config)], [], Map.empty)" for c :: "unit anchor_codec" and est est' status
    by (simp add: sync_def round_with_def example_round_def example_sync_env_def get_head_l1_origin_def example_inbox_batch_def)
  have loop: "sync_loop ?env [round_with f] d = Done (d1, [batch_new a (cfg_batch_settings example_config)], [], Map.empty)"
    using d1 idle sync by (simp add: quiet_def) (simp add: round_with_def example_round_def)
  have "coinbase (batch_new a (cfg_batch_settings example_config)) = operator_address example_config"
    by (simp add: batch_new_def cfg_batch_settings_def)
  then have pop: "pop_ob [batch_new a (cfg_batch_settings example_config)] d1 = ([], batch_new a (cfg_batch_settings example_config))"
    using d1(2) by (simp add: pop_ob_def pop_with_coinbase_def quiet_def)
  show ?thesis
    using d1(2) by (simp add: sync_and_propose_def loop pop quiet_def del: sync_loop.simps) blast
qed


lemma example_env_rounds: "example_env\<lparr>de_rounds := []\<rparr> = example_env"
  by (simp add: example_env_def)

theorem proposed_blocks_leave_the_batch_witness:
  "\<exists>d'. update_l1_info example_env (example_header 103 2236) example_driver = Done (d', Inr 103) \<and>
    blocks (d_outstanding d') = [example_block 3 1002 7 10]"
proof -
  obtain d' where d': "update_l1_info example_env (example_header 103 2236) example_driver = Done (d', Inr 103)"
    using quiet_update [of example_driver "[]"] by (auto simp: quiet_def lookahead_new_def example_env_rounds)
  have "blocks (d_outstanding d') = filter (\<lambda>b. 2 < pb_number b) (blocks example_batch)"
    using proposed_blocks_leave_the_batch [OF d'] by (auto simp: example_origin)
  then have "blocks (d_outstanding d') = [example_block 3 1002 7 10]" by (simp add: example_defs)
  with d' show ?thesis by blast
qed

end
