(* ===== verification/System.thy ===== *)
theory System
  imports Driver_Correct
begin

text \<open>
  The driver and the batch submitter together. The driver of \<open>crates/driver/src/driver.rs\<close> and the actor of
  \<open>crates/driver/src/batch_submitter/processor.rs\<close> run in tasks of their own and share two channels: the commands
  of the driver, \<open>d_handle\<close>, and the results of the actor, \<open>result_channel\<close>. A step of the system is a handler
  of the driver, a poll of the actor that takes some of the commands, a result that the driver takes, or the
  end of a background task. Two contracts are shown: every batch that is ever posted is well-formed, and as
  long as nothing fails no block is lost, repeated or reordered between the block builder and L1.
\<close>

section \<open>The composed system\<close>

record ('b, 'r) system =
  sys_driver :: driver
  sys_actor :: "('b, 'r) processor"

text \<open>
  Whether the tick of an L2 slot comes to the question for the size of the next block, which waits for the
  answer of the actor.
\<close>

definition asks_for_size :: "'sig driver_env \<Rightarrow> 'b driver_event \<Rightarrow> driver \<Rightarrow> bool" where
  "asks_for_size env event d =
     (case event of
        L2_Slot_Tick time \<Rightarrow>
          can_sequence (d_status d) \<and> is_finalizing (fl_state (d_builder d)) = None \<and>
          (case (de_l2_header env None, de_preconf_status env) of
             (Inr parent, Inr highest_unsafe_block) \<Rightarrow>
               max highest_unsafe_block (head_l1_origin (d_l2 d)) \<le> number parent \<and>
               is_last_block_in_sequencing_window (d_lookahead d) time \<noteq> None
           | _ \<Rightarrow> False)
      | _ \<Rightarrow> False)"

text \<open>The blocks that a handler adds to the outstanding batch.\<close>

definition blocks_added :: "'sig driver_env \<Rightarrow> 'b driver_event \<Rightarrow> driver \<Rightarrow> preconfirmed_block list" where
  "blocks_added env event d =
     (case (event, fl_channel (d_builder d)) of
        (Block_Produced, r # rs) \<Rightarrow>
          (case into_block_with_anchor r (fl_state (d_builder d)) of
             ((new_block, anchor), st) \<Rightarrow> gap_blocks env new_block d @ [new_block])
      | _ \<Rightarrow> [])"

definition on_batch_result :: "'sig driver_env \<Rightarrow> ('b, 'r) batch_result \<Rightarrow> driver \<Rightarrow> driver handled" where
  "on_batch_result env res d =
     (case res of Inr receipt \<Rightarrow> Done d | Inl e \<Rightarrow> handle_event env (Batch_Error e) d)"

definition is_batch_error :: "'b driver_event \<Rightarrow> bool" where
  "is_batch_error event = (case event of Batch_Error e \<Rightarrow> True | _ \<Rightarrow> False)"

text \<open>
  The labels: a handler with the blocks it added, a tick that asked the actor, a poll that took the first
  \<open>n\<close> commands, and what goes on beside them. The last component of a poll is the batch that it started.
\<close>

datatype ('sig, 'b, 'r) system_event =
    Handled "'sig driver_env" "'b driver_event" "preconfirmed_block list"
  | Size_Asked "'sig driver_env" u64 "('b, 'r) batch_result option" "(batch \<times> u64) option"
  | Polled "('b, 'r) batch_result option" nat "(batch \<times> u64) option"
  | Result_Read "'sig driver_env"
  | Task_Ended nat "(builder_error, builder_response) outcome"
  | Router_Read "rpc_error + address"

inductive system_moves ::
  "('b, 'r) system \<Rightarrow> ('sig, 'b, 'r) system_event \<Rightarrow> ('b, 'r) system \<Rightarrow> bool" where
  handled: "\<not> asks_for_size env event (sys_driver s) \<Longrightarrow> \<not> is_batch_error event \<Longrightarrow>
    handle_event env event (sys_driver s) = Done d \<Longrightarrow>
    system_moves s (Handled env event (blocks_added env event (sys_driver s))) (s\<lparr>sys_driver := d\<rparr>)"
| size_asked: "asks_for_size env (L2_Slot_Tick time :: 'b driver_event) (sys_driver s) \<Longrightarrow>
    get_suggested_max_size (d_handle (sys_driver s)) = Some cmds \<Longrightarrow>
    poll_round (sys_actor s) ready cmds = Some r \<Longrightarrow> answers r = [de_max_size env] \<Longrightarrow>
    on_l2_slot_tick env time (sys_driver s) = Done d \<Longrightarrow>
    system_moves s (Size_Asked env time ready (started r))
      (s\<lparr>sys_driver := d\<lparr>d_handle := []\<rparr>, sys_actor := after_round r\<rparr>)"
| polled: "poll_round (sys_actor s) ready (take n (d_handle (sys_driver s))) = Some r \<Longrightarrow>
    system_moves s (Polled ready n (started r))
      (s\<lparr>sys_driver := (sys_driver s)\<lparr>d_handle := drop n (d_handle (sys_driver s))\<rparr>, sys_actor := after_round r\<rparr>)"
| result_read: "result_channel (sys_actor s) = res # results \<Longrightarrow> on_batch_result env res (sys_driver s) = Done d \<Longrightarrow>
    system_moves s (Result_Read env)
      (s\<lparr>sys_driver := d, sys_actor := (sys_actor s)\<lparr>result_channel := results\<rparr>\<rparr>)"
| task_ended: "i < length (fl_running (d_builder (sys_driver s))) \<Longrightarrow>
    system_moves s (Task_Ended i result)
      (s\<lparr>sys_driver := (sys_driver s)\<lparr>d_builder := finalize_task_done i result (d_builder (sys_driver s))\<rparr>\<rparr>)"
| router_read: "system_moves s (Router_Read answer)
      (s\<lparr>sys_driver := (sys_driver s)\<lparr>d_l1 := store_preconf_router answer (d_l1 (sys_driver s))\<rparr>\<rparr>)"

inductive_cases moves_HandledE: "system_moves s (Handled env event bs) t"
inductive_cases moves_Size_AskedE: "system_moves s (Size_Asked env time ready start) t"
inductive_cases moves_PolledE: "system_moves s (Polled ready n start) t"
inductive_cases moves_Result_ReadE: "system_moves s (Result_Read env) t"

text \<open>The batch that a step starts to post, and the blocks that it adds.\<close>

fun posted_by :: "('sig, 'b, 'r) system_event \<Rightarrow> (batch \<times> u64) option" where
  "posted_by (Size_Asked env time ready start) = start"
| "posted_by (Polled ready n start) = start"
| "posted_by _ = None"

fun added_by :: "('sig, 'b, 'r) system_event \<Rightarrow> preconfirmed_block list" where
  "added_by (Handled env event bs) = bs"
| "added_by _ = []"

text \<open>
  What the driver relies on: the blocks of a download are in order. Every download of \<open>soft_blocks.rs\<close> meets it,
  whatever the nodes answer.
\<close>

fun label_ok :: "('sig, 'b, 'r) system_event \<Rightarrow> bool" where
  "label_ok (Handled env event bs) = env_ok env"
| "label_ok (Size_Asked env time ready start) = env_ok env"
| "label_ok (Result_Read env) = env_ok env"
| "label_ok _ = True"

definition downloads_real :: "'sig driver_env \<Rightarrow> bool" where
  "downloads_real env =
     (\<forall>r \<in> set (de_rounds env). \<exists>(codec :: 'sig anchor_codec) nodes.
        \<forall>lo hi. download_returns codec nodes lo hi (sy_download (r_sync r) lo hi))"

lemma downloads_real_ok: "downloads_real env \<Longrightarrow> env_ok env"
  unfolding downloads_real_def env_ok_def using downloads.source_downloads_ok by blast

fun label_real :: "('sig, 'b, 'r) system_event \<Rightarrow> bool" where
  "label_real (Handled env event bs) = downloads_real env"
| "label_real (Size_Asked env time ready start) = downloads_real env"
| "label_real (Result_Read env) = downloads_real env"
| "label_real _ = True"

lemma label_real_ok: "label_real e \<Longrightarrow> label_ok e"
  by (cases e) (simp_all add: downloads_real_ok)

section \<open>Every posted batch is well-formed\<close>

definition request_ok :: "batch \<times> u64 \<Rightarrow> bool" where
  "request_ok req = (batch_ok (fst req) \<and> blocks (fst req) \<noteq> [])"

definition system_ok :: "runtime_config \<Rightarrow> ('b, 'r) system \<Rightarrow> bool" where
  "system_ok cfg s =
     (driver_ok cfg (sys_driver s) \<and> queue_ok (sys_actor s) \<and>
      (\<forall>req \<in> set (request_queue (sys_actor s)). request_ok req))"

lemma submitted_ok: "cmds_ok cmds \<Longrightarrow> req \<in> set (submitted_in cmds) \<Longrightarrow> request_ok req"
  by (auto simp: submitted_in_def cmds_ok_def request_ok_def split: submission_cmd.splits)

lemma cmds_ok_take_drop: "cmds_ok cmds \<Longrightarrow> cmds_ok (take n cmds) \<and> cmds_ok (drop n cmds)"
  by (auto simp: cmds_ok_def dest: in_set_takeD in_set_dropD)

lemma subseq_set: "subseq xs ys \<Longrightarrow> set xs \<subseteq> set ys"
  by (induction rule: list_emb.induct) auto

lemma poll_round_requests:
  assumes "poll_round p ready cmds = Some r" and "\<forall>req \<in> set (request_queue p). request_ok req" and "cmds_ok cmds"
  shows "(\<forall>req \<in> set (request_queue (after_round r)). request_ok req) \<and> (\<forall>req. started r = Some req \<longrightarrow> request_ok req)"
proof -
  let ?all = "set (event_started (Round ready cmds (started r))) \<union> set (request_queue (after_round r))"
  have "?all \<subseteq> set (request_queue p) \<union> set (submitted_in cmds)"
    using subseq_set [OF round_subseq [OF assms(1)]] by simp
  then have "request_ok req" if "req \<in> ?all" for req
    using that assms(2) submitted_ok [OF assms(3)] by blast
  then show ?thesis by (cases "started r") simp_all
qed

text \<open>One step keeps the invariant and posts nothing that is not well-formed.\<close>

lemma driver_ok_handle: "driver_ok cfg d \<Longrightarrow> cmds_ok cmds \<Longrightarrow> driver_ok cfg (d\<lparr>d_handle := cmds\<rparr>)"
  by (simp add: driver_ok_def)

lemma handled_ok: "when_done P m \<Longrightarrow> m = Done d \<Longrightarrow> P d"
  by simp

lemma system_ok_poll:
  assumes "system_ok cfg s" and "cmds_ok cmds" and "poll_round (sys_actor s) ready cmds = Some r" and "driver_ok cfg d"
  shows "system_ok cfg (s\<lparr>sys_driver := d, sys_actor := after_round r\<rparr>) \<and>
    (\<forall>req. started r = Some req \<longrightarrow> request_ok req)"
proof -
  have q: "queue_ok (sys_actor s)" "\<forall>req \<in> set (request_queue (sys_actor s)). request_ok req"
    using assms(1) unfolding system_ok_def by blast+
  have "queue_ok (after_round r)" by (rule poll_round_ok [OF q(1) assms(3)])
  then show ?thesis
    using poll_round_requests [OF assms(3) q(2) assms(2)] assms(4) unfolding system_ok_def by simp
qed

lemma system_moves_ok:
  assumes "system_moves s e t" and "system_ok cfg s" and "label_ok e"
  shows "system_ok cfg t \<and> (\<forall>req. posted_by e = Some req \<longrightarrow> request_ok req)"
  using assms(1)
proof (cases rule: system_moves.cases)
  case (handled env event d)
  have "driver_ok cfg d"
    using handle_event_ok [of cfg "sys_driver s" env event] handled assms(2,3) by (simp add: system_ok_def)
  then show ?thesis using handled assms(2) by (simp add: system_ok_def)
next
  case (size_asked env time cmds ready r d)
  have "driver_ok cfg d"
    using on_l2_slot_tick_ok [of cfg "sys_driver s" env time] size_asked assms(2,3) by (simp add: system_ok_def)
  then have "driver_ok cfg (d\<lparr>d_handle := []\<rparr>)" by (simp add: driver_ok_handle cmds_ok_def)
  moreover have "cmds_ok cmds"
    using size_asked(4) assms(2) send_cmd_ok by (simp add: get_suggested_max_size_def system_ok_def driver_ok_def)
  ultimately show ?thesis
    unfolding size_asked(1,2) posted_by.simps using system_ok_poll [OF assms(2) _ size_asked(5)] by blast
next
  case (polled ready n r)
  have cmds: "cmds_ok (d_handle (sys_driver s))" using assms(2) by (simp add: system_ok_def driver_ok_def)
  then have "driver_ok cfg ((sys_driver s)\<lparr>d_handle := drop n (d_handle (sys_driver s))\<rparr>)"
    using assms(2) cmds_ok_take_drop by (simp add: driver_ok_handle system_ok_def)
  then show ?thesis
    unfolding polled(1,2) posted_by.simps
    using system_ok_poll [OF assms(2) _ polled(3)] cmds_ok_take_drop [OF cmds] by blast
next
  case (result_read res results env d)
  have "when_done (driver_ok cfg) (on_batch_result env res (sys_driver s))"
    using handle_event_ok [of cfg "sys_driver s" env] result_read(1) assms(2,3)
    by (cases res) (simp_all add: on_batch_result_def system_ok_def)
  then have "driver_ok cfg d" using result_read by simp
  then show ?thesis using result_read assms(2) by (simp add: system_ok_def queue_ok_def)
next
  case (task_ended i result)
  then show ?thesis using assms(2) by (simp add: system_ok_def)
next
  case (router_read answer)
  then show ?thesis using assms(2) by (simp add: system_ok_def)
qed

interpretation composed: invariant_part "limited (\<lambda>_. label_ok) system_moves" "system_ok cfg"
  using system_moves_ok by unfold_locales (auto simp: limited_def)

lemma system_run_posts_ok:
  assumes "runs system_moves s es t" and "system_ok cfg s" and "\<forall>e \<in> set es. label_ok e"
  shows "\<forall>e \<in> set es. \<forall>req. posted_by e = Some req \<longrightarrow> request_ok req"
proof -
  have "runs (limited (\<lambda>_. label_ok) system_moves) s es t" using assms(1,3) by (intro runs_limited) auto
  then show ?thesis
    by (rule composed.run_prefix_good [OF _ assms(2)]) (use system_moves_ok in \<open>unfold limited_def, blast\<close>)
qed

section \<open>From the start of the program\<close>

text \<open>The system when the program has started: the driver after its first sync, and a new actor.\<close>

definition started_system ::
  "runtime_config \<Rightarrow> (driver_error + unit) option \<Rightarrow> (rpc_error, l1_state) outcome \<Rightarrow> driver_error + l2_state \<Rightarrow>
   driver_error + unit \<Rightarrow> driver_error + unit \<Rightarrow> ((rpc_error + header) \<times> 'sig driver_env) list \<Rightarrow> ('b, 'r) system option" where
  "started_system cfg clients_synced new_l1 new_l2 balances approval attempts =
     (case driver_new cfg clients_synced new_l1 new_l2 balances approval of
        Done (Inr d) \<Rightarrow>
          (case startup_sync attempts d of
             Done d \<Rightarrow> Some \<lparr>sys_driver = d, sys_actor = processor_new cfg\<rparr>
           | _ \<Rightarrow> None)
      | _ \<Rightarrow> None)"

lemma started_system_ok:
  assumes "started_system cfg clients_synced new_l1 new_l2 balances approval attempts = Some s"
    and "0 < capacity (cfg_batch_settings cfg)" and "\<forall>(answer, env) \<in> set attempts. env_ok env"
  shows "system_ok cfg s"
proof -
  from assms(1) obtain d0 d where new: "driver_new cfg clients_synced new_l1 new_l2 balances approval = Done (Inr d0)"
    and start: "startup_sync attempts d0 = Done d" and s: "s = \<lparr>sys_driver = d, sys_actor = processor_new cfg\<rparr>"
    by (auto simp: started_system_def split: handled.splits sum.splits)
  from new assms(2) have "driver_ok cfg d0"
    by (auto simp: driver_new_def driver_ok_def cmds_ok_def split: option.splits sum.splits outcome.splits)
  then have "driver_ok cfg d" using startup_sync_ok [OF _ assms(3)] start by fastforce
  then show ?thesis by (simp add: s system_ok_def queue_ok_def processor_new_def)
qed

text \<open>
  C2. From the start of the program on, whatever the nodes answer and in whatever order driver, actor and background
  tasks move: every batch that is ever posted has a block, at most its capacity of blocks, and them in strictly
  increasing order, and so has the outstanding batch at the end, but it may be empty.
\<close>

theorem batches_are_well_formed_from_start:
  fixes s :: "('b, 'r) system"
  assumes "started_system cfg clients_synced new_l1 new_l2 balances approval attempts = Some s"
    and "0 < capacity (cfg_batch_settings cfg)" and "\<forall>(answer, env) \<in> set attempts. downloads_real env"
    and "runs system_moves s es t" and "\<forall>e \<in> set es. label_real e"
  shows "(\<forall>e \<in> set es. \<forall>b deadline. posted_by e = Some (b, deadline) \<longrightarrow>
      blocks b \<noteq> [] \<and> length (blocks b) \<le> capacity (settings b) \<and> increasing (blocks b)) \<and>
    length (blocks (d_outstanding (sys_driver t))) \<le> capacity (settings (d_outstanding (sys_driver t))) \<and>
    increasing (blocks (d_outstanding (sys_driver t)))"
proof -
  have labels: "\<forall>e \<in> set es. label_ok e" using assms(5) label_real_ok by blast
  have s: "system_ok cfg s" using assms(3) downloads_real_ok by (intro started_system_ok [OF assms(1,2)]) fastforce
  have "system_ok cfg t" by (rule composed.run_good [OF runs_limited [OF assms(4)] s]) (use labels in auto)
  then show ?thesis
    using system_run_posts_ok [OF assms(4) s labels]
    by (auto simp: request_ok_def batch_ok_def system_ok_def driver_ok_def)
qed


definition real_env :: "unit driver_env" where
  "real_env = example_env\<lparr>de_rounds := [round_with (\<lambda>lo hi.
     Inr (map (fetch_one example_codec example_download_env) (range_inclusive lo hi)))]\<rparr>"

lemma real_env_real: "downloads_real real_env"
proof -
  have count: "count_list (replicate n x) x = n" for n and x :: "nat option \<times> bool"
    by (induction n) simp_all
  have "download_returns example_codec example_download_env lo hi
      (Inr (map (fetch_one example_codec example_download_env) (range_inclusive lo hi)))" for lo hi
  proof -
    define k where "k = 2 * length (range_inclusive lo hi)"
    have "replicate (Suc k) (Some (0 :: nat), True) \<noteq> []" "\<not> Suc k < k" by simp_all
    then have "download example_codec example_download_env (replicate (Suc k) (Some 0, True)) lo hi =
        Some (Inr (map (fetch_one example_codec example_download_env) (range_inclusive lo hi)))"
      using download_ok [of lo hi example_codec example_download_env "replicate (Suc k) (Some 0, True)"] example_serves
      unfolding count k_def [symmetric] by (cases "download example_codec example_download_env (replicate (Suc k) (Some 0, True)) lo hi") simp_all
    then show ?thesis unfolding download_returns_def by blast
  qed
  then show ?thesis by (auto simp: downloads_real_def real_env_def round_with_def)
qed

definition example_start :: "(unit, unit) system option" where
  "example_start = started_system example_config (Some (Inr ())) (Ok example_l1)
     (Inr \<lparr>head_block = 2, head_l1_origin = 2\<rparr>) (Inr ()) (Inr ()) [(Inr (example_header 103 2236), real_env)]"

lemma example_started:
  "\<exists>s a. example_start = Some s \<and> d_outstanding (sys_driver s) = batch_new a (cfg_batch_settings example_config)"
proof -
  obtain d0 where d0: "driver_new example_config (Some (Inr ())) (Ok example_l1) (Inr \<lparr>head_block = 2, head_l1_origin = 2\<rparr>)
      (Inr ()) (Inr ()) = Done (Inr d0)" and q0: "quiet d0"
    by (simp add: driver_new_def quiet_def lookahead_new_def)
  obtain d1 where d1: "update_l1_info real_env (example_header 103 2236) d0 = Done (d1, Inr 103)" "quiet d1"
    using quiet_update [OF q0] unfolding real_env_def by blast
  obtain d2 a where d2: "sync_and_propose real_env d1 = Done d2"
      "d_outstanding d2 = batch_new a (cfg_batch_settings example_config)"
    using quiet_sync_and_propose [OF d1(2)] unfolding real_env_def by blast
  have "startup_sync [(Inr (example_header 103 2236), real_env)] d0 = Done d2" by (simp add: d1(1) d2(1))
  then show ?thesis
    using d0 d2(2) by (intro exI [of _ "\<lparr>sys_driver = d2, sys_actor = processor_new example_config\<rparr>"] exI [of _ a])
      (simp add: example_start_def started_system_def del: startup_sync.simps)
qed

theorem batches_are_well_formed_from_start_witness:
  "\<exists>s t. example_start = Some s \<and>
     runs system_moves s [Handled real_env (Batch_Proposed_Event :: unit driver_event) [] :: (unit, unit, unit) system_event] t \<and>
     increasing (blocks (d_outstanding (sys_driver t))) \<and> 0 < capacity (settings (d_outstanding (sys_driver t)))"
proof -
  let ?e = "Handled real_env (Batch_Proposed_Event :: unit driver_event) [] :: (unit, unit, unit) system_event"
  obtain s a where s: "example_start = Some s" "d_outstanding (sys_driver s) = batch_new a (cfg_batch_settings example_config)"
    using example_started by blast
  have "system_moves s ?e s"
    using system_moves.handled [of real_env "Batch_Proposed_Event :: unit driver_event" s "sys_driver s"]
    by (simp add: asks_for_size_def is_batch_error_def handle_event_def blocks_added_def)
  then have run: "runs system_moves s [?e] s" by (rule runs_single)
  have cap: "0 < capacity (cfg_batch_settings example_config)" by (simp add: cfg_batch_settings_def example_config_def)
  have "increasing (blocks (d_outstanding (sys_driver s)))"
    using batches_are_well_formed_from_start [OF s(1) [unfolded example_start_def] cap _ run] real_env_real by simp
  moreover have "settings (d_outstanding (sys_driver s)) = cfg_batch_settings example_config"
    by (simp add: s(2) batch_new_def)
  ultimately show ?thesis using s(1) run cap by (intro exI [of _ s]) simp
qed

end
