(* ===== verification/Clients.thy ===== *)
theory Clients
  imports Preconf_Client Transitions Chain_Types
begin

text \<open>
  The clients of the execution nodes, \<open>crates/clients/src/execution.rs\<close> and \<open>engine.rs\<close>, with the parts of
  \<open>crates/primitives/src/retries.rs\<close> and \<open>crates/chainio/src/\<close> that decode errors. The RPC library, the
  ABI coder and the channels of tokio are parameters or are modelled as documented: what the library answers is
  an argument. The subscriptions are transition systems, because their tasks run beside the driver: a block
  goes through a watch channel, which keeps only the newest value, an event through two bounded channels.
\<close>

section \<open>Requests\<close>

datatype block_tag = Latest | Number u64

definition block_tag_of :: "u64 option \<Rightarrow> block_tag" where
  "block_tag_of block_number = (case block_number of None \<Rightarrow> Latest | Some n \<Rightarrow> Number n)"

definition get_block :: "(block_tag \<Rightarrow> bool \<Rightarrow> 'e + 'blk) \<Rightarrow> u64 option \<Rightarrow> bool \<Rightarrow> 'e + 'blk" where
  "get_block request block_number full = request (block_tag_of block_number) full"

text \<open>A node that does not know the header answers with null; \<open>custom_str\<close> makes an error of a text.\<close>

definition get_header ::
  "(string \<Rightarrow> 'e) \<Rightarrow> (block_tag \<Rightarrow> string) \<Rightarrow> (block_tag \<Rightarrow> 'e + header option) \<Rightarrow> u64 option \<Rightarrow> 'e + header" where
  "get_header custom_str show_tag request block_number =
     (let tag = block_tag_of block_number
      in case request tag of
           Inl e \<Rightarrow> Inl e
         | Inr (Some h) \<Rightarrow> Inr h
         | Inr None \<Rightarrow> Inl (custom_str (''Header not found: '' @ show_tag tag)))"

definition get_head :: "'e + u64 \<Rightarrow> 'e + u64" where
  "get_head request = request"

definition l1_origin_by_id :: "(u64 \<Rightarrow> 'e + 'o) \<Rightarrow> u64 \<Rightarrow> 'e + 'o" where
  "l1_origin_by_id request block_id = request block_id"

definition head_l1_origin_unsafe :: "('e \<Rightarrow> string) \<Rightarrow> 'e + 'o \<Rightarrow> 'e + 'o option" where
  "head_l1_origin_unsafe to_string res =
     (case res of
        Inr origin \<Rightarrow> Inr (Some origin)
      | Inl e \<Rightarrow> if contains_str (to_string e) ''not found'' then Inr None else Inl e)"

section \<open>Why a transaction reverted\<close>

record call_frame =
  revert_reason :: "string option"
  output_bytes :: "bytes option"

datatype revert_reason_trace = Reason_String string | ContractBytes bytes | Unknown

definition debug_revert_reason :: "'e + call_frame \<Rightarrow> 'e + revert_reason_trace" where
  "debug_revert_reason request =
     (case request of
        Inl e \<Rightarrow> Inl e
      | Inr trace \<Rightarrow>
          (case revert_reason trace of
             Some reason \<Rightarrow> Inr (Reason_String reason)
           | None \<Rightarrow>
               (case output_bytes trace of
                  Some output \<Rightarrow> Inr (ContractBytes output)
                | None \<Rightarrow> Inr Unknown)))"

text \<open>\<open>show_decoded\<close> is the debug text of the result of decoding.\<close>

fun try_decode :: "(bytes \<Rightarrow> string) \<Rightarrow> revert_reason_trace \<Rightarrow> string" where
  "try_decode show_decoded (Reason_String reason) = reason"
| "try_decode show_decoded (ContractBytes bs) = show_decoded bs"
| "try_decode show_decoded Unknown = ''unknown''"

section \<open>The engine\<close>

definition TAIKO_AUTH_NAMESPACE :: string where "TAIKO_AUTH_NAMESPACE = ''taikoAuth_''"
definition TX_POOL_CONTENT_WITH_MIN_TIP :: string where "TX_POOL_CONTENT_WITH_MIN_TIP = ''txPoolContentWithMinTip''"

definition tx_pool_method :: string where
  "tx_pool_method = TAIKO_AUTH_NAMESPACE @ TX_POOL_CONTENT_WITH_MIN_TIP"

text \<open>The condition under which the request is sent again: only transport errors, unlike for the other clients.\<close>

definition engine_retries ::
  "('kind \<Rightarrow> bool) \<Rightarrow> ('kind \<Rightarrow> string) \<Rightarrow> ('kind, 'payload) transport_rpc_error \<Rightarrow> bool" where
  "engine_retries kind_retry to_string res =
     (case res of Transport_Err e \<Rightarrow> kind_retry e \<or> is_connection_refused (to_string e) | _ \<Rightarrow> False)"

section \<open>Backoff\<close>

text \<open>
  The hint of a provider that limits its rate. The answer of the JSON library for the field
  \<open>rate.backoff_seconds\<close> of the data of the error, if there is data, is the pair of what \<open>as_u64\<close> and
  \<open>as_f64\<close> read; \<open>from_secs_plus_one\<close> adds 1.0 and converts to a duration in milliseconds, \<open>None\<close> where
  the conversion panics.
\<close>

definition backoff_hint ::
  "('payload \<Rightarrow> (u64 option \<times> 'f option) option) \<Rightarrow> ('f \<Rightarrow> nat option) \<Rightarrow>
   ('kind, 'payload) transport_rpc_error \<Rightarrow> nat option option" where
  "backoff_hint data from_secs_plus_one err =
     (case err of
        ErrorResp_Payload resp \<Rightarrow>
          (case data resp of
             Some (Some seconds, f) \<Rightarrow> Some (Some (unat seconds * 1000))
           | Some (None, Some seconds) \<Rightarrow> map_option Some (from_secs_plus_one seconds)
           | Some (None, None) \<Rightarrow> Some None
           | None \<Rightarrow> Some None)
      | _ \<Rightarrow> Some None)"

definition DEFAULT_MAX_RETRIES :: u32 where "DEFAULT_MAX_RETRIES = 9"
definition DEFAULT_INITIAL_BACKOFF_MS :: u64 where "DEFAULT_INITIAL_BACKOFF_MS = 1"

text \<open>
  The delays with which the websocket is connected again, and those of the engine: \<open>backoff\<close> is the strategy of
  the retry library, which takes its base to the power of the number of past attempts.
\<close>

definition reconnect_delays :: "(nat \<Rightarrow> nat \<Rightarrow> nat) \<Rightarrow> nat \<Rightarrow> nat" where
  "reconnect_delays backoff attempt = backoff (unat DEFAULT_INITIAL_BACKOFF_MS) attempt"

definition engine_delays :: "(nat \<Rightarrow> nat \<Rightarrow> nat) \<Rightarrow> nat \<Rightarrow> nat" where
  "engine_delays backoff attempt = min (backoff 10 attempt) 1000"

lemma reconnects_without_backoff:
  assumes "\<And>base n. backoff base n = base ^ n"
  shows "reconnect_delays backoff attempt = 1"
  by (simp add: reconnect_delays_def assms DEFAULT_INITIAL_BACKOFF_MS_def)

section \<open>Contract calls\<close>

text \<open>
  The error of a contract call: one of the library, or the text of a decoded Solidity error.
  \<open>as_decoded\<close> decodes the revert data of an error in the interface of the contract.
\<close>

datatype 'e contract_error = Call_Error 'e | Custom_Error string

definition try_parse_contract_error :: "('e contract_error \<Rightarrow> 'i option) \<Rightarrow> 'e contract_error \<Rightarrow> 'e contract_error + 'i" where
  "try_parse_contract_error as_decoded error =
     (case as_decoded error of Some i \<Rightarrow> Inr i | None \<Rightarrow> Inl error)"

definition decode_call_error ::
  "('e contract_error \<Rightarrow> 'i option) \<Rightarrow> ('i \<Rightarrow> string) \<Rightarrow> 'e contract_error \<Rightarrow> 'e contract_error" where
  "decode_call_error as_decoded debug err =
     (case try_parse_contract_error as_decoded err of
        Inl e \<Rightarrow> e
      | Inr decoded \<Rightarrow> Custom_Error (debug decoded))"

definition get_operator_for_current_epoch ::
  "('e contract_error \<Rightarrow> 'i option) \<Rightarrow> ('i \<Rightarrow> string) \<Rightarrow> 'e contract_error + address \<Rightarrow> 'e contract_error + address" where
  "get_operator_for_current_epoch as_decoded debug call =
     (case call of Inr result \<Rightarrow> Inr result | Inl err \<Rightarrow> Inl (decode_call_error as_decoded debug err))"

definition get_operator_for_next_epoch ::
  "('e contract_error \<Rightarrow> 'i option) \<Rightarrow> ('i \<Rightarrow> string) \<Rightarrow> 'e contract_error + address \<Rightarrow> 'e contract_error + address" where
  "get_operator_for_next_epoch as_decoded debug call =
     (case call of Inr result \<Rightarrow> Inr result | Inl err \<Rightarrow> Inl (decode_call_error as_decoded debug err))"

definition contract_is_whitelisted ::
  "('e contract_error \<Rightarrow> 'i option) \<Rightarrow> ('i \<Rightarrow> string) \<Rightarrow> ('e contract_error \<Rightarrow> string) \<Rightarrow>
   (address \<Rightarrow> u64 \<Rightarrow> 'e contract_error + bool) \<Rightarrow> (address \<Rightarrow> 'e contract_error + bool) \<Rightarrow>
   address \<Rightarrow> u64 \<Rightarrow> 'e contract_error + bool" where
  "contract_is_whitelisted as_decoded debug to_string is_operator_active is_operator addr epoch_timestamp =
     (case is_operator_active addr epoch_timestamp of
        Inr result \<Rightarrow> Inr result
      | Inl err \<Rightarrow>
          if contains_str (to_string err) ''execution reverted'' then is_operator addr
          else Inl (decode_call_error as_decoded debug err))"

definition get_preconf_router :: "'e contract_error + address \<Rightarrow> 'e contract_error + address" where
  "get_preconf_router call = call"

text \<open>The filter for changes of the operators, as the signatures of the events that it matches.\<close>

record log_filter =
  filter_address :: address
  filter_events :: "string list"

definition operator_changed_filter :: "address \<Rightarrow> log_filter" where
  "operator_changed_filter contract =
     \<lparr>filter_address = contract,
      filter_events = [''OperatorAdded(address)'', ''OperatorRemoved(address)'',
        ''OperatorAdded(address,uint256)'', ''OperatorRemoved(address,uint256)'']\<rparr>"

section \<open>The subscription to blocks\<close>

text \<open>
  The watch channel with the stream that reads it: the newest value, whether the stream has yet to yield it, and
  the number of items that the stream skips. As documented, the stream begins with the value of the moment of its
  first poll. \<open>skip(1)\<close> is to leave out the default block that the channel is created with.
\<close>

record 'blk block_stream =
  newest :: 'blk
  unseen :: bool
  to_skip :: nat

definition subscribe_blocks_new :: "'blk \<Rightarrow> 'blk block_stream" where
  "subscribe_blocks_new default_block = \<lparr>newest = default_block, unseen = True, to_skip = 1\<rparr>"

text \<open>The task: the answer for the hash of a new header is sent when it is a block, and otherwise logged.\<close>

definition on_new_header :: "'e + 'blk option \<Rightarrow> 'blk block_stream \<Rightarrow> 'blk block_stream" where
  "on_new_header answer s =
     (case answer of
        Inr (Some full_block) \<Rightarrow> s\<lparr>newest := full_block, unseen := True\<rparr>
      | Inr None \<Rightarrow> s
      | Inl err \<Rightarrow> s)"

text \<open>A poll of the stream; \<open>None\<close> is pending.\<close>

definition poll_blocks :: "'blk block_stream \<Rightarrow> 'blk option \<times> 'blk block_stream" where
  "poll_blocks s =
     (if \<not> unseen s then (None, s)
      else if to_skip s = 0 then (Some (newest s), s\<lparr>unseen := False\<rparr>)
      else (None, s\<lparr>unseen := False, to_skip := to_skip s - 1\<rparr>))"

datatype ('e, 'blk) block_event = Header_Answered "'e + 'blk option" | Blocks_Polled "'blk option"

inductive block_step :: "'blk block_stream \<Rightarrow> ('e, 'blk) block_event \<Rightarrow> 'blk block_stream \<Rightarrow> bool" where
  answered: "block_step s (Header_Answered answer) (on_new_header answer s)"
| polled: "poll_blocks s = (item, t) \<Longrightarrow> block_step s (Blocks_Polled item) t"

inductive_cases block_stepE: "block_step s e t"

fun block_sent :: "('e, 'blk) block_event \<Rightarrow> 'blk list" where
  "block_sent (Header_Answered (Inr (Some b))) = [b]"
| "block_sent _ = []"

fun block_read :: "('e, 'blk) block_event \<Rightarrow> 'blk list" where
  "block_read (Blocks_Polled (Some b)) = [b]"
| "block_read _ = []"

text \<open>What the stream still yields: the newest block, unless it is the item that is skipped.\<close>

definition stream_content :: "'blk block_stream \<Rightarrow> 'blk list" where
  "stream_content s = (if unseen s \<and> to_skip s = 0 then [newest s] else [])"

interpretation block_stream: lossy_fifo
  "block_step :: 'blk block_stream \<Rightarrow> ('e, 'blk) block_event \<Rightarrow> 'blk block_stream \<Rightarrow> bool" "\<lambda>s. True"
  stream_content block_sent block_read
proof
  fix s :: "'blk block_stream" and e :: "('e, 'blk) block_event" and t :: "'blk block_stream"
  assume "block_step s e t"
  then show "subseq (block_read e @ stream_content t) (stream_content s @ block_sent e)"
  proof (cases rule: block_step.cases)
    case (answered answer)
    then show ?thesis by (auto simp: on_new_header_def stream_content_def split: sum.split option.split)
  next
    case (polled item)
    then show ?thesis by (auto simp: poll_blocks_def stream_content_def split: if_splits)
  qed
qed simp

section \<open>The subscription to events\<close>

text \<open>
  Two tasks with a bounded channel each: the first takes the logs from the node, the second decodes them. A task
  that sends to a full channel waits. A log that does not decode is dropped.
\<close>

definition EVENT_CHANNEL_CAPACITY :: nat where "EVENT_CHANNEL_CAPACITY = 64"

record ('log, 'ev) event_stream =
  raw_waiting :: "'log option"
  raw_channel :: "'log list"
  event_waiting :: "('log \<times> 'ev) option"
  event_channel :: "('log \<times> 'ev) list"

definition subscribe_log_event_new :: "('log, 'ev) event_stream" where
  "subscribe_log_event_new = \<lparr>raw_waiting = None, raw_channel = [], event_waiting = None, event_channel = []\<rparr>"

datatype ('log, 'ev) log_event = Log_Received 'log | Log_Sent | Log_Decoded | Event_Sent | Event_Read "'log \<times> 'ev"

definition decode_log :: "('log \<Rightarrow> 'ev option) \<Rightarrow> 'log \<Rightarrow> ('log \<times> 'ev) option" where
  "decode_log decode event = map_option (\<lambda>data. (event, data)) (decode event)"

inductive log_step ::
  "('log \<Rightarrow> 'ev option) \<Rightarrow> ('log, 'ev) event_stream \<Rightarrow> ('log, 'ev) log_event \<Rightarrow> ('log, 'ev) event_stream \<Rightarrow> bool"
  for decode where
  received: "raw_waiting s = None \<Longrightarrow> log_step decode s (Log_Received log) (s\<lparr>raw_waiting := Some log\<rparr>)"
| sent: "raw_waiting s = Some log \<Longrightarrow> length (raw_channel s) < EVENT_CHANNEL_CAPACITY \<Longrightarrow>
    log_step decode s Log_Sent (s\<lparr>raw_waiting := None, raw_channel := raw_channel s @ [log]\<rparr>)"
| decoded: "raw_channel s = log # logs \<Longrightarrow> event_waiting s = None \<Longrightarrow>
    log_step decode s Log_Decoded (s\<lparr>raw_channel := logs, event_waiting := decode_log decode log\<rparr>)"
| event_sent: "event_waiting s = Some e \<Longrightarrow> length (event_channel s) < EVENT_CHANNEL_CAPACITY \<Longrightarrow>
    log_step decode s Event_Sent (s\<lparr>event_waiting := None, event_channel := event_channel s @ [e]\<rparr>)"
| read: "event_channel s = e # es \<Longrightarrow> log_step decode s (Event_Read e) (s\<lparr>event_channel := es\<rparr>)"

definition opt_list :: "'a option \<Rightarrow> 'a list" where
  "opt_list x = (case x of None \<Rightarrow> [] | Some y \<Rightarrow> [y])"

definition decode_logs :: "('log \<Rightarrow> 'ev option) \<Rightarrow> 'log list \<Rightarrow> ('log \<times> 'ev) list" where
  "decode_logs decode logs = concat (map (opt_list \<circ> decode_log decode) logs)"

definition events_in :: "('log \<Rightarrow> 'ev option) \<Rightarrow> ('log, 'ev) event_stream \<Rightarrow> ('log \<times> 'ev) list" where
  "events_in decode s =
     event_channel s @ opt_list (event_waiting s) @ decode_logs decode (raw_channel s @ opt_list (raw_waiting s))"

fun logs_received :: "('log, 'ev) log_event \<Rightarrow> 'log list" where
  "logs_received (Log_Received log) = [log]"
| "logs_received _ = []"

fun events_read :: "('log, 'ev) log_event \<Rightarrow> ('log \<times> 'ev) list" where
  "events_read (Event_Read e) = [e]"
| "events_read _ = []"

definition channels_bounded :: "('log, 'ev) event_stream \<Rightarrow> bool" where
  "channels_bounded s =
     (length (raw_channel s) \<le> EVENT_CHANNEL_CAPACITY \<and> length (event_channel s) \<le> EVENT_CHANNEL_CAPACITY)"

lemma opt_list_simps [simp]: "opt_list None = []" "opt_list (Some x) = [x]"
  by (simp_all add: opt_list_def)

lemma decode_logs_simps [simp]:
  "decode_logs decode [] = []" "decode_logs decode (l # ls) = opt_list (decode_log decode l) @ decode_logs decode ls"
  "decode_logs decode (ls @ ls') = decode_logs decode ls @ decode_logs decode ls'"
  by (simp_all add: decode_logs_def)

interpretation event_stream: lossless_fifo
  "log_step decode :: ('log, 'ev) event_stream \<Rightarrow> ('log, 'ev) log_event \<Rightarrow> ('log, 'ev) event_stream \<Rightarrow> bool"
  channels_bounded "events_in decode" "\<lambda>e. decode_logs decode (logs_received e)" events_read
proof
  fix s :: "('log, 'ev) event_stream" and e :: "('log, 'ev) log_event" and t :: "('log, 'ev) event_stream"
  assume ok: "channels_bounded s" and step: "log_step decode s e t"
  show "channels_bounded t"
    using step ok by (cases rule: log_step.cases) (auto simp: channels_bounded_def)
  show "events_read e @ events_in decode t = events_in decode s @ decode_logs decode (logs_received e)"
    using step by (cases rule: log_step.cases) (simp_all add: events_in_def)
qed

section \<open>Properties\<close>

text \<open>
  C36. A slow driver makes the tasks wait and loses no event: the events that it has read, followed by those that
  are still on their way, are exactly the received logs that decode, in order, and each channel holds at most 64.
\<close>

theorem events_arrive_in_order:
  assumes "runs (log_step decode) subscribe_log_event_new es s"
  shows "concat (map events_read es) @ events_in decode s = decode_logs decode (concat (map logs_received es)) \<and>
    length (raw_channel s) \<le> 64 \<and> length (event_channel s) \<le> 64"
proof -
  have start: "channels_bounded subscribe_log_event_new" "events_in decode subscribe_log_event_new = []"
    by (simp_all add: channels_bounded_def subscribe_log_event_new_def events_in_def)
  have "concat (map (\<lambda>e. decode_logs decode (logs_received e)) es) = decode_logs decode (concat (map logs_received es))"
    by (induction es) simp_all
  with event_stream.run_conserves [OF assms start(1)] start(2) event_stream.run_good [OF assms start(1)]
  show ?thesis by (simp add: channels_bounded_def EVENT_CHANNEL_CAPACITY_def)
qed

theorem events_arrive_in_order_witness:
  "\<exists>s. runs (log_step (\<lambda>n. if n = 0 then None else Some (n + 1))) subscribe_log_event_new
     [Log_Received (0 :: nat), Log_Sent, Log_Received 5, Log_Decoded, Log_Sent, Log_Decoded, Event_Sent, Event_Read (5, 6)] s \<and>
   [(5, 6)] @ events_in (\<lambda>n. if n = 0 then None else Some (n + 1)) s = [(5, 6 :: nat)]"
proof -
  let ?d = "\<lambda>n :: nat. if n = 0 then None else Some (n + 1)"
  let ?es = "[Log_Received 0, Log_Sent, Log_Received 5, Log_Decoded, Log_Sent, Log_Decoded, Event_Sent, Event_Read (5, 6)]"
  let ?s = "\<lambda>rw r ew es. \<lparr>raw_waiting = rw, raw_channel = r, event_waiting = ew, event_channel = es\<rparr> :: (nat, nat) event_stream"
  note [simp] = decode_log_def EVENT_CHANNEL_CAPACITY_def
  have "log_step ?d (?s None [] None []) (Log_Received 0) (?s (Some 0) [] None [])"
    using log_step.received [of "?s None [] None []" ?d 0] by simp
  moreover have "log_step ?d (?s (Some 0) [] None []) Log_Sent (?s None [0] None [])"
    using log_step.sent [of "?s (Some 0) [] None []" 0 ?d] by simp
  moreover have "log_step ?d (?s None [0] None []) (Log_Received 5) (?s (Some 5) [0] None [])"
    using log_step.received [of "?s None [0] None []" ?d 5] by simp
  moreover have "log_step ?d (?s (Some 5) [0] None []) Log_Decoded (?s (Some 5) [] None [])"
    using log_step.decoded [of "?s (Some 5) [0] None []" 0 "[]" ?d] by simp
  moreover have "log_step ?d (?s (Some 5) [] None []) Log_Sent (?s None [5] None [])"
    using log_step.sent [of "?s (Some 5) [] None []" 5 ?d] by simp
  moreover have "log_step ?d (?s None [5] None []) Log_Decoded (?s None [] (Some (5, 6)) [])"
    using log_step.decoded [of "?s None [5] None []" 5 "[]" ?d] by simp
  moreover have "log_step ?d (?s None [] (Some (5, 6)) []) Event_Sent (?s None [] None [(5, 6)])"
    using log_step.event_sent [of "?s None [] (Some (5, 6)) []" "(5, 6)" ?d] by simp
  moreover have "log_step ?d (?s None [] None [(5, 6)]) (Event_Read (5, 6)) (?s None [] None [])"
    using log_step.read [of "?s None [] None [(5, 6)]" "(5, 6)" "[]" ?d] by simp
  ultimately have run: "runs (log_step ?d) subscribe_log_event_new ?es (?s None [] None [])"
    unfolding subscribe_log_event_new_def by (intro runs_Cons runs_single) assumption+
  from events_arrive_in_order [OF run] show ?thesis using run by auto
qed

text \<open>
  C37. Blocks are conflated: whatever the timing, the blocks that the driver reads are some of those that the task
  sent, in order and each at most once, and never the default block.
\<close>

theorem blocks_are_conflated:
  assumes "runs block_step (subscribe_blocks_new default_block) es s"
  shows "subseq (concat (map block_read es)) (concat (map block_sent es))"
  using block_stream.run_given [OF assms TrueI]
  by (simp add: stream_content_def subscribe_blocks_new_def)

theorem blocks_are_conflated_witness:
  "\<exists>es :: (unit, nat) block_event list. \<exists>s. runs block_step (subscribe_blocks_new 0) es s \<and>
     concat (map block_sent es) = [2, 3] \<and> concat (map block_read es) = [3] \<and> subseq [3] [2, 3 :: nat]"
proof -
  let ?es = "[Blocks_Polled None, Header_Answered (Inr (Some 2)), Header_Answered (Inr (Some 3)), Blocks_Polled (Some 3)] ::
    (unit, nat) block_event list"
  let ?s = "\<lambda>b u k. \<lparr>newest = b, unseen = u, to_skip = k\<rparr> :: nat block_stream"
  have "block_step (?s 0 True 1) (Blocks_Polled None :: (unit, nat) block_event) (?s 0 False 0)"
    "block_step (?s 3 True 0) (Blocks_Polled (Some 3) :: (unit, nat) block_event) (?s 3 False 0)"
    by (simp_all add: block_step.polled poll_blocks_def)
  moreover have "block_step (?s 0 False 0) (Header_Answered (Inr (Some 2)) :: (unit, nat) block_event) (?s 2 True 0)"
    using block_step.answered [of "?s 0 False 0" "Inr (Some 2)"] by (simp add: on_new_header_def)
  moreover have "block_step (?s 2 True 0) (Header_Answered (Inr (Some 3)) :: (unit, nat) block_event) (?s 3 True 0)"
    using block_step.answered [of "?s 2 True 0" "Inr (Some 3)"] by (simp add: on_new_header_def)
  ultimately have run: "runs block_step (subscribe_blocks_new 0) ?es (?s 3 False 0)"
    unfolding subscribe_blocks_new_def by (intro runs_Cons runs_single) assumption+
  from blocks_are_conflated [OF run] have "subseq [3] [2, 3 :: nat]" by simp
  then show ?thesis using run by (intro exI [of _ ?es] exI [of _ "?s 3 False 0"]) simp
qed

text \<open>
  The stream skips its first item, which is the default block only if the driver polls it before the first block
  comes. Otherwise the first block that it could read is lost.
\<close>

theorem first_block_is_skipped:
  "fst (poll_blocks (on_new_header (Inr (Some b)) (subscribe_blocks_new default_block))) = None \<and>
   stream_content (snd (poll_blocks (on_new_header (Inr (Some b)) (subscribe_blocks_new default_block)))) = []"
  by (simp add: on_new_header_def subscribe_blocks_new_def poll_blocks_def stream_content_def)

end
