(* ===== verification/System_Order.thy ===== *)
theory System_Order
  imports System Clients
begin

text \<open>
  The order of the blocks in the composed system: the path of a block from the block builder through the
  outstanding batch, the command channel and the queue of the actor to the batch that is posted, as a channel
  that loses nothing while nothing fails, and the properties of the composition.
\<close>

section \<open>No block is lost, repeated or reordered\<close>

text \<open>
  The blocks between the block builder and L1, in the order in which they will be posted: those of the queue of
  the actor, of the commands that it has not taken, and of the outstanding batch.
\<close>

fun cmd_blocks :: "submission_cmd \<Rightarrow> preconfirmed_block list" where
  "cmd_blocks (Submit b deadline) = blocks b"
| "cmd_blocks ClearQueue = []"
| "cmd_blocks (GetSuggestedMaxSize w) = []"

definition request_blocks :: "(batch \<times> u64) list \<Rightarrow> preconfirmed_block list" where
  "request_blocks reqs = concat (map (blocks \<circ> fst) reqs)"

definition in_pipe :: "('b, 'r) system \<Rightarrow> preconfirmed_block list" where
  "in_pipe s = request_blocks (request_queue (sys_actor s)) @
     concat (map cmd_blocks (d_handle (sys_driver s))) @ blocks (d_outstanding (sys_driver s))"

definition posted_blocks :: "('sig, 'b, 'r) system_event \<Rightarrow> preconfirmed_block list" where
  "posted_blocks e = (case posted_by e of None \<Rightarrow> [] | Some req \<Rightarrow> blocks (fst req))"

lemma request_blocks_simps [simp]:
  "request_blocks [] = []" "request_blocks (req # reqs) = blocks (fst req) @ request_blocks reqs"
  "request_blocks (reqs @ reqs') = request_blocks reqs @ request_blocks reqs'"
  by (simp_all add: request_blocks_def)

text \<open>What a handler may do without losing a block: it appends to the channel, and keeps the rest.\<close>

definition passes_on :: "preconfirmed_block list \<Rightarrow> driver \<Rightarrow> driver \<Rightarrow> bool" where
  "passes_on added d d' =
     (\<exists>cmds. d_handle d' = d_handle d @ cmds \<and> ClearQueue \<notin> set cmds \<and>
        concat (map cmd_blocks cmds) @ blocks (d_outstanding d') = blocks (d_outstanding d) @ added)"

named_theorems pass_rules \<open>the handlers pass the blocks on\<close>

lemma passes_on_same:
  "d_handle d' = d_handle d \<Longrightarrow> blocks (d_outstanding d') = blocks (d_outstanding d) \<Longrightarrow> passes_on [] d d'"
  by (simp add: passes_on_def)

lemma passes_on_refl [simp]: "passes_on [] d d"
  by (simp add: passes_on_same)

lemma passes_on_trans:
  assumes "passes_on [] d d1" and "passes_on added d1 d2"
  shows "passes_on added d d2"
proof -
  from assms(1) obtain cmds where 1: "d_handle d1 = d_handle d @ cmds" "ClearQueue \<notin> set cmds"
    "concat (map cmd_blocks cmds) @ blocks (d_outstanding d1) = blocks (d_outstanding d) @ []"
    unfolding passes_on_def by blast
  from assms(2) obtain cmds' where 2: "d_handle d2 = d_handle d1 @ cmds'" "ClearQueue \<notin> set cmds'"
    "concat (map cmd_blocks cmds') @ blocks (d_outstanding d2) = blocks (d_outstanding d1) @ added"
    unfolding passes_on_def by blast
  have "concat (map cmd_blocks (cmds @ cmds')) @ blocks (d_outstanding d2) =
      (concat (map cmd_blocks cmds) @ blocks (d_outstanding d1)) @ added"
    by (simp add: 2(3))
  then have "concat (map cmd_blocks (cmds @ cmds')) @ blocks (d_outstanding d2) = blocks (d_outstanding d) @ added"
    unfolding 1(3) by simp
  then show ?thesis unfolding passes_on_def using 1 2 by (intro exI [of _ "cmds @ cmds'"]) simp
qed

lemma passes_on_update [simp]:
  "passes_on added d (d'\<lparr>d_l1 := l1\<rparr>) = passes_on added d d'"
  "passes_on added d (d'\<lparr>d_l2 := l2\<rparr>) = passes_on added d d'"
  "passes_on added d (d'\<lparr>d_status := st\<rparr>) = passes_on added d d'"
  "passes_on added d (d'\<lparr>d_builder := f\<rparr>) = passes_on added d d'"
  "passes_on added d (d'\<lparr>d_lookahead := la\<rparr>) = passes_on added d d'"
  by (simp_all add: passes_on_def)

lemma passes_on_outstanding:
  "passes_on added d d' \<Longrightarrow> blocks b = blocks (d_outstanding d') \<Longrightarrow> passes_on added d (d'\<lparr>d_outstanding := b\<rparr>)"
  by (simp add: passes_on_def)

lemma passes_on_status [simp]: "passes_on added d (update_status st d') = passes_on added d d'"
  by (simp add: update_status_def)

lemma passes_on_origin [simp]: "passes_on added d (fst (update_head_l1_origin env d')) = passes_on added d d'"
  by (simp add: update_head_l1_origin_def split: sum.split)

lemma passes_on_anchor [simp]:
  "passes_on added d d' \<Longrightarrow> passes_on added d (update_outstanding_batch_anchor_if_needed d')"
  by (simp add: update_outstanding_batch_anchor_if_needed_def passes_on_outstanding change_anchor_def)

lemma passes_sync_lookahead [pass_rules]:
  "passes_on [] d0 d \<Longrightarrow> when_done (passes_on [] d0) (sync_lookahead slot current next time inst d)"
  by (auto simp: sync_lookahead_def split: prod.split intro: when_done_expect_then)

lemma passes_submit_local:
  assumes "passes_on [] d0 d"
  shows "when_done (\<lambda>d'. passes_on [] d0 d' \<and> d_lookahead d' = d_lookahead d) (submit_local_outstanding_batch bg deadline d)"
proof (cases "submit_local_outstanding_batch bg deadline d")
  case (Done d')
  let ?b = "fst (take_and_reset (d_outstanding d) (l1_anchor (d_l1 d)))"
  have "blocks (d_outstanding d') = [] \<and> d_lookahead d' = d_lookahead d \<and>
      d_handle d' = d_handle d @ (if blocks (d_outstanding d) = [] then [] else [Submit ?b deadline])"
    using Done unfolding submit_local_outstanding_batch_def await_idle_def
    by (cases "is_finalizing (fl_state (d_builder d)) = None"; cases "await_changed bg (d_builder d)";
        cases "trigger_batch_submission (d_handle d) ?b deadline")
       (auto simp: submit_def take_and_reset_def trigger_batch_submission_def send_cmd_def split: if_splits)
  then have "passes_on [] d d'" "d_lookahead d' = d_lookahead d"
    by (auto simp: passes_on_def take_and_reset_def)
  then show ?thesis using assms Done by (auto intro: passes_on_trans)
qed simp_all

lemma passes_propose_before_age_limit:
  "passes_on [] d0 d \<Longrightarrow>
   when_done (\<lambda>d'. passes_on [] d0 d' \<and> d_lookahead d' = d_lookahead d) (propose_before_age_limit env slots_left d)"
  by (auto simp: propose_before_age_limit_def intro!: when_done_expect_then passes_submit_local)

lemma passes_propose_in_handover:
  assumes "passes_on [] d0 d"
  shows "when_done (passes_on [] d0) (propose_in_handover env d)"
proof (cases "propose_in_handover env d")
  case (Done d')
  then show ?thesis
    using assms passes_submit_local [OF assms] by (auto simp: propose_in_handover_def split: if_splits dest: handled_ok)
qed simp_all

text \<open>The tick of an L1 slot that starts no inclusion window.\<close>

definition no_new_window :: "driver \<Rightarrow> u64 \<Rightarrow> bool" where
  "no_new_window d time =
     (case cfg_timestamp_to_l1_slot (d_cfg d) time of
        None \<Rightarrow> True
      | Some slot \<Rightarrow> \<not> (slot mod EPOCH_SLOTS = 0 \<and> is_new_inclusion_window (d_lookahead d) slot))"

lemma passes_on_l1_slot_tick:
  assumes "no_new_window d time"
  shows "when_done (passes_on [] d) (on_l1_slot_tick env time d)"
proof -
  have handover: "when_done (passes_on [] d) (then_h (propose_in_handover env d1)
      (\<lambda>d. Done (update_outstanding_batch_anchor_if_needed d)))" if "passes_on [] d d1" for d1
    by (rule when_done_then [OF passes_propose_in_handover [OF that]]) simp
  have window: "when_done (passes_on [] d) (then_h (new_window_or_status env slot d1) (\<lambda>d.
      then_h (propose_in_handover env d) (\<lambda>d. Done (update_outstanding_batch_anchor_if_needed d))))"
    if "passes_on [] d d1" "\<not> (slot mod EPOCH_SLOTS = 0 \<and> is_new_inclusion_window (d_lookahead d1) slot)" for d1 slot
  proof (rule when_done_then [OF _ handover])
    show "when_done (passes_on [] d) (new_window_or_status env slot d1)"
      using that by (auto simp: new_window_or_status_def intro: when_done_expect_then)
  qed
  show ?thesis
    unfolding on_l1_slot_tick_def Let_def
  proof (rule when_done_expect_then, rule when_done_then [OF passes_propose_before_age_limit])
    fix slot d1
    let ?d = "d\<lparr>d_l1 := (d_l1 d)\<lparr>l1_head_slot := slot\<rparr>\<rparr>"
    assume slot: "cfg_timestamp_to_l1_slot (d_cfg d) time = Some slot"
    show "passes_on [] d ?d" by simp
    assume "passes_on [] d d1 \<and> d_lookahead d1 = d_lookahead ?d"
    then show "when_done (passes_on [] d) (then_h (new_window_or_status env slot d1) (\<lambda>d.
      then_h (propose_in_handover env d) (\<lambda>d. Done (update_outstanding_batch_anchor_if_needed d))))"
      using assms slot by (intro window) (auto simp: no_new_window_def)
  qed
qed

lemma passes_on_l2_slot_tick: "when_done (passes_on [] d) (on_l2_slot_tick env time d)"
  unfolding on_l2_slot_tick_def Let_def
  by (auto split: sum.split outcome.split option.split intro!: when_done_expect_then)

lemma passes_on_taiko_preconf_event: "when_done (passes_on [] d) (on_taiko_preconf_event env ep d)"
  by (simp add: on_taiko_preconf_event_def passes_sync_lookahead)

text \<open>An L1 block after which none of the outstanding blocks has been proposed.\<close>

definition nothing_proposed :: "'sig driver_env \<Rightarrow> driver \<Rightarrow> bool" where
  "nothing_proposed env d =
     (case get_head_l1_origin (de_stats2 env) (de_batch env) of
        Inl e \<Rightarrow> True
      | Inr n \<Rightarrow> list_all (\<lambda>x. n < pb_number x) (blocks (d_outstanding d)))"

lemma origin_cases:
  assumes "update_head_l1_origin env d = (d', Inr u)"
  obtains n where "get_head_l1_origin (de_stats2 env) (de_batch env) = Inr n" "d' = d\<lparr>d_l2 := (d_l2 d)\<lparr>head_l1_origin := n\<rparr>\<rparr>"
  using assms by (auto simp: update_head_l1_origin_def split: sum.splits)

lemma passes_on_l1_block:
  assumes "nothing_proposed env d"
  shows "when_done (passes_on [] d) (on_l1_block env h d)"
proof -
  have rest: "when_done (\<lambda>(d', r). passes_on [] d d')
      (then_h (sync_lookahead slot current next' time inst d1) (\<lambda>d. Done (d, r)))"
    if "passes_on [] d d1" for slot current next' time inst d1 and r :: "driver_error + u64"
    by (rule when_done_then [OF passes_sync_lookahead [OF that]]) simp
  have batch: "passes_on [] d (d1\<lparr>d_outstanding := retain_blocks_after (d_outstanding d1) (head_l1_origin (d_l2 d1))\<rparr>)"
    if origin: "update_head_l1_origin env (d\<lparr>d_l1 := l1\<rparr>) = (d1, Inr u)" for l1 d1 u
  proof -
    obtain n where n: "get_head_l1_origin (de_stats2 env) (de_batch env) = Inr n"
      and d1: "d1 = d\<lparr>d_l1 := l1, d_l2 := (d_l2 d)\<lparr>head_l1_origin := n\<rparr>\<rparr>"
      using origin_cases [OF origin] by auto
    have "filter (\<lambda>x. n < pb_number x) (blocks (d_outstanding d)) = blocks (d_outstanding d)"
      using assms n by (simp add: nothing_proposed_def list_all_iff filter_id_conv)
    then show ?thesis
      unfolding d1 by (intro passes_on_outstanding) (simp_all add: retain_blocks_after_def)
  qed
  have failed: "passes_on [] d d1" if "update_head_l1_origin env (d\<lparr>d_l1 := l1\<rparr>) = (d1, r)" for l1 d1 r
    using passes_on_origin [of "[]" d env "d\<lparr>d_l1 := l1\<rparr>"] that by simp
  have info: "when_done (\<lambda>(d', r). passes_on [] d d') (update_l1_info env h d)"
    unfolding update_l1_info_def Let_def
    by (rule when_done_expect_then)
       (auto split: prod.split sum.split intro!: rest passes_on_anchor batch dest: failed)
  show ?thesis
    unfolding on_l1_block_def by (rule when_done_then [OF info]) (auto split: sum.split)
qed

lemma passes_on_l2_block:
  assumes "head_block (d_l2 d) \<le> number (block_header b)"
  shows "when_done (passes_on [] d) (on_l2_block env b d)"
  using assms by (auto simp: on_l2_block_def Let_def not_less split: sum.split)

lemma passes_add_blocks:
  assumes "add_blocks est i anchor bs d = Done d'" and "can_propose (d_status d)" and "increasing bs"
    and "\<forall>x \<in> set (blocks (d_outstanding d)). \<forall>y \<in> set bs. pb_number x < pb_number y"
  shows "passes_on bs d d'"
proof -
  obtain full :: "batch list" where
    full: "d_handle d' = d_handle d @ map (\<lambda>b. Submit b (inclusion_window_end (d_lookahead d))) full"
    "concat (map blocks full) @ blocks (d_outstanding d') = added_below (d_outstanding d) bs"
    using add_blocks_conserves [OF assms(1,3)] assms(2) by auto
  have "added_below (d_outstanding d) bs = blocks (d_outstanding d) @ bs"
    using assms(4) by (cases bs) (simp_all add: kept_blocks_all)
  moreover have "concat (map cmd_blocks (map (\<lambda>b. Submit b (inclusion_window_end (d_lookahead d))) full)) =
      concat (map blocks full)" by (simp add: comp_def)
  ultimately show ?thesis
    unfolding passes_on_def using full
    by (intro exI [of _ "map (\<lambda>b. Submit b (inclusion_window_end (d_lookahead d))) full"]) auto
qed

text \<open>
  The events that a run without failures has: blocks are produced while batches may be proposed, no inclusion
  window starts, L2 does not reorg, the operators do not change, and an L1 block that the driver sees does not
  contain outstanding blocks.
\<close>

definition smooth_event :: "'sig driver_env \<Rightarrow> 'b driver_event \<Rightarrow> driver \<Rightarrow> bool" where
  "smooth_event env event d =
     (case event of
        L1_Slot_Tick time \<Rightarrow> no_new_window d time
      | Block_Produced \<Rightarrow> can_propose (d_status d)
      | New_L1_Block h \<Rightarrow> nothing_proposed env d
      | New_L2_Block b \<Rightarrow> head_block (d_l2 d) \<le> number (block_header b)
      | Operator_Changed \<Rightarrow> False
      | Batch_Error e \<Rightarrow> matches_not_preconfer e
      | _ \<Rightarrow> True)"

lemma handler_passes_on:
  assumes "handle_event env event d = Done d'" and "smooth_event env event d"
    and "increasing (blocks_added env event d)"
    and "\<forall>x \<in> set (blocks (d_outstanding d)). \<forall>y \<in> set (blocks_added env event d). pb_number x < pb_number y"
  shows "passes_on (blocks_added env event d) d d'"
proof (cases "event = Block_Produced")
  case True
  show ?thesis
  proof (cases "fl_channel (d_builder d)")
    case Nil
    then show ?thesis using assms(1) True by (simp add: handle_event_def blocks_added_def)
  next
    case (Cons r rs)
    obtain new_block anchor st where r: "into_block_with_anchor r (fl_state (d_builder d)) = ((new_block, anchor), st)"
      by (metis surj_pair)
    let ?d = "d\<lparr>d_builder := (d_builder d)\<lparr>fl_state := st, fl_channel := rs\<rparr>\<rparr>"
    have gap: "gap_blocks env new_block ?d = gap_blocks env new_block d" by (simp add: gap_blocks_def)
    have added: "blocks_added env event d = gap_blocks env new_block d @ [new_block]"
      using True Cons r by (simp add: blocks_added_def)
    have "add_blocks (de_estimate env) 0 anchor (blocks_added env event d) ?d = Done d'"
      unfolding added using assms(1) True Cons r by (simp add: handle_event_def on_produced_block_def gap)
    then have "passes_on (blocks_added env event d) ?d d'"
      by (rule passes_add_blocks) (use assms(2-4) True in \<open>simp_all add: smooth_event_def\<close>)
    then show ?thesis by (simp add: passes_on_def)
  qed
next
  case False
  then have "blocks_added env event d = []" by (cases event) (simp_all add: blocks_added_def)
  moreover have "when_done (passes_on [] d) (handle_event env event d)"
    using assms(2) False
    by (cases event)
       (simp_all add: smooth_event_def handle_event_def on_batch_proposal_err_def passes_on_l1_slot_tick
         passes_on_l2_slot_tick passes_on_taiko_preconf_event passes_on_l1_block passes_on_l2_block)
  ultimately show ?thesis using assms(1) by simp
qed

section \<open>The actor without failures\<close>

text \<open>Batches in order do not overlap.\<close>

lemma range_below:
  assumes "blocks a \<noteq> []" and "blocks b \<noteq> []" and "increasing (blocks a @ blocks b)"
  shows "\<not> ranges_overlap (blocks_range a) (blocks_range b)"
proof -
  have "last (blocks a) \<in> set (blocks a)" "hd (blocks b) \<in> set (blocks b)" using assms by simp_all
  then have "pb_number (last (blocks a)) < pb_number (hd (blocks b))"
    using assms(3) by (simp add: increasing_append)
  moreover have "snd (blocks_range a) = pb_number (last (blocks a))" "fst (blocks_range b) = pb_number (hd (blocks b))"
    using assms(1,2) by (auto simp: blocks_range_def split: list.split)
  ultimately show ?thesis by (simp add: ranges_overlap_def not_le)
qed

lemma increasing_part: "increasing (request_blocks reqs @ bs) \<Longrightarrow> req \<in> set reqs \<Longrightarrow> increasing (blocks (fst req) @ bs)"
  by (induction reqs) (auto simp: increasing_append)

lemma request_in_order_is_queued:
  assumes "\<forall>req \<in> set (request_queue p). request_ok req" and "blocks b \<noteq> []"
    and "increasing (request_blocks (request_queue p) @ blocks b)"
  shows "handle_batch_submission_request p b deadline = p\<lparr>request_queue := request_queue p @ [(b, deadline)]\<rparr>"
proof -
  have "\<not> ranges_overlap (blocks_range (fst req)) (blocks_range b)" if "req \<in> set (request_queue p)" for req
    using that assms by (intro range_below increasing_part) (auto simp: request_ok_def)
  then have "\<not> list_ex (\<lambda>r. ranges_overlap r (blocks_range b)) (queue_to_ranges (request_queue p))"
    by (auto simp: list_ex_iff queue_to_ranges_def)
  then show ?thesis by (simp add: handle_batch_submission_request_def)
qed

lemma request_blocks_submitted: "request_blocks (submitted_in cmds) = concat (map cmd_blocks cmds)"
proof (induction cmds)
  case (Cons c cmds)
  then show ?case by (cases c) (simp_all add: submitted_in_def)
qed (simp add: submitted_in_def)

lemma commands_in_order_are_queued:
  "on_cmds p cmds = Some (p', as) \<Longrightarrow> \<forall>req \<in> set (request_queue p). request_ok req \<Longrightarrow> cmds_ok cmds \<Longrightarrow>
   ClearQueue \<notin> set cmds \<Longrightarrow> increasing (request_blocks (request_queue p) @ concat (map cmd_blocks cmds)) \<Longrightarrow>
   request_queue p' = request_queue p @ submitted_in cmds"
proof (induction cmds arbitrary: p as)
  case Nil
  then show ?case by (simp add: submitted_in_def)
next
  case (Cons c cmds)
  from Cons.prems(1) obtain p1 a as1 where c: "on_cmd p c = Some (p1, a)" and cs: "on_cmds p1 cmds = Some (p', as1)"
    by (rule on_cmds_Cons)
  have head: "request_queue p1 = request_queue p @ submitted_in [c] \<and> (\<forall>req \<in> set (request_queue p1). request_ok req)"
  proof (cases c)
    case (Submit b deadline)
    have b: "batch_ok b" "blocks b \<noteq> []" using Cons.prems(3) Submit by (simp_all add: cmds_ok_def)
    moreover have "increasing (request_blocks (request_queue p) @ blocks b)"
      using Cons.prems(5) Submit by (auto simp: increasing_append)
    ultimately have "handle_batch_submission_request p b deadline = p\<lparr>request_queue := request_queue p @ [(b, deadline)]\<rparr>"
      using Cons.prems(2) by (intro request_in_order_is_queued)
    then have p1: "p1 = p\<lparr>request_queue := request_queue p @ [(b, deadline)]\<rparr>"
      using c Submit by (simp add: on_cmd_def)
    show ?thesis unfolding p1 using Submit b Cons.prems(2) by (simp add: request_ok_def submitted_in_def)
  next
    case ClearQueue
    then show ?thesis using Cons.prems(4) by simp
  next
    case (GetSuggestedMaxSize w)
    then show ?thesis using c Cons.prems(2) by (auto simp: on_cmd_def submitted_in_def split: option.splits if_splits)
  qed
  then have blocks: "request_blocks (request_queue p1) = request_blocks (request_queue p) @ cmd_blocks c"
    using request_blocks_submitted [of "[c]"] by simp
  have "request_queue p' = request_queue p1 @ submitted_in cmds"
    using Cons.prems(3-5) head blocks by (intro Cons.IH [OF cs]) (auto simp: cmds_ok_def)
  then show ?case using head by (simp add: submitted_in_Cons [of c cmds])
qed

text \<open>A round without failures takes the first batch of the queue and appends the submitted ones.\<close>

lemma smooth_round_queue:
  assumes "poll_round p ready cmds = Some r" and "smooth_result ready"
    and "\<forall>req \<in> set (request_queue p). request_ok req" and "cmds_ok cmds" and "ClearQueue \<notin> set cmds"
    and "increasing (request_blocks (request_queue p) @ concat (map cmd_blocks cmds))"
  shows "(case started r of None \<Rightarrow> [] | Some req \<Rightarrow> [req]) @ request_queue (after_round r) =
    request_queue p @ submitted_in cmds"
proof -
  from assms(1) obtain p1 fin p2 as where parts: "poll_proposal p ready = Some (p1, fin)"
    "start_proposal p1 = (p2, started r)" "on_cmds p2 cmds = Some (after_round r, as)"
    by (rule poll_round_cases)
  have q: "request_queue p = (case started r of None \<Rightarrow> [] | Some x \<Rightarrow> [x]) @ request_queue p2"
    using start_proposal_queue [OF parts(2)] poll_proposal_smooth [OF parts(1) assms(2)] by simp
  then have "\<forall>req \<in> set (request_queue p2). request_ok req" using assms(3) by simp
  moreover have "increasing (request_blocks (request_queue p2) @ concat (map cmd_blocks cmds))"
    using assms(6) unfolding q by (auto simp: increasing_append)
  ultimately have "request_queue (after_round r) = request_queue p2 @ submitted_in cmds"
    using commands_in_order_are_queued [OF parts(3)] assms(4,5) by blast
  then show ?thesis using q by simp
qed

lemma smooth_round_conserves:
  assumes "poll_round p ready cmds = Some r" and "smooth_result ready"
    and "\<forall>req \<in> set (request_queue p). request_ok req" and "cmds_ok cmds" and "ClearQueue \<notin> set cmds"
    and "increasing (request_blocks (request_queue p) @ concat (map cmd_blocks cmds))"
  shows "(case started r of None \<Rightarrow> [] | Some req \<Rightarrow> blocks (fst req)) @ request_blocks (request_queue (after_round r)) =
    request_blocks (request_queue p) @ concat (map cmd_blocks cmds)"
  using arg_cong [OF smooth_round_queue [OF assms], of request_blocks]
  by (cases "started r") (simp_all add: request_blocks_submitted)

section \<open>The system without failures\<close>

text \<open>The steps of a run in which nothing fails, and the invariant that they keep.\<close>

fun smooth :: "('b, 'r) system \<Rightarrow> ('sig, 'b, 'r) system_event \<Rightarrow> bool" where
  "smooth s (Handled env event bs) = (env_ok env \<and> smooth_event env event (sys_driver s))"
| "smooth s (Size_Asked env time ready start) = (env_ok env \<and> smooth_result ready)"
| "smooth s (Polled ready n start) = smooth_result ready"
| "smooth s (Result_Read env) =
     (env_ok env \<and>
      (case result_channel (sys_actor s) of Inl e # results \<Rightarrow> matches_not_preconfer e | _ \<Rightarrow> True))"
| "smooth s (Task_Ended i result) = True"
| "smooth s (Router_Read answer) = True"

definition orderly :: "runtime_config \<Rightarrow> ('b, 'r) system \<Rightarrow> bool" where
  "orderly cfg s = (system_ok cfg s \<and> increasing (in_pipe s) \<and> ClearQueue \<notin> set (d_handle (sys_driver s)))"

text \<open>Such a step whose blocks are above those that are on their way.\<close>

definition smooth_and_above :: "('b, 'r) system \<Rightarrow> ('sig, 'b, 'r) system_event \<Rightarrow> bool" where
  "smooth_and_above s e = (smooth s e \<and> increasing (in_pipe s @ added_by e))"

lemma smooth_label_ok: "smooth s e \<Longrightarrow> label_ok e"
  by (cases e) simp_all

lemma in_pipe_driver:
  assumes "passes_on added (sys_driver s) d"
  shows "in_pipe (s\<lparr>sys_driver := d\<rparr>) = in_pipe s @ added" "ClearQueue \<notin> set (d_handle (sys_driver s)) \<Longrightarrow> ClearQueue \<notin> set (d_handle d)"
proof -
  from assms obtain cmds where d: "d_handle d = d_handle (sys_driver s) @ cmds" "ClearQueue \<notin> set cmds"
    "concat (map cmd_blocks cmds) @ blocks (d_outstanding d) = blocks (d_outstanding (sys_driver s)) @ added"
    unfolding passes_on_def by blast
  show "in_pipe (s\<lparr>sys_driver := d\<rparr>) = in_pipe s @ added" by (simp add: in_pipe_def d(1,3))
  show "ClearQueue \<notin> set (d_handle (sys_driver s)) \<Longrightarrow> ClearQueue \<notin> set (d_handle d)" using d(1,2) by simp
qed

text \<open>A poll with the commands \<open>cmds\<close> of the channel, which leaves \<open>rest\<close>.\<close>

lemma in_pipe_poll:
  assumes "orderly cfg s" and "poll_round (sys_actor s) ready cmds = Some r" and "smooth_result ready"
    and "d_handle d = rest" and "cmds_ok cmds" and "ClearQueue \<notin> set cmds"
    and "concat (map cmd_blocks cmds) @ concat (map cmd_blocks rest) = concat (map cmd_blocks (d_handle (sys_driver s)))"
    and "blocks (d_outstanding d) = blocks (d_outstanding (sys_driver s))"
  shows "(case started r of None \<Rightarrow> [] | Some req \<Rightarrow> blocks (fst req)) @
    in_pipe (s\<lparr>sys_driver := d, sys_actor := after_round r\<rparr>) = in_pipe s"
proof -
  have "\<forall>req \<in> set (request_queue (sys_actor s)). request_ok req"
    using assms(1) unfolding orderly_def system_ok_def by blast
  moreover have "increasing (request_blocks (request_queue (sys_actor s)) @ concat (map cmd_blocks cmds))"
    using assms(1) unfolding orderly_def in_pipe_def assms(7) [symmetric] by (auto simp: increasing_append)
  ultimately have "(case started r of None \<Rightarrow> [] | Some req \<Rightarrow> blocks (fst req)) @ request_blocks (request_queue (after_round r)) =
    request_blocks (request_queue (sys_actor s)) @ concat (map cmd_blocks cmds)"
    using smooth_round_conserves assms(2,3,5,6) by blast
  note this [THEN arg_cong, of "\<lambda>xs. xs @ concat (map cmd_blocks rest) @ blocks (d_outstanding (sys_driver s))"]
  then show ?thesis unfolding in_pipe_def assms(7) [symmetric] by (simp add: assms(4,8))
qed

lemma l2_tick_keeps_batches:
  assumes "on_l2_slot_tick env time d = Done d'"
  shows "d_handle d' = d_handle d \<and> d_outstanding d' = d_outstanding d"
proof -
  have "when_done (\<lambda>d'. d_handle d' = d_handle d \<and> d_outstanding d' = d_outstanding d) (on_l2_slot_tick env time d)"
    unfolding on_l2_slot_tick_def Let_def
    by (auto split: sum.split outcome.split option.split intro!: when_done_expect_then)
  then show ?thesis using assms by simp
qed

lemma smooth_step_conserves:
  assumes "orderly cfg s" and "system_moves s e t" and "smooth_and_above s e"
  shows "posted_blocks e @ in_pipe t = in_pipe s @ added_by e \<and> ClearQueue \<notin> set (d_handle (sys_driver t))"
  using assms(2)
proof (cases rule: system_moves.cases)
  case (handled env event d)
  have "passes_on (blocks_added env event (sys_driver s)) (sys_driver s) d"
    using assms(3) handled(1)
    by (intro handler_passes_on [OF handled(5)])
       (auto simp: smooth_and_above_def increasing_append in_pipe_def)
  from in_pipe_driver [OF this] show ?thesis
    using assms(1) unfolding handled(1,2) by (simp add: posted_blocks_def orderly_def)
next
  case (size_asked env time cmds ready r d)
  have cmds: "cmds = d_handle (sys_driver s) @ [GetSuggestedMaxSize True]"
    using size_asked(4) by (auto simp: get_suggested_max_size_def send_cmd_def split: if_splits)
  have d: "d_outstanding d = d_outstanding (sys_driver s)" using l2_tick_keeps_batches [OF size_asked(7)] by simp
  have c: "cmds_ok cmds" "ClearQueue \<notin> set cmds"
    using assms(1) by (auto simp: cmds orderly_def system_ok_def driver_ok_def cmds_ok_def)
  have "smooth_result ready" using assms(3) unfolding size_asked(1) by (simp add: smooth_and_above_def)
  from in_pipe_poll [OF assms(1) size_asked(5) this, of "d\<lparr>d_handle := []\<rparr>" "[]"] c d
  show ?thesis unfolding size_asked(1,2) by (simp add: posted_blocks_def cmds)
next
  case (polled ready n r)
  let ?h = "d_handle (sys_driver s)" and ?d = "(sys_driver s)\<lparr>d_handle := drop n (d_handle (sys_driver s))\<rparr>"
  have h: "cmds_ok ?h" "ClearQueue \<notin> set ?h"
    using assms(1) by (auto simp: orderly_def system_ok_def driver_ok_def)
  have "concat (map cmd_blocks (take n ?h @ drop n ?h)) = concat (map cmd_blocks ?h)" by (simp only: append_take_drop_id)
  then have split: "concat (map cmd_blocks (take n ?h)) @ concat (map cmd_blocks (drop n ?h)) = concat (map cmd_blocks ?h)"
    by (simp only: map_append concat_append)
  have "smooth_result ready" using assms(3) unfolding polled(1) by (simp add: smooth_and_above_def)
  from in_pipe_poll [OF assms(1) polled(3) this, of ?d "drop n ?h"] cmds_ok_take_drop [OF h(1)] h(2) split
  have "(case started r of None \<Rightarrow> [] | Some req \<Rightarrow> blocks (fst req)) @ in_pipe t = in_pipe s"
    unfolding polled(2) by (auto dest: in_set_takeD)
  then show ?thesis unfolding polled(1,2) using h(2) by (auto simp: posted_blocks_def dest: in_set_dropD)
next
  case (result_read res results env d)
  have "d = sys_driver s"
    using assms(3) result_read
    by (cases res) (auto simp: smooth_and_above_def on_batch_result_def handle_event_def on_batch_proposal_err_def)
  then show ?thesis
    using assms(1) unfolding result_read(1,2) by (simp add: posted_blocks_def in_pipe_def orderly_def)
next
  case (task_ended i result)
  then show ?thesis using assms(1) by (simp add: posted_blocks_def in_pipe_def orderly_def)
next
  case (router_read answer)
  then show ?thesis using assms(1) by (simp add: posted_blocks_def in_pipe_def orderly_def)
qed

interpretation pipeline: lossless_fifo
  "limited smooth_and_above (system_moves :: ('b, 'r) system \<Rightarrow> ('sig, 'b, 'r) system_event \<Rightarrow> ('b, 'r) system \<Rightarrow> bool)"
  "orderly cfg" in_pipe added_by posted_blocks
proof
  fix s :: "('b, 'r) system" and e :: "('sig, 'b, 'r) system_event" and t :: "('b, 'r) system"
  assume s: "orderly cfg s" and "limited smooth_and_above system_moves s e t"
  then have e: "smooth_and_above s e" and step: "system_moves s e t" by (simp_all add: limited_def)
  note c = smooth_step_conserves [OF s step e]
  then show "posted_blocks e @ in_pipe t = in_pipe s @ added_by e" by blast
  have "increasing (posted_blocks e @ in_pipe t)" using c e by (simp add: smooth_and_above_def)
  then have "increasing (in_pipe t)" unfolding increasing_append by blast
  moreover have "system_ok cfg t"
    using system_moves_ok [OF step] s e smooth_label_ok unfolding orderly_def smooth_and_above_def by blast
  ultimately show "orderly cfg t" using c unfolding orderly_def by blast
qed

text \<open>It is enough that the blocks that a run adds are above those on their way when it starts.\<close>

lemma smooth_run_above:
  assumes "runs (limited smooth system_moves) s es t" and "orderly cfg s"
    and "increasing (in_pipe s @ concat (map added_by es))"
  shows "runs (limited smooth_and_above system_moves) s es t"
  using assms
proof (induction rule: runs.induct)
  case (step s es t e u)
  have inc: "increasing ((in_pipe s @ concat (map added_by es)) @ added_by e)" using step.prems(2) by simp
  then have "increasing (in_pipe s @ concat (map added_by es))" using increasing_append by blast
  then have run: "runs (limited smooth_and_above system_moves) s es t"
    using step.IH step.prems(1) by blast
  note pipeline.run_conserves [OF this step.prems(1)]
  with inc have "increasing (in_pipe t @ added_by e)" by (metis append.assoc increasing_append)
  then have "limited smooth_and_above system_moves t e u"
    using step.hyps(2) by (simp add: limited_def smooth_and_above_def)
  with run show ?case by (rule runs.step)
qed (rule runs.init)

section \<open>Properties\<close>

text \<open>
  Every batch that the system ever starts to post, whatever the driver, the actor and the rest of the world
  do, has a block, at most its capacity of blocks, and them in strictly increasing order.
\<close>

theorem posted_batches_are_well_formed:
  fixes s :: "('b, 'r) system"
  assumes "runs system_moves s es t" and "system_ok cfg s" and "\<forall>e \<in> set es. label_real e"
  shows "\<forall>e \<in> set es. \<forall>b deadline. posted_by e = Some (b, deadline) \<longrightarrow>
    blocks b \<noteq> [] \<and> length (blocks b) \<le> capacity (settings b) \<and> increasing (blocks b)"
  using system_run_posts_ok [OF assms(1,2)] assms(3) label_real_ok
  by (fastforce simp: request_ok_def batch_ok_def)

text \<open>
  C1. End to end, nothing is lost, repeated or reordered: in a run in which no proposal fails, L2 does not reorg, no
  inclusion window starts, the operators do not change, the driver may propose whenever a block is produced, no L1 block
  brings a proposal of outstanding blocks and the numbers of the blocks go up, the blocks of the posted batches, one after the other, are the blocks that were on their way when the
  run started, followed by the blocks that the run produced or downloaded to fill gaps, up to those that are
  still on their way, which follow in the same order.
\<close>

theorem produced_blocks_reach_l1_in_order:
  fixes s :: "('b, 'r) system"
  assumes "runs (limited smooth system_moves) s es t" and "system_ok cfg s"
    and "ClearQueue \<notin> set (d_handle (sys_driver s))" and "increasing (in_pipe s @ concat (map added_by es))"
  shows "concat (map posted_blocks es) @ in_pipe t = in_pipe s @ concat (map added_by es)"
proof -
  have "orderly cfg s" using assms(2-4) by (simp add: orderly_def increasing_append)
  then show ?thesis
    using pipeline.run_conserves smooth_run_above [OF assms(1) _ assms(4)] by blast
qed

text \<open>Commands and rounds leave the configured maximal size as it is.\<close>

lemma on_cmd_sizes: "on_cmd p c = Some (p', a) \<Longrightarrow> max_block_size p' = max_block_size p \<and> throttling_factor p' = throttling_factor p"
  by (cases c) (auto simp: on_cmd_def handle_batch_submission_request_def Let_def split: option.splits if_splits)

lemma on_cmds_sizes:
  "on_cmds p cs = Some (p', as) \<Longrightarrow>
   max_block_size p' = max_block_size p \<and> throttling_factor p' = throttling_factor p"
proof (induction cs arbitrary: p as)
  case (Cons c cs)
  from Cons.prems obtain p1 a as1 where "on_cmd p c = Some (p1, a)" "on_cmds p1 cs = Some (p', as1)"
    by (rule on_cmds_Cons)
  then show ?case using Cons.IH on_cmd_sizes by metis
qed simp

lemma on_cmds_asked:
  "on_cmds p (cs @ [GetSuggestedMaxSize True]) = Some (p', as) \<Longrightarrow> as \<noteq> [] \<and> calc_max_next_block_size p' = Some (last as)"
proof (induction cs arbitrary: p as)
  case Nil
  then show ?case by (auto simp: on_cmd_def split: option.splits)
next
  case (Cons c cs)
  from Cons.prems obtain p1 a as1 where "on_cmd p c = Some (p1, a)"
    "on_cmds p1 (cs @ [GetSuggestedMaxSize True]) = Some (p', as1)" "as = (case a of None \<Rightarrow> as1 | Some m \<Rightarrow> m # as1)"
    by (simp only: append_Cons) (erule on_cmds_Cons)
  then show ?case using Cons.IH [of p1 as1] by (cases a) auto
qed

lemma poll_proposal_sizes:
  "poll_proposal p ready = Some (p', fin) \<Longrightarrow>
   max_block_size p' = max_block_size p \<and> throttling_factor p' = throttling_factor p"
  by (auto simp: poll_proposal_def on_proposal_def send_result_def split: option.splits sum.splits if_splits)

lemma throttle_funpow:
  "throttle n f sz = Some r \<Longrightarrow> unat r = ((\<lambda>x. x - x div unat f) ^^ n) (unat sz) \<and> (f = 0 \<longrightarrow> n = 0)"
proof (induction n f sz rule: throttle.induct)
  case (2 n f sz)
  then obtain d where d: "checked_div sz f = Some d" "throttle n f (sat_sub sz d) = Some r"
    by (auto split: option.splits)
  have "unat (sat_sub sz d) = unat sz - unat sz div unat f"
    using throttle_step(2) [OF d(1)] by (simp add: unat_sat_sub)
  with "2.IH" [OF d] throttle_step(1) [OF d(1)] show ?case by (auto simp: funpow_Suc_right simp del: funpow.simps)
qed simp

text \<open>
  C12. The size that the driver passes to the engine with a block: the configured maximum, from which one part
  in \<open>throttling_factor\<close> (rounded down) is taken away once for every batch that waits in the queue of the actor, after
  the actor has taken every batch that the driver submitted before. It is never more than the configured maximum.
\<close>

theorem asked_size_is_throttled:
  assumes "system_moves s (Size_Asked env time ready start) t"
  shows "unat (de_max_size env) =
      ((\<lambda>x. x - x div unat (throttling_factor (sys_actor s))) ^^ length (request_queue (sys_actor t)))
        (unat (max_block_size (sys_actor s))) \<and>
    de_max_size env \<le> max_block_size (sys_actor s) \<and>
    (throttling_factor (sys_actor s) = 0 \<longrightarrow> request_queue (sys_actor t) = [])"
  using assms
proof (cases rule: system_moves.cases)
  case (size_asked cmds r d)
  have cmds: "cmds = d_handle (sys_driver s) @ [GetSuggestedMaxSize True]"
    using size_asked by (auto simp: get_suggested_max_size_def send_cmd_def split: if_splits)
  obtain p1 fin p2 where parts: "poll_proposal (sys_actor s) ready = Some (p1, fin)"
    "start_proposal p1 = (p2, started r)" "on_cmds p2 cmds = Some (after_round r, answers r)"
    using size_asked by (auto simp: poll_round_def split: option.splits prod.splits)
  have "answers r = [de_max_size env]" using size_asked by simp
  then have "calc_max_next_block_size (after_round r) = Some (de_max_size env)"
    using on_cmds_asked [of p2 "d_handle (sys_driver s)"] parts(3) by (simp add: cmds)
  moreover have "max_block_size p2 = max_block_size p1 \<and> throttling_factor p2 = throttling_factor p1"
    using parts(2) by (auto simp: start_proposal_def split: option.splits list.splits)
  then have "max_block_size (after_round r) = max_block_size (sys_actor s) \<and>
      throttling_factor (after_round r) = throttling_factor (sys_actor s)"
    using on_cmds_sizes [OF parts(3)] poll_proposal_sizes [OF parts(1)] by simp
  ultimately have "throttle (length (request_queue (sys_actor t))) (throttling_factor (sys_actor s))
      (max_block_size (sys_actor s)) = Some (de_max_size env)"
    using size_asked(2)
    by (cases "request_queue (after_round r)")
       (simp_all add: calc_max_next_block_size_def DA_THROTTLE_THRESHOLD_def Let_def)
  from throttle_funpow [OF this] throttle_le [OF this] show ?thesis by simp
qed

text \<open>
  C22. The driver takes a reorg for what the stream of L2 blocks shows it. The stream keeps only the newest block, so
  a block below the head that is followed by one above it before the driver looks is never seen: the blocks that the
  reorg removed stay in the outstanding batch, and the commands and the queue of the submitter stay as they are.
\<close>

theorem reorg_between_polls_is_missed:
  assumes "number (block_header reorged) < head_block (d_l2 d)" and "head_block (d_l2 d) \<le> number (block_header newer)"
    and "to_skip stream = 0"
    and "poll_blocks (on_new_header (Inr (Some newer)) (on_new_header (Inr (Some reorged)) stream)) = (item, stream')"
  shows "item = Some newer \<and> stream_content stream' = [] \<and>
    (\<forall>d'. on_l2_block env newer d = Done d' \<longrightarrow>
       d_outstanding d' = d_outstanding d \<and> d_handle d' = d_handle d)"
proof -
  have "item = Some newer \<and> stream_content stream' = []"
    using assms(3,4) by (auto simp: on_new_header_def poll_blocks_def stream_content_def)
  moreover have "d_outstanding d' = d_outstanding d \<and> d_handle d' = d_handle d"
    if "on_l2_block env newer d = Done d'" for d'
    using that assms(2) by (auto simp: on_l2_block_def Let_def not_less split: if_splits sum.splits)
  ultimately show ?thesis by blast
qed

section \<open>An example run\<close>

text \<open>The third block fills the batch, which is submitted, queued and started.\<close>

definition example_fourth :: builder_response where
  "example_fourth = \<lparr>resp_preconfirmed_block = example_block 4 1003 7 10, resp_anchor = example_header 5 1010\<rparr>"

definition example_system :: "(unit, unit) system" where
  "example_system =
     \<lparr>sys_driver = example_driver\<lparr>d_builder := in_flight_new\<lparr>fl_channel := [example_fourth]\<rparr>\<rparr>,
      sys_actor = processor_new example_config\<rparr>"

definition example_request :: "batch \<times> u64" where
  "example_request = (example_batch, inclusion_window_end (lookahead_new example_config))"

definition example_trace :: "(unit, unit, unit) system_event list" where
  "example_trace =
     [Handled example_env Block_Produced [example_block 4 1003 7 10], Polled None 1 None, Polled None 0 (Some example_request)]"

lemma example_full:
  "add_block_and_reset_if_full id example_batch (example_block 4 1003 7 10) h =
     (example_batch\<lparr>blocks := [example_block 4 1003 7 10], anchor_block := h\<rparr>, Full Capacity example_batch)"
  by (simp add: add_block_and_reset_if_full_def retain_blocks_before_def doesnt_fit_def take_and_reset_def example_defs
      raw_size_def block_raw_size_def eip2718_encoded_length_def)

lemma example_system_ok: "system_ok example_config example_system"
proof -
  have "batch_ok example_batch" by (simp add: batch_ok_def example_defs)
  then show ?thesis
    by (simp add: system_ok_def example_system_def driver_ok_def cmds_ok_def queue_ok_def processor_new_def
        cfg_batch_settings_def example_config_def MAX_BUFFERED_BATCHES_def)
qed

lemma example_blocks_added:
  "blocks_added example_env (Block_Produced :: unit driver_event) (sys_driver example_system) = [example_block 4 1003 7 10]"
  by (simp add: blocks_added_def example_system_def into_block_with_anchor_def example_fourth_def gap_blocks_def
      blocks_range_def example_defs sat_add_def sat_sub_def)

lemma example_system_run:
  "\<exists>t. runs (limited smooth system_moves) example_system example_trace t \<and>
     in_pipe t = [example_block 4 1003 7 10]"
proof -
  let ?b = "example_block 4 1003 7 10" and ?dl = "inclusion_window_end (lookahead_new example_config)"
  have gap: "gap_blocks example_env ?b (example_driver\<lparr>d_builder := f\<rparr>) = []" for f
    by (simp add: gap_blocks_def blocks_range_def example_defs sat_add_def sat_sub_def)
  obtain f where handle: "handle_event example_env (Block_Produced :: unit driver_event) (sys_driver example_system) =
      Done (example_driver\<lparr>d_builder := f, d_handle := [Submit example_batch ?dl],
        d_outstanding := example_batch\<lparr>blocks := [?b], anchor_block := example_header 5 1010\<rparr>\<rparr>)"
  proof
    show "handle_event example_env (Block_Produced :: unit driver_event) (sys_driver example_system) =
      Done (example_driver\<lparr>d_builder := in_flight_new\<lparr>fl_state := drop_response (fl_state in_flight_new), fl_channel := []\<rparr>,
        d_handle := [Submit example_batch ?dl],
        d_outstanding := example_batch\<lparr>blocks := [?b], anchor_block := example_header 5 1010\<rparr>\<rparr>)"
      by (simp add: handle_event_def example_system_def into_block_with_anchor_def example_fourth_def on_produced_block_def
          gap example_full Let_def can_propose_def submit_def trigger_batch_submission_def send_cmd_def MAX_BUFFERED_BATCHES_def)
         (simp add: example_batch_def)
  qed
  let ?d = "example_driver\<lparr>d_builder := f, d_handle := [Submit example_batch ?dl],
        d_outstanding := example_batch\<lparr>blocks := [?b], anchor_block := example_header 5 1010\<rparr>\<rparr>"
  let ?p = "processor_new example_config :: (unit, unit) processor"
  let ?s1 = "example_system\<lparr>sys_driver := ?d\<rparr>"
  let ?s2 = "\<lparr>sys_driver = ?d\<lparr>d_handle := []\<rparr>, sys_actor = ?p\<lparr>request_queue := [example_request]\<rparr>\<rparr>"
  let ?s3 = "\<lparr>sys_driver = ?d\<lparr>d_handle := []\<rparr>, sys_actor = ?p\<lparr>pending_proposal := Some example_request\<rparr>\<rparr>"
  have 1: "limited smooth system_moves example_system (Handled example_env (Block_Produced :: unit driver_event) [?b]) ?s1"
    using system_moves.handled [of example_env "Block_Produced :: unit driver_event" example_system ?d] handle example_blocks_added
    by (simp add: limited_def asks_for_size_def is_batch_error_def smooth_event_def env_ok_def can_propose_def example_system_def)
  have "poll_round ?p None [Submit example_batch ?dl] =
      Some \<lparr>after_round = ?p\<lparr>request_queue := [example_request]\<rparr>, started = None, answers = [], progress = True\<rparr>"
    by (simp add: poll_round_def poll_proposal_def start_proposal_def processor_new_def on_cmd_def
        handle_batch_submission_request_def example_request_def)
  then have 2: "limited smooth system_moves ?s1 (Polled None 1 None :: (unit, unit, unit) system_event) ?s2"
    using system_moves.polled [of ?s1 None 1] by (simp add: limited_def smooth_result_def example_system_def)
  have "poll_round (?p\<lparr>request_queue := [example_request]\<rparr>) None [] =
      Some \<lparr>after_round = ?p\<lparr>pending_proposal := Some example_request\<rparr>, started = Some example_request, answers = [], progress = True\<rparr>"
    by (simp add: poll_round_def poll_proposal_def start_proposal_def processor_new_def)
  then have 3: "limited smooth system_moves ?s2 (Polled None 0 (Some example_request) :: (unit, unit, unit) system_event) ?s3"
    using system_moves.polled [of ?s2 None 0] by (simp add: limited_def smooth_result_def)
  have "runs (limited smooth system_moves) example_system example_trace ?s3"
    unfolding example_trace_def by (rule runs_Cons [OF 1 runs_Cons [OF 2 runs_single [of "limited smooth system_moves" _ _ ?s3, OF 3]]])
  moreover have "in_pipe ?s3 = [?b]" by (simp add: in_pipe_def processor_new_def)
  ultimately show ?thesis by blast
qed

lemma runs_unlimited: "runs (limited allowed step) s es t \<Longrightarrow> runs step s es t"
  by (erule runs_mono) (simp add: limited_def)

lemma example_trace_labels: "\<forall>e \<in> set example_trace. label_real e"
  by (simp add: example_trace_def downloads_real_def)

theorem posted_batches_are_well_formed_witness:
  "\<exists>t. runs system_moves example_system example_trace t \<and>
     (\<exists>e \<in> set example_trace. posted_by e = Some example_request) \<and> blocks (fst example_request) \<noteq> []"
proof -
  obtain t where "runs (limited smooth system_moves) example_system example_trace t"
    using example_system_run by blast
  then have run: "runs system_moves example_system example_trace t" by (rule runs_unlimited)
  have posted: "\<exists>e \<in> set example_trace. posted_by e = Some example_request" by (simp add: example_trace_def)
  then have "blocks (fst example_request) \<noteq> []"
    using posted_batches_are_well_formed [OF run example_system_ok example_trace_labels] by (metis prod.collapse)
  then show ?thesis using run posted by blast
qed

theorem produced_blocks_reach_l1_in_order_witness:
  "\<exists>t. runs system_moves example_system example_trace t \<and>
     concat (map posted_blocks example_trace) @ in_pipe t =
       [example_block 2 1001 7 10, example_block 3 1002 7 10, example_block 4 1003 7 10]"
proof -
  obtain t where run: "runs (limited smooth system_moves) example_system example_trace t"
    using example_system_run by blast
  have "in_pipe example_system @ concat (map added_by example_trace) =
      [example_block 2 1001 7 10, example_block 3 1002 7 10, example_block 4 1003 7 10]"
    by (simp add: in_pipe_def example_system_def processor_new_def example_trace_def) (simp add: example_defs)
  moreover have "increasing [example_block 2 1001 7 10, example_block 3 1002 7 10, example_block 4 1003 7 10]"
    by (simp add: example_block_def)
  moreover have "ClearQueue \<notin> set (d_handle (sys_driver example_system))" by (simp add: example_system_def)
  ultimately show ?thesis
    using produced_blocks_reach_l1_in_order [OF run example_system_ok] runs_unlimited [OF run] by auto
qed

lemma example_window: "is_last_block_in_sequencing_window (lookahead_new example_config) 2000 = Some False"
proof -
  have "window_end (sequencing_window (lookahead_new example_config)) = 0"
    by (simp add: lookahead_new_def with_offset_def window_end_def WINDOW_SIZE_def numeral_eq_Suc)
  then show ?thesis
    by (simp add: is_last_block_in_sequencing_window_def lookahead_new_def example_slot sat_sub_def)
qed

lemma example_asking_tick:
  "\<exists>d. on_l2_slot_tick (example_env\<lparr>de_max_size := m\<rparr>) 2000 example_driver = Done d"
proof -
  have "\<exists>payload. build_payload example_config example_env_builder (with_max_size m (with_is_last False
      (with_force_empty True (build_request_new 2000 (example_header 4 1000))))) = Ok (Some payload)"
    by (simp add: build_payload_def example_env_builder_def get_next_block_base_fee_def get_base_fee_v2_def Let_def
       with_max_size_def with_is_last_def with_force_empty_def build_request_new_def)
  then obtain payload where payload: "build_payload example_config example_env_builder (with_max_size m
      (with_is_last False (with_force_empty True (build_request_new 2000 (example_header 4 1000))))) = Ok (Some payload)"
    by blast
  have "number (example_header 4 1000) = 4" by (simp add: example_header_def)
  then show ?thesis
    by (simp add: on_l2_slot_tick_def in_flight_new_def builder_state_new_def is_finalizing_def can_sequence_def example_window
        get_suggested_max_size_def send_cmd_def MAX_BUFFERED_BATCHES_def payload)
qed

theorem asked_size_is_throttled_witness:
  "\<exists>t. system_moves \<lparr>sys_driver = example_driver, sys_actor = example_pending\<rparr>
     (Size_Asked (example_env\<lparr>de_max_size := 126976 - 126976 div 12\<rparr>) 2000 None None ::
       (unit, unit, unit) system_event) t \<and>
     unat (126976 - 126976 div 12 :: u64) =
       ((\<lambda>x. x - x div 12) ^^ length (request_queue (sys_actor t))) (126976 :: nat)"
proof -
  let ?m = "126976 - 126976 div 12 :: u64"
  let ?env = "example_env\<lparr>de_max_size := ?m\<rparr>" and ?p = "example_pending"
  let ?s = "\<lparr>sys_driver = example_driver, sys_actor = ?p\<rparr>"
  obtain d where d: "on_l2_slot_tick ?env 2000 example_driver = Done d" using example_asking_tick by blast
  have "number (example_header 4 1000) = 4" by (simp add: example_header_def)
  then have asks: "asks_for_size ?env (L2_Slot_Tick 2000 :: unit driver_event) (sys_driver ?s)"
    by (simp add: asks_for_size_def can_sequence_def example_window in_flight_new_def builder_state_new_def is_finalizing_def)
  have sizes: "max_block_size ?p = 126976" "throttling_factor ?p = 12"
    by (simp_all add: example_pending_def processor_new_def example_config_def default_preconf_opts_def)
  have poll: "poll_round ?p None [GetSuggestedMaxSize True] =
      Some \<lparr>after_round = ?p, started = None, answers = [?m], progress = True\<rparr>"
    by (simp add: poll_round_def poll_proposal_def start_proposal_def on_cmd_def example_pending_def processor_new_def
        example_config_def default_preconf_opts_def calc_max_next_block_size_def DA_THROTTLE_THRESHOLD_def
        checked_div_def sat_sub_def)
  have cmds: "get_suggested_max_size (d_handle (sys_driver ?s)) = Some [GetSuggestedMaxSize True]"
    by (simp add: get_suggested_max_size_def send_cmd_def MAX_BUFFERED_BATCHES_def)
  from system_moves.size_asked [OF asks cmds, of None] poll d obtain t where
    t: "system_moves ?s (Size_Asked ?env 2000 None None :: (unit, unit, unit) system_event) t"
    by fastforce
  show ?thesis
    using t conjunct1 [OF asked_size_is_throttled [OF t]] by (intro exI conjI) (simp_all add: sizes)
qed

definition example_l2_block :: "u64 \<Rightarrow> rpc_block" where
  "example_l2_block n = \<lparr>block_header = example_header n 1000, transactions = Hashes_Only []\<rparr>"

theorem reorg_between_polls_is_missed_witness:
  "fst (poll_blocks (on_new_header (Inr (Some (example_l2_block 5)) :: unit + rpc_block option)
      (on_new_header (Inr (Some (example_l2_block 2)) :: unit + rpc_block option)
        \<lparr>newest = example_l2_block 4, unseen = False, to_skip = 0\<rparr>))) = Some (example_l2_block 5)"
proof -
  let ?s = "\<lparr>newest = example_l2_block 4, unseen = False, to_skip = 0\<rparr>"
  let ?p = "poll_blocks (on_new_header (Inr (Some (example_l2_block 5)) :: unit + rpc_block option)
      (on_new_header (Inr (Some (example_l2_block 2)) :: unit + rpc_block option) ?s))"
  have "fst ?p = Some (example_l2_block 5) \<and> stream_content (snd ?p) = [] \<and>
    (\<forall>d'. on_l2_block example_env (example_l2_block 5) (example_driver\<lparr>d_l2 := \<lparr>head_block = 4, head_l1_origin = 1\<rparr>\<rparr>) = Done d' \<longrightarrow>
       d_outstanding d' = d_outstanding (example_driver\<lparr>d_l2 := \<lparr>head_block = 4, head_l1_origin = 1\<rparr>\<rparr>) \<and>
       d_handle d' = d_handle (example_driver\<lparr>d_l2 := \<lparr>head_block = 4, head_l1_origin = 1\<rparr>\<rparr>))"
    by (rule reorg_between_polls_is_missed [of "example_l2_block 2" _ _ ?s])
       (simp_all add: example_l2_block_def example_header_def)
  then show ?thesis by blast
qed

end
