(* ===== verification/Submission_Live.thy ===== *)
theory Submission_Live
  imports Submission
begin

text \<open>
  The batch submitter makes progress: as long as no proposal fails, every batch in its queue is started, in order,
  and when as many proposals have ended as there are batches, nothing is left. Rounds in which the pending proposal
  is not ready, and the driver taking results, may come in between in any way.
\<close>

text \<open>A step that brings no command and no failure, and a round that finds its proposal ready.\<close>

fun calm :: "('b, 'r) event \<Rightarrow> bool" where
  "calm (Round ready cmds start) = (cmds = [] \<and> smooth_result ready)"
| "calm Result_Taken = True"

fun result_ready :: "('b, 'r) event \<Rightarrow> bool" where
  "result_ready (Round ready cmds start) = (ready \<noteq> None)"
| "result_ready Result_Taken = False"

definition proposals_left :: "('b, 'r) processor \<Rightarrow> nat" where
  "proposals_left p =
     length (request_queue p) + (if pending_proposal p = None \<and> request_queue p = [] then 0 else 1)"

lemma poll_proposal_pending:
  "poll_proposal p ready = Some (p', fin) \<Longrightarrow>
     pending_proposal p' = (if ready = None then pending_proposal p else None)"
  by (auto simp: poll_proposal_def on_proposal_def split: option.splits sum.splits if_splits dest: send_result_sel)

lemma start_proposal_left:
  "start_proposal p = (p', s) \<Longrightarrow>
     proposals_left p' = length (request_queue p) + (if pending_proposal p = None then 0 else 1)"
  by (auto simp: start_proposal_def proposals_left_def split: option.splits list.splits)

lemma calm_round:
  assumes "poll_round p ready [] = Some r" and "smooth_result ready"
  shows "event_started (Round ready [] (started r)) @ request_queue (after_round r) = request_queue p"
    and "proposals_left (after_round r) \<le> proposals_left p"
    and "ready \<noteq> None \<Longrightarrow> proposals_left p \<noteq> 0 \<Longrightarrow> proposals_left (after_round r) < proposals_left p"
proof -
  obtain p1 fin p2 as where parts: "poll_proposal p ready = Some (p1, fin)" "start_proposal p1 = (p2, started r)"
    "on_cmds p2 [] = Some (after_round r, as)"
    by (rule poll_round_cases [OF assms(1)])
  then have after: "after_round r = p2" by simp
  note first = poll_proposal_smooth [OF parts(1) assms(2)] poll_proposal_pending [OF parts(1)]
  show "event_started (Round ready [] (started r)) @ request_queue (after_round r) = request_queue p"
    using start_proposal_queue [OF parts(2)] first(1) after by simp
  show "proposals_left (after_round r) \<le> proposals_left p"
    "ready \<noteq> None \<Longrightarrow> proposals_left p \<noteq> 0 \<Longrightarrow> proposals_left (after_round r) < proposals_left p"
    using start_proposal_left [OF parts(2)] first by (auto simp: after proposals_left_def split: if_splits)
qed

abbreviation calm_step :: "('b, 'r) processor \<Rightarrow> ('b, 'r) event \<Rightarrow> ('b, 'r) processor \<Rightarrow> bool" where
  "calm_step \<equiv> limited (\<lambda>_. calm) proc_step"

lemma calm_step_cases:
  assumes "calm_step p e q"
  obtains (round) ready r where "e = Round ready [] (started r)" "q = after_round r" "poll_round p ready [] = Some r"
      "smooth_result ready"
    | (taken) xs where "e = Result_Taken" "q = p\<lparr>result_channel := xs\<rparr>"
  using assms by (cases e) (auto simp: limited_def elim!: proc_step.cases)

interpretation calm_queue: lossless_fifo
  "calm_step :: ('b, 'r) processor \<Rightarrow> ('b, 'r) event \<Rightarrow> ('b, 'r) processor \<Rightarrow> bool" "\<lambda>_. True" request_queue "\<lambda>_. []"
  event_started
proof
  fix p q :: "('b, 'r) processor" and e :: "('b, 'r) event"
  assume "calm_step p e q"
  then show "event_started e @ request_queue q = request_queue p @ []"
    by (cases rule: calm_step_cases) (simp_all only: calm_round(1) append_Nil2, simp)
qed simp

interpretation calm_work: draining
  "calm_step :: ('b, 'r) processor \<Rightarrow> ('b, 'r) event \<Rightarrow> ('b, 'r) processor \<Rightarrow> bool" "\<lambda>_. True" proposals_left result_ready
proof
  fix p q :: "('b, 'r) processor" and e :: "('b, 'r) event"
  assume step: "calm_step p e q"
  from step show "proposals_left q \<le> proposals_left p"
    by (cases rule: calm_step_cases) (simp_all only: calm_round(2), simp add: proposals_left_def)
  assume "result_ready e" "proposals_left p \<noteq> 0"
  with step show "proposals_left q < proposals_left p"
    by (cases rule: calm_step_cases) (simp_all only: calm_round(3) result_ready.simps not_False_eq_True)
qed

section \<open>Property\<close>

text \<open>
  Every batch in the queue of the submitter is posted: in a run without new commands and failures, once a result
  has been ready as often as there are batches to post or being posted, the queue is empty, nothing is pending, and
  exactly the batches of the queue have been started, in order.
\<close>

theorem queued_batches_are_posted:
  assumes "runs calm_step p es q" and "length (request_queue p) < length (filter result_ready es)"
  shows "request_queue q = [] \<and> pending_proposal q = None \<and> run_started es = request_queue p"
proof -
  have "proposals_left q \<le> proposals_left p - length (filter result_ready es)"
    by (rule calm_work.run_drains [OF assms(1) TrueI])
  then have "proposals_left q = 0" using assms(2) by (simp add: proposals_left_def split: if_splits)
  then show ?thesis
    using calm_queue.run_conserves [OF assms(1) TrueI] by (simp add: proposals_left_def run_started_def split: if_splits)
qed

definition example_queue :: "(unit, unit) processor" where
  "example_queue = (processor_new example_config)\<lparr>request_queue := [(example_batch, 10)]\<rparr>"

definition example_calm :: "(unit, unit) event list" where
  "example_calm = [Round (Some (Inr ())) [] (Some (example_batch, 10)), Round None [] None, Round (Some (Inr ())) [] None]"

lemma example_calm_run: "\<exists>q. runs calm_step example_queue example_calm q"
proof -
  let ?p1 = "(processor_new example_config)\<lparr>pending_proposal := Some (example_batch, 10)\<rparr> :: (unit, unit) processor"
  let ?p2 = "(processor_new example_config)\<lparr>result_channel := [Inr ()]\<rparr> :: (unit, unit) processor"
  have "poll_round example_queue (Some (Inr ())) [] =
      Some \<lparr>after_round = ?p1, started = Some (example_batch, 10), answers = [], progress = True\<rparr>"
    "poll_round ?p1 None [] = Some \<lparr>after_round = ?p1, started = None, answers = [], progress = False\<rparr>"
    "poll_round ?p1 (Some (Inr ())) [] = Some \<lparr>after_round = ?p2, started = None, answers = [], progress = True\<rparr>"
    by (simp_all add: example_queue_def processor_new_def poll_round_def poll_proposal_def start_proposal_def on_proposal_def
        send_result_def MAX_BUFFERED_BATCHES_def)
  from this [THEN proc_step.round] have "runs calm_step example_queue example_calm ?p2"
    unfolding example_calm_def by (intro runs_Cons runs_single) (simp_all add: limited_def smooth_result_def)
  then show ?thesis ..
qed

theorem queued_batches_are_posted_witness:
  "\<exists>q. runs calm_step example_queue example_calm q \<and> request_queue q = [] \<and> run_started example_calm = [(example_batch, 10)]"
proof -
  obtain q where run: "runs calm_step example_queue example_calm q" using example_calm_run ..
  have "length (request_queue example_queue) < length (filter result_ready example_calm)"
    by (simp add: example_queue_def example_calm_def)
  from queued_batches_are_posted [OF run this] run show ?thesis by (auto simp: example_queue_def)
qed

end
