(* ===== verification/System_Live.thy ===== *)
theory System_Live
  imports System_Order Submission_Live
begin

text \<open>
  The composed system makes progress: what the driver has handed over is posted. In \<open>System_Order\<close> a run without
  failures loses no block between the block builder and L1; here every batch of the command channel and of the queue
  of the actor is indeed posted, once the actor has been polled often enough with its pending proposal ended, whatever
  else the driver sends meanwhile, as long as L2 does not reorg and no proposal fails.
\<close>

section \<open>What a handler sends\<close>

text \<open>A handler only appends to the channel, and unless L2 reorgs it never sends the command that clears the queue.\<close>

definition appends :: "driver \<Rightarrow> driver \<Rightarrow> bool" where
  "appends d d' = (\<exists>cmds. d_handle d' = d_handle d @ cmds \<and> ClearQueue \<notin> set cmds)"

named_theorems append_rules \<open>the handlers append to the channel\<close>

lemma appends_same: "d_handle d' = d_handle d \<Longrightarrow> appends d d'"
  by (simp add: appends_def)

lemma appends_refl [simp]: "appends d d"
  by (simp add: appends_same)

lemma appends_trans: "appends d d1 \<Longrightarrow> appends d1 d2 \<Longrightarrow> appends d d2"
  unfolding appends_def by (metis Un_iff append.assoc set_append)

lemma appends_update [simp]:
  "appends d (d'\<lparr>d_l1 := l1\<rparr>) = appends d d'"
  "appends d (d'\<lparr>d_l2 := l2\<rparr>) = appends d d'"
  "appends d (d'\<lparr>d_status := st\<rparr>) = appends d d'"
  "appends d (d'\<lparr>d_builder := f\<rparr>) = appends d d'"
  "appends d (d'\<lparr>d_lookahead := la\<rparr>) = appends d d'"
  "appends d (d'\<lparr>d_outstanding := b\<rparr>) = appends d d'"
  by (simp_all add: appends_def)

lemma appends_status [simp]: "appends d (update_status st d') = appends d d'"
  by (simp add: update_status_def)

lemma appends_origin [simp]: "appends d (fst (update_head_l1_origin env d')) = appends d d'"
  by (simp add: update_head_l1_origin_def split: sum.split)

lemma appends_anchor [simp]: "appends d (update_outstanding_batch_anchor_if_needed d') = appends d d'"
  by (simp add: update_outstanding_batch_anchor_if_needed_def)

lemma appends_sync_lookahead [append_rules]:
  "appends d0 d \<Longrightarrow> when_done (appends d0) (sync_lookahead slot current next time inst d)"
  by (auto simp: sync_lookahead_def split: prod.split intro: when_done_expect_then)

lemma appends_await_idle [append_rules]: "appends d0 d \<Longrightarrow> when_done (appends d0) (await_idle bg d)"
  by (cases "await_changed bg (d_builder d)") (simp_all add: await_idle_def)

lemma appends_submit [append_rules]:
  assumes "appends d0 d"
  shows "when_done (appends d0) (submit b deadline d)"
proof (cases "submit b deadline d")
  case (Done d')
  then have "appends d d'"
    by (cases "trigger_batch_submission (d_handle d) b deadline")
       (auto simp: submit_def appends_def trigger_batch_submission_def send_cmd_def split: if_splits)
  with assms Done show ?thesis by (auto intro: appends_trans)
qed simp_all

lemma appends_submit_local [append_rules]:
  "appends d0 d \<Longrightarrow> when_done (appends d0) (submit_local_outstanding_batch bg deadline d)"
  unfolding submit_local_outstanding_batch_def Let_def
  by (rule when_done_then [OF appends_await_idle]) (auto split: prod.split intro!: appends_submit)

lemma appends_submit_all [append_rules]: "appends d0 d \<Longrightarrow> when_done (appends d0) (submit_all bs d)"
proof (induction bs arbitrary: d)
  case (Cons b bs)
  then show ?case by (auto intro!: when_done_then [OF appends_submit])
qed simp

lemma appends_repost_block:
  "appends d0 d \<Longrightarrow> when_done (\<lambda>(d, r). appends d0 d) (repost_block env reasons fees anchor block d)"
  by (auto simp: repost_block_def Let_def split: sum.split outcome.split option.split)

lemma appends_repost_blocks [append_rules]:
  "appends d0 d \<Longrightarrow> when_done (\<lambda>(d, r). appends d0 d) (repost_blocks env reasons fees bs d)"
proof (induction env reasons fees bs d rule: repost_blocks.induct)
  case (2 env reasons fees anchor block rest d)
  show ?case
    unfolding repost_blocks.simps
    by (rule when_done_then [OF appends_repost_block [OF "2.prems"]]) (auto intro: "2.IH" split: sum.split)
qed simp

lemma appends_sync_loop:
  "appends d0 d \<Longrightarrow> when_done (\<lambda>(d, rest). appends d0 d) (sync_loop env rounds d)"
proof (induction rounds arbitrary: d)
  case (Cons r rounds)
  show ?case
    unfolding sync_loop.simps
    by (rule when_done_then [OF appends_sync_lookahead [OF Cons.prems]], rule when_done_then [OF appends_await_idle], assumption)
       (auto intro: Cons.IH split: outcome.split)
qed simp

lemma appends_sync_and_propose [append_rules]:
  assumes "appends d0 d"
  shows "when_done (appends d0) (sync_and_propose env d)"
  unfolding sync_and_propose_def
proof (rule when_done_then [OF appends_sync_loop [OF assms]])
  fix x :: "driver \<times> sync_result"
  obtain d batches reasons fees where x: "x = (d, batches, reasons, fees)" by (cases x)
  assume "case x of (d, rest) \<Rightarrow> appends d0 d"
  with x have d: "appends d0 d" by simp
  have repost: "when_done (\<lambda>(d, r). appends d0 d)
      (if reasons \<noteq> [] then finalize_all_blocks_from_batches env batches reasons fees d else Done (d, Inr ()))"
    using d by (simp add: finalize_all_blocks_from_batches_def appends_repost_blocks)
  have "when_done (appends d0) (then_h
      (if reasons \<noteq> [] then finalize_all_blocks_from_batches env batches reasons fees d else Done (d, Inr ())) (\<lambda>(d, _).
       let (batches, outstanding) = pop_ob batches d
       in then_h (submit_all batches d) (\<lambda>d. Done (d\<lparr>d_outstanding := outstanding\<rparr>))))"
    by (rule when_done_then [OF repost])
       (auto simp: Let_def split: prod.split intro!: when_done_then [OF appends_submit_all])
  moreover have "when_done (appends d0)
      (let (batches, outstanding) = pop_ob batches d in Done (d\<lparr>d_outstanding := outstanding\<rparr>))"
    using d by (simp add: Let_def split: prod.split)
  ultimately show "when_done (appends d0) (case x of (d, batches, reasons, fees) \<Rightarrow>
     if can_propose (d_status d) then
       then_h (if reasons \<noteq> [] then finalize_all_blocks_from_batches env batches reasons fees d
               else Done (d, Inr ())) (\<lambda>(d, _).
       let (batches, outstanding) = pop_ob batches d
       in then_h (submit_all batches d) (\<lambda>d. Done (d\<lparr>d_outstanding := outstanding\<rparr>)))
     else
       let (batches, outstanding) = pop_ob batches d
       in Done (d\<lparr>d_outstanding := outstanding\<rparr>))"
    unfolding x prod.case by simp
qed

lemma appends_update_l1_info [append_rules]:
  assumes "appends d0 d"
  shows "when_done (\<lambda>(d, r). appends d0 d) (update_l1_info env l1_header d)"
proof -
  have origin: "appends d0 d'" if "update_head_l1_origin env (d\<lparr>d_l1 := l1\<rparr>) = (d', r)" for l1 d' r
    using appends_origin [of d0 env "d\<lparr>d_l1 := l1\<rparr>"] that assms by simp
  have rest: "when_done (\<lambda>(d, r). appends d0 d)
      (then_h (sync_lookahead slot current next time inst d) (\<lambda>d. Done (d, r)))"
    if "appends d0 d" for slot current "next" time inst d and r :: "driver_error + u64"
    by (rule when_done_then [OF appends_sync_lookahead [OF that]]) simp
  show ?thesis
    unfolding update_l1_info_def Let_def
    by (rule when_done_expect_then) (auto simp: assms split: prod.split sum.split intro!: rest dest: origin)
qed

lemma appends_on_l1_slot_tick [append_rules]: "when_done (appends d) (on_l1_slot_tick env time d)"
proof -
  have 1: "when_done (appends d) (propose_before_age_limit env slots_left d1)" if "appends d d1" for slots_left d1
    using that by (auto simp: propose_before_age_limit_def intro!: when_done_expect_then appends_submit_local)
  have 2: "when_done (appends d) (new_window_or_status env slot d1)" if "appends d d1" for slot d1
    using that by (auto simp: new_window_or_status_def intro!: when_done_expect_then appends_sync_and_propose)
  have 3: "when_done (appends d) (propose_in_handover env d1)" if "appends d d1" for d1
    using that by (simp add: propose_in_handover_def appends_submit_local)
  show ?thesis
    unfolding on_l1_slot_tick_def Let_def
    by (rule when_done_expect_then, rule when_done_then [OF 1], simp,
        rule when_done_then [OF 2], assumption, rule when_done_then [OF 3], assumption, simp)
qed

lemma appends_add_blocks [append_rules]:
  "appends d0 d \<Longrightarrow> when_done (appends d0) (add_blocks est i anchor bs d)"
proof (induction est i anchor bs d rule: add_blocks.induct)
  case (2 est i anchor block rest d)
  obtain ob r where add: "add_block_and_reset_if_full (est i) (d_outstanding d) block anchor = (ob, r)"
    by (cases "add_block_and_reset_if_full (est i) (d_outstanding d) block anchor")
  show ?case
  proof (cases r)
    case Added
    then show ?thesis using "2.IH"(1) [OF add [symmetric] Added] "2.prems" add by simp
  next
    case (Full reason full_batch)
    show ?thesis
      using "2.IH"(2) [OF add [symmetric] Full refl refl] "2.prems"
      by (auto simp: add Full Let_def intro!: when_done_then [where Q = "appends d0"] appends_submit)
  qed
qed simp

lemma appends_on_l1_block [append_rules]: "when_done (appends d) (on_l1_block env l1_header d)"
  unfolding on_l1_block_def by (rule when_done_then [OF appends_update_l1_info]) (auto split: sum.split)

lemma appends_on_l2_block [append_rules]:
  assumes "head_block (d_l2 d) \<le> number (block_header b)"
  shows "when_done (appends d) (on_l2_block env b d)"
  using assms by (auto simp: on_l2_block_def Let_def not_less split: sum.split)

lemma appends_on_l2_slot_tick [append_rules]: "when_done (appends d) (on_l2_slot_tick env time d)"
  by (cases "on_l2_slot_tick env time d") (auto dest: l2_tick_keeps_batches intro: appends_same)

text \<open>An event other than a reorg of L2.\<close>

definition no_reorg :: "'b driver_event \<Rightarrow> driver \<Rightarrow> bool" where
  "no_reorg event d = (case event of New_L2_Block b \<Rightarrow> head_block (d_l2 d) \<le> number (block_header b) | _ \<Rightarrow> True)"

lemma handler_appends:
  assumes "no_reorg event d"
  shows "when_done (appends d) (handle_event env (event :: 'b driver_event) d)"
proof (cases event)
  case Block_Produced
  have "when_done (appends d) (on_produced_block env block anchor (d\<lparr>d_builder := f\<rparr>))" for block anchor f
    unfolding on_produced_block_def by (rule appends_add_blocks) simp
  with Block_Produced show ?thesis
    by (auto simp: handle_event_def split: list.split prod.split)
qed (use assms in \<open>simp_all add: handle_event_def no_reorg_def on_operator_changed_def on_batch_proposal_err_def
    on_taiko_preconf_event_def append_rules\<close>)

section \<open>What a poll does with the queue\<close>

lemma submitted_in_append: "submitted_in (cs @ cs') = submitted_in cs @ submitted_in cs'"
  by (simp add: submitted_in_def)

lemma on_cmd_extends:
  "on_cmd p c = Some (p', a) \<Longrightarrow> c \<noteq> ClearQueue \<Longrightarrow> prefix (request_queue p) (request_queue p')"
  by (cases c) (auto simp: on_cmd_def handle_batch_submission_request_def Let_def split: option.splits if_splits)

lemma on_cmds_extend:
  "on_cmds p cmds = Some (p', as) \<Longrightarrow> ClearQueue \<notin> set cmds \<Longrightarrow> prefix (request_queue p) (request_queue p')"
proof (induction cmds arbitrary: p as)
  case (Cons c cmds)
  from Cons.prems(1) obtain p1 a as1 where c: "on_cmd p c = Some (p1, a)" "on_cmds p1 cmds = Some (p', as1)"
    by (rule on_cmds_Cons)
  have "prefix (request_queue p) (request_queue p1)" using on_cmd_extends [OF c(1)] Cons.prems(2) by auto
  also have "prefix \<dots> (request_queue p')" using Cons.IH [OF c(2)] Cons.prems(2) by simp
  finally show ?case .
qed simp

text \<open>The first batches of the commands, as far as they are above the queue and each other, are queued behind it.\<close>

lemma on_cmds_queue_first:
  "on_cmds p cmds = Some (p', as) \<Longrightarrow> cmds_ok cmds \<Longrightarrow> ClearQueue \<notin> set cmds \<Longrightarrow>
   \<forall>req \<in> set (request_queue p). request_ok req \<Longrightarrow> prefix reqs (submitted_in cmds) \<Longrightarrow>
   increasing (request_blocks (request_queue p @ reqs)) \<Longrightarrow> prefix (request_queue p @ reqs) (request_queue p')"
proof (induction cmds arbitrary: p as reqs)
  case Nil
  then show ?case by (simp add: submitted_in_def)
next
  case (Cons c cmds)
  from Cons.prems(1) obtain p1 a as1 where c: "on_cmd p c = Some (p1, a)" and cs: "on_cmds p1 cmds = Some (p', as1)"
    by (rule on_cmds_Cons)
  have ok: "cmds_ok cmds" "ClearQueue \<notin> set cmds" using Cons.prems(2,3) by (simp_all add: cmds_ok_def)
  show ?case
  proof (cases reqs)
    case Nil
    then show ?thesis using on_cmds_extend [OF Cons.prems(1,3)] by simp
  next
    case first: (Cons req reqs')
    show ?thesis
    proof (cases c)
      case (Submit b deadline)
      then have req: "req = (b, deadline)" "prefix reqs' (submitted_in cmds)"
        using Cons.prems(5) first by (simp_all add: submitted_in_def)
      have b: "batch_ok b" "blocks b \<noteq> []" using Cons.prems(2) Submit by (simp_all add: cmds_ok_def)
      have "increasing (request_blocks (request_queue p) @ blocks b)"
        using Cons.prems(6) first req(1) by (auto simp: increasing_append)
      with b(2) Cons.prems(4) have queued: "handle_batch_submission_request p b deadline = p\<lparr>request_queue := request_queue p @ [(b, deadline)]\<rparr>"
        by (intro request_in_order_is_queued)
      then have p1: "request_queue p1 = request_queue p @ [req]" using c Submit req(1) by (auto simp: on_cmd_def queued)
      have "prefix (request_queue p1 @ reqs') (request_queue p')"
        by (rule Cons.IH [OF cs ok _ req(2)]) (use p1 Cons.prems(4,6) first b req(1) in \<open>auto simp: request_ok_def\<close>)
      then show ?thesis by (simp add: p1 first)
    next
      case ClearQueue
      then show ?thesis using Cons.prems(3) by simp
    next
      case (GetSuggestedMaxSize w)
      then have "request_queue p1 = request_queue p" "prefix reqs (submitted_in cmds)"
        using c Cons.prems(5) by (auto simp: on_cmd_def submitted_in_def split: option.splits if_splits)
      then show ?thesis using Cons.IH [OF cs ok] Cons.prems(4,6) by simp
    qed
  qed
qed

text \<open>A round that finds its proposal ready starts the first batch of the queue.\<close>

lemma round_serves:
  assumes "poll_round p ready cmds = Some r" and "ready \<noteq> None" and "smooth_result ready" and "request_queue p \<noteq> []"
  shows "started r \<noteq> None"
proof -
  from assms(1) obtain p1 fin p2 as where parts: "poll_proposal p ready = Some (p1, fin)"
    "start_proposal p1 = (p2, started r)" "on_cmds p2 cmds = Some (after_round r, as)"
    by (rule poll_round_cases)
  have "pending_proposal p1 = None" "request_queue p1 = request_queue p"
    using poll_proposal_pending [OF parts(1)] poll_proposal_smooth [OF parts(1) assms(3)] assms(2) by simp_all
  then show ?thesis using parts(2) assms(4) by (cases "started r") (auto simp: start_proposal_def split: list.splits)
qed

lemma round_queue:
  assumes "poll_round p ready cmds = Some r" and "smooth_result ready" and "cmds_ok cmds" and "ClearQueue \<notin> set cmds"
    and "\<forall>req \<in> set (request_queue p). request_ok req"
  shows "prefix (request_queue p) ((case started r of None \<Rightarrow> [] | Some req \<Rightarrow> [req]) @ request_queue (after_round r))"
    and "prefix reqs (submitted_in cmds) \<Longrightarrow> increasing (request_blocks (request_queue p @ reqs)) \<Longrightarrow>
      prefix (request_queue p @ reqs) ((case started r of None \<Rightarrow> [] | Some req \<Rightarrow> [req]) @ request_queue (after_round r))"
proof -
  from assms(1) obtain p1 fin p2 as where parts: "poll_proposal p ready = Some (p1, fin)"
    "start_proposal p1 = (p2, started r)" "on_cmds p2 cmds = Some (after_round r, as)"
    by (rule poll_round_cases)
  let ?first = "case started r of None \<Rightarrow> [] | Some req \<Rightarrow> [req]"
  have q: "request_queue p = ?first @ request_queue p2"
    using start_proposal_queue [OF parts(2)] poll_proposal_smooth [OF parts(1) assms(2)] by simp
  show "prefix (request_queue p) (?first @ request_queue (after_round r))"
    unfolding q using on_cmds_extend [OF parts(3) assms(4)] by simp
  assume "prefix reqs (submitted_in cmds)" "increasing (request_blocks (request_queue p @ reqs))"
  then have "prefix (request_queue p2 @ reqs) (request_queue (after_round r))"
    by (intro on_cmds_queue_first [OF parts(3) assms(3,4)]) (use assms(5) q in \<open>auto simp: increasing_append\<close>)
  then show "prefix (request_queue p @ reqs) (?first @ request_queue (after_round r))"
    unfolding q by simp
qed

section \<open>The queue and the channel\<close>

text \<open>The batches that are submitted and wait, and those that a step starts to post.\<close>

definition waiting_batches :: "('b, 'r) system \<Rightarrow> (batch \<times> u64) list" where
  "waiting_batches s = request_queue (sys_actor s) @ submitted_in (d_handle (sys_driver s))"

definition posted_requests :: "('sig, 'b, 'r) system_event \<Rightarrow> (batch \<times> u64) list" where
  "posted_requests e = (case posted_by e of None \<Rightarrow> [] | Some req \<Rightarrow> [req])"

text \<open>
  The steps of a run in which L2 does not reorg and no proposal fails. A poll of the actor goes on until the
  channel is empty, as its loop does; only the number of commands that come in during the poll is open. It is served
  when the pending proposal has ended.
\<close>

fun steady :: "('b, 'r) system \<Rightarrow> ('sig, 'b, 'r) system_event \<Rightarrow> bool" where
  "steady s (Handled env event bs) = (env_ok env \<and> no_reorg event (sys_driver s))"
| "steady s (Size_Asked env time ready start) = (env_ok env \<and> smooth_result ready)"
| "steady s (Polled ready n start) = (smooth_result ready \<and> length (d_handle (sys_driver s)) \<le> n)"
| "steady s (Result_Read env) = env_ok env"
| "steady s _ = True"

fun served :: "('sig, 'b, 'r) system_event \<Rightarrow> bool" where
  "served (Polled ready n start) = (ready \<noteq> None)"
| "served (Size_Asked env time ready start) = (ready \<noteq> None)"
| "served _ = False"

definition uncleared :: "runtime_config \<Rightarrow> ('b, 'r) system \<Rightarrow> bool" where
  "uncleared cfg s = (system_ok cfg s \<and> ClearQueue \<notin> set (d_handle (sys_driver s)))"

lemma steady_label_ok: "steady s e \<Longrightarrow> label_ok e"
  by (cases e) simp_all

lemma appends_channel:
  assumes "appends d d'" and "ClearQueue \<notin> set (d_handle d)"
  shows "ClearQueue \<notin> set (d_handle d') \<and> prefix (submitted_in (d_handle d)) (submitted_in (d_handle d'))"
  using assms by (auto simp: appends_def submitted_in_append)

text \<open>A step either only adds to the channel, or takes all of it behind the queue.\<close>

definition only_sends :: "('b, 'r) system \<Rightarrow> ('sig, 'b, 'r) system_event \<Rightarrow> ('b, 'r) system \<Rightarrow> bool" where
  "only_sends s e t =
     (\<not> served e \<and> posted_requests e = [] \<and> request_queue (sys_actor t) = request_queue (sys_actor s) \<and>
      prefix (submitted_in (d_handle (sys_driver s))) (submitted_in (d_handle (sys_driver t))))"

definition takes_all :: "('b, 'r) system \<Rightarrow> ('sig, 'b, 'r) system_event \<Rightarrow> ('b, 'r) system \<Rightarrow> bool" where
  "takes_all s e t =
     (prefix (request_queue (sys_actor s)) (posted_requests e @ request_queue (sys_actor t)) \<and>
      (\<forall>reqs. prefix reqs (submitted_in (d_handle (sys_driver s))) \<longrightarrow>
         increasing (request_blocks (request_queue (sys_actor s) @ reqs)) \<longrightarrow>
         prefix (request_queue (sys_actor s) @ reqs) (posted_requests e @ request_queue (sys_actor t))) \<and>
      (served e \<longrightarrow> request_queue (sys_actor s) \<noteq> [] \<longrightarrow> posted_requests e \<noteq> []))"

lemma poll_takes_all:
  assumes "uncleared cfg s" and "poll_round (sys_actor s) ready cmds = Some r" and "smooth_result ready"
    and "cmds = d_handle (sys_driver s) @ extra" and "\<forall>c \<in> set extra. c = GetSuggestedMaxSize True"
    and "posted_by e = started r" and "sys_actor t = after_round r" and "served e \<longrightarrow> ready \<noteq> None"
  shows "takes_all s e t"
proof -
  have extra: "submitted_in extra = [] \<and> cmds_ok extra \<and> ClearQueue \<notin> set extra"
    using assms(5) by (auto simp: submitted_in_def cmds_ok_def)
  then have cmds: "cmds_ok cmds" "ClearQueue \<notin> set cmds" "submitted_in cmds = submitted_in (d_handle (sys_driver s))"
    using assms(1,4) by (auto simp: uncleared_def system_ok_def driver_ok_def cmds_ok_def submitted_in_append)
  have queue: "\<forall>req \<in> set (request_queue (sys_actor s)). request_ok req"
    using assms(1) unfolding uncleared_def system_ok_def by blast
  have "started r \<noteq> None" if "served e" "request_queue (sys_actor s) \<noteq> []"
    using round_serves [OF assms(2) _ assms(3) that(2)] assms(8) that(1) by blast
  then have "served e \<longrightarrow> request_queue (sys_actor s) \<noteq> [] \<longrightarrow> posted_requests e \<noteq> []"
    by (auto simp: posted_requests_def assms(6))
  then show ?thesis
    using round_queue [OF assms(2,3) cmds(1,2) queue]
    unfolding takes_all_def posted_requests_def cmds(3) assms(6,7) by blast
qed

lemma steady_step:
  assumes "uncleared cfg s" and "system_moves s e t" and "steady s e"
  shows "ClearQueue \<notin> set (d_handle (sys_driver t)) \<and> (only_sends s e t \<or> takes_all s e t)"
  using assms(2)
proof (cases rule: system_moves.cases)
  case (handled env event d)
  have "appends (sys_driver s) d"
    using handler_appends [of event "sys_driver s" env] assms(3) handled by simp
  from appends_channel [OF this] show ?thesis
    using assms(1) unfolding handled(1,2) by (simp add: uncleared_def only_sends_def posted_requests_def)
next
  case (size_asked env time cmds ready r d)
  have "cmds = d_handle (sys_driver s) @ [GetSuggestedMaxSize True]"
    using size_asked(4) by (auto simp: get_suggested_max_size_def send_cmd_def split: if_splits)
  then have "takes_all s e t"
    using assms(3) by (intro poll_takes_all [OF assms(1) size_asked(5)]) (auto simp: size_asked(1,2))
  then show ?thesis unfolding size_asked(2) by simp
next
  case (polled ready n r)
  have all: "take n (d_handle (sys_driver s)) = d_handle (sys_driver s) @ []" "drop n (d_handle (sys_driver s)) = []"
    using assms(3) unfolding polled(1) by simp_all
  then have "takes_all s e t"
    using assms(3) by (intro poll_takes_all [OF assms(1) polled(3)]) (auto simp: polled(1,2))
  then show ?thesis unfolding polled(2) using all(2) by simp
next
  case (result_read res results env d)
  have "when_done (appends (sys_driver s)) (on_batch_result env res (sys_driver s))"
    by (simp add: on_batch_result_def handler_appends no_reorg_def split: sum.split)
  then have "appends (sys_driver s) d" using result_read by simp
  from appends_channel [OF this] show ?thesis
    using assms(1) unfolding result_read(1,2) by (simp add: uncleared_def only_sends_def posted_requests_def)
qed (use assms(1) in \<open>simp_all add: uncleared_def only_sends_def posted_requests_def\<close>)

interpretation posting: served_queue
  "limited steady (system_moves :: ('b, 'r) system \<Rightarrow> ('sig, 'b, 'r) system_event \<Rightarrow> ('b, 'r) system \<Rightarrow> bool)"
  "uncleared cfg" "\<lambda>s. request_queue (sys_actor s)" "\<lambda>s. submitted_in (d_handle (sys_driver s))" posted_requests served
  "\<lambda>reqs. increasing (request_blocks reqs)"
proof
  fix s t :: "('b, 'r) system" and e :: "('sig, 'b, 'r) system_event"
  assume s: "uncleared cfg s" and "limited steady system_moves s e t"
  then have step: "system_moves s e t" "steady s e" by (simp_all add: limited_def)
  note c = steady_step [OF s step]
  have "system_ok cfg t"
    using system_moves_ok [OF step(1)] s steady_label_ok [OF step(2)] unfolding uncleared_def by blast
  with c show "uncleared cfg t" unfolding uncleared_def by blast
  from c show "prefix (request_queue (sys_actor s)) (posted_requests e @ request_queue (sys_actor t))"
    by (auto simp: only_sends_def takes_all_def)
  from c show "\<not> served e \<and> posted_requests e = [] \<and> request_queue (sys_actor t) = request_queue (sys_actor s) \<and>
      prefix (submitted_in (d_handle (sys_driver s))) (submitted_in (d_handle (sys_driver t))) \<or>
    (\<forall>reqs. prefix reqs (submitted_in (d_handle (sys_driver s))) \<longrightarrow>
       increasing (request_blocks (request_queue (sys_actor s) @ reqs)) \<longrightarrow>
       prefix (request_queue (sys_actor s) @ reqs) (posted_requests e @ request_queue (sys_actor t)))"
    unfolding only_sends_def takes_all_def by blast
  assume "served e" "request_queue (sys_actor s) \<noteq> []"
  with c show "posted_requests e \<noteq> []" unfolding only_sends_def takes_all_def by blast
qed

section \<open>Property\<close>

text \<open>
  C3. Every batch that the driver has submitted is posted. Unless a proposal fails or an L2 reorg clears the queue,
  whatever the driver does meanwhile (new inclusion windows and changes of the operators with their synchronisations,
  reposted blocks, L1 blocks, results of proposals, batches of its own that overlap): once the actor has been polled
  with its pending proposal ended more often than there are batches waiting at the start, all batches of the queue and
  of the channel have been posted, in the order in which they were submitted and before any other. Their blocks are
  in increasing order at the start, and a poll takes all commands of the channel.
\<close>

theorem submitted_batches_are_posted:
  fixes s :: "('b, 'r) system"
  assumes "runs (limited steady system_moves) s es t" and "system_ok cfg s"
    and "ClearQueue \<notin> set (d_handle (sys_driver s))" and "increasing (request_blocks (waiting_batches s))"
    and "length (waiting_batches s) < length (filter served es)"
  shows "prefix (waiting_batches s) (concat (map posted_requests es))"
proof -
  have "uncleared cfg s" using assms(2,3) by (simp add: uncleared_def)
  from posting.run_given [OF assms(1) this] assms(4,5) show ?thesis unfolding waiting_batches_def by simp
qed

text \<open>The example after its block was produced: a batch waits in the channel, and two polls post it.\<close>

definition example_waiting :: "(unit, unit) system" where
  "example_waiting =
     \<lparr>sys_driver = example_driver\<lparr>d_handle := [Submit example_batch (snd example_request)],
        d_outstanding := example_batch\<lparr>blocks := []\<rparr>\<rparr>,
      sys_actor = processor_new example_config\<rparr>"

definition example_served :: "(unit, unit, unit) system_event list" where
  "example_served = [Polled (Some (Inr ())) 1 None, Polled (Some (Inr ())) 0 (Some example_request)]"

lemma example_waiting_ok:
  "system_ok example_config example_waiting" "waiting_batches example_waiting = [example_request]"
  "in_pipe example_waiting = blocks example_batch"
proof -
  have "batch_ok example_batch" "blocks example_batch \<noteq> []" "batch_ok (example_batch\<lparr>blocks := []\<rparr>)" by (simp_all add: batch_ok_def example_defs)
  then show "system_ok example_config example_waiting"
    by (simp add: system_ok_def example_waiting_def driver_ok_def cmds_ok_def queue_ok_def processor_new_def
        cfg_batch_settings_def example_config_def MAX_BUFFERED_BATCHES_def example_driver_def)
qed (simp_all add: waiting_batches_def example_waiting_def processor_new_def submitted_in_def example_request_def in_pipe_def
  example_driver_def)


lemma example_served_run:
  "\<exists>t. runs (limited steady system_moves) example_waiting example_served t"
proof -
  let ?step = "limited steady system_moves"
  let ?p = "processor_new example_config :: (unit, unit) processor"
  let ?s2 = "example_waiting\<lparr>sys_driver := (sys_driver example_waiting)\<lparr>d_handle := []\<rparr>,
    sys_actor := ?p\<lparr>request_queue := [example_request]\<rparr>\<rparr>"
  let ?s3 = "?s2\<lparr>sys_actor := ?p\<lparr>pending_proposal := Some example_request\<rparr>\<rparr>"
  have "poll_round (sys_actor example_waiting) (Some (Inr ())) (take 1 (d_handle (sys_driver example_waiting))) =
      Some \<lparr>after_round = ?p\<lparr>request_queue := [example_request]\<rparr>, started = None, answers = [], progress = True\<rparr>"
    by (simp add: poll_round_def poll_proposal_def start_proposal_def processor_new_def on_cmd_def example_waiting_def
        handle_batch_submission_request_def example_request_def)
  then have 1: "?step example_waiting (Polled (Some (Inr ())) 1 None :: (unit, unit, unit) system_event) ?s2"
    using system_moves.polled [of example_waiting "Some (Inr ())" 1]
    by (simp add: limited_def smooth_result_def) (simp add: example_waiting_def)
  have "poll_round (sys_actor ?s2) (Some (Inr ())) (take 0 (d_handle (sys_driver ?s2))) =
      Some \<lparr>after_round = ?p\<lparr>pending_proposal := Some example_request\<rparr>, started = Some example_request, answers = [], progress = True\<rparr>"
    by (simp add: poll_round_def poll_proposal_def start_proposal_def processor_new_def)
  then have 2: "?step ?s2 (Polled (Some (Inr ())) 0 (Some example_request) :: (unit, unit, unit) system_event) ?s3"
    using system_moves.polled [of ?s2 "Some (Inr ())" 0] by (simp add: limited_def smooth_result_def)
  show ?thesis
    unfolding example_served_def
    by (rule exI) (rule runs_Cons [of ?step, OF 1 runs_single [of ?step, OF 2]])
qed

theorem submitted_batches_are_posted_witness:
  "prefix (waiting_batches example_waiting) (concat (map posted_requests example_served))"
proof -
  obtain t where run: "runs (limited steady system_moves) example_waiting example_served t"
    using example_served_run by blast
  show ?thesis
    by (rule submitted_batches_are_posted [OF run example_waiting_ok(1)])
       (simp_all add: example_waiting_ok example_served_def, simp_all add: example_waiting_def example_defs example_request_def)
qed

end
