(* ===== verification/System_Flight.thy ===== *)
theory System_Flight
  imports System
begin

text \<open>
  The blocks in flight: those that the block builder of \<open>crates/driver/src/block_builder/mod.rs\<close> finalizes in the
  background, and those whose response the driver has not taken yet. The handlers of the driver, the ends of the
  background tasks and the polls of the actor keep the invariant that there is at most one of them, as long as
  no block is reposted while one is in flight: the response that a repost drops sets the state of the builder to
  idle.
\<close>

section \<open>The invariant\<close>

text \<open>The state counts the blocks in flight. A task that panics leaves the state as it is, so there may be fewer.\<close>

definition flight_counted :: "in_flight \<Rightarrow> bool" where
  "flight_counted f =
     (length (fl_running f) + length (fl_channel f) \<le> (if is_finalizing (fl_state f) = None then 0 else 1))"

text \<open>During a handler; with \<open>idle\<close>, nothing is being finalized either.\<close>

definition settled :: "runtime_config \<Rightarrow> bool \<Rightarrow> driver \<Rightarrow> bool" where
  "settled cfg idle d =
     (d_cfg d = cfg \<and> flight_counted (d_builder d) \<and>
      (idle \<longrightarrow> is_finalizing (fl_state (d_builder d)) = None))"

named_theorems flight_rules \<open>the handlers keep the count of the blocks in flight\<close>

lemma settled_weaken: "settled cfg idle d \<Longrightarrow> settled cfg False d"
  by (simp add: settled_def)

lemma settled_update [simp]:
  "settled cfg idle (d\<lparr>d_l1 := l1\<rparr>) = settled cfg idle d"
  "settled cfg idle (d\<lparr>d_l2 := l2\<rparr>) = settled cfg idle d"
  "settled cfg idle (d\<lparr>d_status := st\<rparr>) = settled cfg idle d"
  "settled cfg idle (d\<lparr>d_handle := h\<rparr>) = settled cfg idle d"
  "settled cfg idle (d\<lparr>d_lookahead := la\<rparr>) = settled cfg idle d"
  "settled cfg idle (d\<lparr>d_outstanding := b\<rparr>) = settled cfg idle d"
  by (simp_all add: settled_def)

lemma settled_status [simp]: "settled cfg idle (update_status st d) = settled cfg idle d"
  by (simp add: update_status_def)

lemma settled_origin [simp]: "settled cfg idle (fst (update_head_l1_origin env d)) = settled cfg idle d"
  by (simp add: update_head_l1_origin_def split: sum.split)

lemma settled_anchor [simp]: "settled cfg idle (update_outstanding_batch_anchor_if_needed d) = settled cfg idle d"
  by (simp add: update_outstanding_batch_anchor_if_needed_def)

lemma settled_builder:
  "settled cfg idle d \<Longrightarrow> flight_counted f \<Longrightarrow> (idle \<Longrightarrow> is_finalizing (fl_state f) = None) \<Longrightarrow>
   settled cfg idle (d\<lparr>d_builder := f\<rparr>)"
  by (simp add: settled_def)

text \<open>The end of a task, and the waits of a handler, during which tasks end.\<close>

lemma finalize_counted:
  "flight_counted f \<Longrightarrow> flight_counted (finalize_task_done i result f)"
  by (cases result; cases "fl_running f")
     (auto simp: flight_counted_def finalize_task_done_def Let_def split: if_splits)

lemma finalize_idle:
  "flight_counted f \<Longrightarrow> is_finalizing (fl_state f) = None \<Longrightarrow> finalize_task_done i result f = f"
  by (simp add: flight_counted_def finalize_task_done_def)

lemma watch_changed_value: "watch_changed s = Some s' \<Longrightarrow> is_finalizing s' = is_finalizing s"
  by (auto simp: watch_changed_def is_finalizing_def split: if_splits)

lemma await_changed_counted:
  "flight_counted f \<Longrightarrow> when_done (\<lambda>f'. flight_counted f' \<and>
     (is_finalizing (fl_state f) = None \<longrightarrow> is_finalizing (fl_state f') = None)) (await_changed bg f)"
proof (induction bg f rule: await_changed.induct)
  case (1 f)
  then show ?case by (auto simp: flight_counted_def watch_changed_value split: option.split)
next
  case (2 i result bg f)
  show ?case
  proof (cases "watch_changed (fl_state f)")
    case None
    from "2.IH" [OF None finalize_counted [OF "2.prems"]] None show ?thesis
      using finalize_idle [OF "2.prems", of i result]
      by (cases "await_changed bg (finalize_task_done i result f)") auto
  next
    case (Some s)
    then show ?thesis using "2.prems" watch_changed_value [OF Some] by (simp add: flight_counted_def)
  qed
qed

lemma settled_await_idle [flight_rules]: "settled cfg idle d \<Longrightarrow> when_done (settled cfg idle) (await_idle bg d)"
  using await_changed_counted [of "d_builder d" bg]
  by (cases "await_changed bg (d_builder d)") (auto simp: await_idle_def settled_def)

section \<open>The parts of the handlers\<close>

lemma settled_sync_lookahead [flight_rules]:
  "settled cfg idle d \<Longrightarrow> when_done (settled cfg idle) (sync_lookahead slot current next time inst d)"
  by (auto simp: sync_lookahead_def split: prod.split intro: when_done_expect_then)

lemma settled_submit [flight_rules]: "settled cfg idle d \<Longrightarrow> when_done (settled cfg idle) (submit b deadline d)"
  unfolding submit_def by (rule when_done_expect_then) simp

lemma settled_submit_local [flight_rules]:
  "settled cfg idle d \<Longrightarrow> when_done (settled cfg idle) (submit_local_outstanding_batch bg deadline d)"
  unfolding submit_local_outstanding_batch_def Let_def
  by (rule when_done_then [OF settled_await_idle]) (auto split: prod.split intro!: settled_submit)

lemma settled_submit_all [flight_rules]: "settled cfg idle d \<Longrightarrow> when_done (settled cfg idle) (submit_all bs d)"
proof (induction bs arbitrary: d)
  case (Cons b bs)
  then show ?case by (auto intro!: when_done_then [OF settled_submit])
qed simp

text \<open>Dropping a response does not matter while the builder is idle.\<close>

lemma settled_drop: "settled cfg True d \<Longrightarrow>
    settled cfg True (d\<lparr>d_builder := (d_builder d)\<lparr>fl_state := drop_response (fl_state (d_builder d))\<rparr>\<rparr>)"
  by (auto simp: settled_def flight_counted_def drop_response_def)

lemma settled_repost_block:
  "settled cfg True d \<Longrightarrow> when_done (\<lambda>(d, r). settled cfg True d) (repost_block env reasons fees anchor block d)"
  by (auto simp: repost_block_def Let_def settled_drop split: sum.split outcome.split option.split)

lemma settled_repost_blocks:
  "settled cfg True d \<Longrightarrow> when_done (\<lambda>(d, r). settled cfg True d) (repost_blocks env reasons fees bs d)"
proof (induction env reasons fees bs d rule: repost_blocks.induct)
  case (2 env reasons fees anchor block rest d)
  show ?case
    unfolding repost_blocks.simps
    by (rule when_done_then [OF settled_repost_block [OF "2.prems"]]) (auto intro: "2.IH" split: sum.split)
qed simp

text \<open>No sync of a handler finds that blocks must be reposted.\<close>

definition nothing_reposted :: "runtime_config \<Rightarrow> 'sig driver_env \<Rightarrow> bool" where
  "nothing_reposted cfg env =
     (\<forall>r \<in> set (de_rounds env). \<forall>status batches reasons fees.
        sync cfg (env_codec (de_builder env)) (de_estimate env) (de_estimate_reanchor env) (r_sync r) status =
          Ok (batches, reasons, fees) \<longrightarrow> reasons = [])"

lemma settled_sync_loop:
  assumes "settled cfg idle d"
    and "idle \<or> (\<forall>r \<in> set rounds. \<forall>status batches reasons fees.
      sync cfg (env_codec (de_builder env)) (de_estimate env) (de_estimate_reanchor env) (r_sync r) status =
        Ok (batches, reasons, fees) \<longrightarrow> reasons = [])"
  shows "when_done (\<lambda>(d, batches, reasons, fees). settled cfg idle d \<and> (idle \<or> reasons = [])) (sync_loop env rounds d)"
  using assms
proof (induction rounds arbitrary: d)
  case (Cons r rounds)
  let ?P = "\<lambda>(d, batches, reasons, fees). settled cfg idle d \<and> (idle \<or> reasons = [])"
  show ?case
    unfolding sync_loop.simps
  proof (rule when_done_then [OF settled_sync_lookahead [OF Cons.prems(1)]], rule when_done_then [OF settled_await_idle], assumption)
    fix d1 d assume d: "settled cfg idle d"
    then have cfg: "d_cfg d = cfg" by (simp add: settled_def)
    have rest: "when_done ?P (sync_loop env rounds d)"
      using Cons.IH [OF d] Cons.prems(2) by auto
    show "when_done ?P
        (case sync (d_cfg d) (env_codec (de_builder env)) (de_estimate env) (de_estimate_reanchor env) (r_sync r) (d_status d) of
           Panic \<Rightarrow> Panicked | Err e \<Rightarrow> sync_loop env rounds d | Ok result \<Rightarrow> Done (d, result))"
    proof (cases "sync (d_cfg d) (env_codec (de_builder env)) (de_estimate env) (de_estimate_reanchor env) (r_sync r) (d_status d)")
      case (Ok result)
      obtain batches reasons fees where result: "result = (batches, reasons, fees)" by (cases result)
      then have "idle \<or> reasons = []" using Cons.prems(2) Ok unfolding cfg by auto
      then show ?thesis using d by (simp add: Ok result)
    qed (use rest in simp_all)
  qed
qed simp

lemma settled_sync_and_propose [flight_rules]:
  assumes "settled cfg idle d" and "idle \<or> nothing_reposted cfg env"
  shows "when_done (settled cfg idle) (sync_and_propose env d)"
  unfolding sync_and_propose_def
proof (rule when_done_then [OF settled_sync_loop [OF assms(1)]])
  show "idle \<or> (\<forall>r \<in> set (de_rounds env). \<forall>status batches reasons fees.
      sync cfg (env_codec (de_builder env)) (de_estimate env) (de_estimate_reanchor env) (r_sync r) status =
        Ok (batches, reasons, fees) \<longrightarrow> reasons = [])"
    using assms(2) unfolding nothing_reposted_def .
next
  fix x :: "driver \<times> sync_result"
  obtain d batches reasons fees where x: "x = (d, batches, reasons, fees)" by (cases x)
  assume "case x of (d, batches, reasons, fees) \<Rightarrow> settled cfg idle d \<and> (idle \<or> reasons = [])"
  with x have d: "settled cfg idle d" and r: "idle \<or> reasons = []" by auto
  have repost: "when_done (\<lambda>(d, r). settled cfg idle d)
      (if reasons \<noteq> [] then finalize_all_blocks_from_batches env batches reasons fees d else Done (d, Inr ()))"
  proof (cases "reasons = []")
    case False
    with r d have "idle = True" and "settled cfg True d" by simp_all
    then show ?thesis by (simp add: finalize_all_blocks_from_batches_def settled_repost_blocks)
  qed (use d in simp)
  have "when_done (settled cfg idle) (then_h
      (if reasons \<noteq> [] then finalize_all_blocks_from_batches env batches reasons fees d else Done (d, Inr ())) (\<lambda>(d, _).
       let (batches, outstanding) = pop_ob batches d
       in then_h (submit_all batches d) (\<lambda>d. Done (d\<lparr>d_outstanding := outstanding\<rparr>))))"
    by (rule when_done_then [OF repost])
       (auto simp: Let_def split: prod.split intro!: when_done_then [OF settled_submit_all])
  moreover have "when_done (settled cfg idle)
      (let (batches, outstanding) = pop_ob batches d in Done (d\<lparr>d_outstanding := outstanding\<rparr>))"
    using d by (simp add: Let_def split: prod.split)
  ultimately show "when_done (settled cfg idle) (case x of (d, batches, reasons, fees) \<Rightarrow>
     if can_propose (d_status d) then
       then_h (if reasons \<noteq> [] then finalize_all_blocks_from_batches env batches reasons fees d
               else Done (d, Inr ())) (\<lambda>(d, _).
       let (batches, outstanding) = pop_ob batches d
       in then_h (submit_all batches d) (\<lambda>d. Done (d\<lparr>d_outstanding := outstanding\<rparr>)))
     else
       let (batches, outstanding) = pop_ob batches d
       in Done (d\<lparr>d_outstanding := outstanding\<rparr>))"
    unfolding x prod.case by simp
qed

section \<open>The handlers\<close>

lemma settled_update_l1_info [flight_rules]:
  assumes "settled cfg idle d"
  shows "when_done (\<lambda>(d, r). settled cfg idle d) (update_l1_info env l1_header d)"
proof -
  have origin: "settled cfg idle d'" if "update_head_l1_origin env (d\<lparr>d_l1 := l1\<rparr>) = (d', r)" for l1 d' r
    using settled_origin [of cfg idle env "d\<lparr>d_l1 := l1\<rparr>"] that assms by simp
  have rest: "when_done (\<lambda>(d, r). settled cfg idle d)
      (then_h (sync_lookahead slot current next time inst d) (\<lambda>d. Done (d, r)))"
    if "settled cfg idle d" for slot current "next" time inst d and r :: "driver_error + u64"
    by (rule when_done_then [OF settled_sync_lookahead [OF that]]) simp
  show ?thesis
    unfolding update_l1_info_def Let_def
    by (rule when_done_expect_then) (auto simp: assms split: prod.split sum.split intro!: rest dest: origin)
qed

lemma settled_on_l1_slot_tick [flight_rules]:
  assumes "settled cfg idle d" and "idle \<or> nothing_reposted cfg env"
  shows "when_done (settled cfg idle) (on_l1_slot_tick env time d)"
proof -
  have 1: "when_done (settled cfg idle) (propose_before_age_limit env slots_left d)" if "settled cfg idle d" for slots_left d
    using that by (auto simp: propose_before_age_limit_def intro!: when_done_expect_then settled_submit_local)
  have 2: "when_done (settled cfg idle) (new_window_or_status env slot d)" if "settled cfg idle d" for slot d
    using that assms(2) by (auto simp: new_window_or_status_def intro!: when_done_expect_then settled_sync_and_propose)
  have 3: "when_done (settled cfg idle) (propose_in_handover env d)" if "settled cfg idle d" for d
    using that by (simp add: propose_in_handover_def settled_submit_local)
  show ?thesis
    unfolding on_l1_slot_tick_def Let_def
    by (rule when_done_expect_then, rule when_done_then [OF 1], use assms(1) in simp,
        rule when_done_then [OF 2], assumption, rule when_done_then [OF 3], assumption, simp)
qed

text \<open>A block is triggered only when none is being finalized.\<close>

lemma settled_on_l2_slot_tick [flight_rules]:
  assumes "settled cfg False d"
  shows "when_done (settled cfg False) (on_l2_slot_tick env time d)"
proof (cases "is_finalizing (fl_state (d_builder d)) = None")
  case True
  then have "settled cfg False (d\<lparr>d_builder := trigger_finalize_block anchor payload (d_builder d)\<rparr>)" for anchor payload
    using assms by (simp add: settled_def flight_counted_def trigger_finalize_block_def)
  then show ?thesis
    using assms unfolding on_l2_slot_tick_def Let_def
    by (auto split: sum.split outcome.split option.split intro!: when_done_expect_then)
qed (use assms in \<open>simp add: on_l2_slot_tick_def\<close>)

lemma settled_on_taiko_preconf_event [flight_rules]:
  "settled cfg idle d \<Longrightarrow> when_done (settled cfg idle) (on_taiko_preconf_event env ep d)"
  by (simp add: on_taiko_preconf_event_def settled_sync_lookahead)

lemma settled_add_blocks [flight_rules]:
  "settled cfg idle d \<Longrightarrow> when_done (settled cfg idle) (add_blocks est i anchor bs d)"
proof (induction est i anchor bs d rule: add_blocks.induct)
  case (2 est i anchor block rest d)
  obtain ob r where add: "add_block_and_reset_if_full (est i) (d_outstanding d) block anchor = (ob, r)"
    by (cases "add_block_and_reset_if_full (est i) (d_outstanding d) block anchor")
  show ?case
  proof (cases r)
    case Added
    then show ?thesis using "2.IH"(1) [OF add [symmetric] Added] "2.prems" add by simp
  next
    case (Full reason full_batch)
    show ?thesis
      using "2.IH"(2) [OF add [symmetric] Full refl refl] "2.prems"
      by (auto simp: add Full Let_def intro!: when_done_then [where Q = "settled cfg idle"] settled_submit)
  qed
qed simp

lemma settled_on_l1_block [flight_rules]:
  "settled cfg idle d \<Longrightarrow> when_done (settled cfg idle) (on_l1_block env l1_header d)"
  unfolding on_l1_block_def by (rule when_done_then [OF settled_update_l1_info]) (auto split: sum.split)

lemma settled_on_l2_block [flight_rules]:
  "settled cfg idle d \<Longrightarrow> when_done (settled cfg idle) (on_l2_block env new_l2 d)"
  unfolding on_l2_block_def on_l2_reorg_def Let_def
  by (rule when_done_then [where Q = "settled cfg idle"])
     (auto intro!: when_done_expect_then split: sum.split)

text \<open>Taking the response of a block releases the builder.\<close>

lemma settled_produced:
  assumes "settled cfg False d"
  shows "when_done (settled cfg False) (handle_event env (Block_Produced :: 'b driver_event) d)"
proof (cases "fl_channel (d_builder d)")
  case (Cons r rs)
  let ?d = "d\<lparr>d_builder := (d_builder d)\<lparr>fl_state := drop_response (fl_state (d_builder d)), fl_channel := rs\<rparr>\<rparr>"
  have "settled cfg False ?d"
    using assms Cons by (auto simp: settled_def flight_counted_def drop_response_def split: if_splits)
  from settled_add_blocks [OF this] show ?thesis
    by (simp add: handle_event_def Cons into_block_with_anchor_def on_produced_block_def)
qed (use assms in \<open>simp add: handle_event_def\<close>)

lemma settled_handle_event:
  assumes "settled cfg False d"
    and "is_finalizing (fl_state (d_builder d)) = None \<or> nothing_reposted cfg env"
  shows "when_done (settled cfg False) (handle_event env (event :: 'b driver_event) d)"
proof -
  define idle where "idle = (is_finalizing (fl_state (d_builder d)) = None)"
  have d: "settled cfg idle d" and safe: "idle \<or> nothing_reposted cfg env"
    using assms by (simp_all add: idle_def settled_def)
  have weaken: "when_done (settled cfg idle) m \<Longrightarrow> when_done (settled cfg False) m" for m
    by (cases m) (auto intro: settled_weaken)
  note rules = settled_on_l1_slot_tick [OF d safe, THEN weaken] settled_sync_and_propose [OF d safe, THEN weaken]
    settled_produced [OF assms(1)] settled_on_l2_slot_tick [OF assms(1)] settled_on_taiko_preconf_event [OF assms(1)]
    settled_on_l1_block [OF assms(1)] settled_on_l2_block [OF assms(1)]
  show ?thesis
  proof (cases event)
    case Block_Produced
    then show ?thesis using settled_produced [OF assms(1)] by simp
  qed (use rules assms(1) in \<open>simp_all add: handle_event_def on_operator_changed_def on_batch_proposal_err_def\<close>)
qed

section \<open>The system\<close>

text \<open>The steps in which a handler reposts no block while one is in flight.\<close>

fun reposts_when_idle :: "runtime_config \<Rightarrow> ('b, 'r) system \<Rightarrow> ('sig, 'b, 'r) system_event \<Rightarrow> bool" where
  "reposts_when_idle cfg s (Handled env event bs) =
     (is_finalizing (fl_state (d_builder (sys_driver s))) = None \<or> nothing_reposted cfg env)"
| "reposts_when_idle cfg s (Result_Read env) =
     (is_finalizing (fl_state (d_builder (sys_driver s))) = None \<or> nothing_reposted cfg env)"
| "reposts_when_idle cfg s _ = True"

interpretation flight: invariant_part
  "limited (reposts_when_idle cfg) (system_moves :: ('b, 'r) system \<Rightarrow> ('sig, 'b, 'r) system_event \<Rightarrow> ('b, 'r) system \<Rightarrow> bool)"
  "\<lambda>s. settled cfg False (sys_driver s)"
proof
  fix s :: "('b, 'r) system" and e :: "('sig, 'b, 'r) system_event" and t :: "('b, 'r) system"
  assume s: "settled cfg False (sys_driver s)" and "limited (reposts_when_idle cfg) system_moves s e t"
  then have allowed: "reposts_when_idle cfg s e" and "system_moves s e t" by (simp_all add: limited_def)
  from this(2) show "settled cfg False (sys_driver t)"
  proof cases
    case (handled env event d)
    then show ?thesis using settled_handle_event [OF s, of env event] allowed by simp
  next
    case (size_asked env time cmds ready r d)
    then show ?thesis using settled_on_l2_slot_tick [OF s, of env time] by simp
  next
    case (result_read res results env d)
    have "when_done (settled cfg False) (on_batch_result env res (sys_driver s))"
      using allowed s by (simp add: on_batch_result_def result_read(1) settled_handle_event split: sum.split)
    then show ?thesis using result_read by simp
  next
    case (task_ended i result)
    then show ?thesis using s finalize_counted by (simp add: settled_def)
  qed (use s in simp_all)
qed

lemma settled_startup: "settled cfg True d \<Longrightarrow> when_done (settled cfg True) (startup_sync attempts d)"
proof (induction attempts d rule: startup_sync.induct)
  case (2 l1_tip env attempts d)
  show ?case
  proof (cases l1_tip)
    case (Inr h)
    have "when_done (settled cfg True) (case x of (d, r) \<Rightarrow>
        case r of Inl e \<Rightarrow> startup_sync attempts d | Inr _ \<Rightarrow> sync_and_propose env d)"
      if "case x of (d, r) \<Rightarrow> settled cfg True d" for x :: "driver \<times> (driver_error + u64)"
      using "2.IH"(2) [OF Inr] that by (cases x) (auto intro: settled_sync_and_propose split: sum.split)
    then show ?thesis
      unfolding startup_sync.simps Inr sum.case by (rule when_done_then [OF settled_update_l1_info [OF "2.prems"]])
  qed (use "2.IH"(1) "2.prems" in auto)
qed simp

lemma started_settled:
  assumes "started_system cfg clients_synced new_l1 new_l2 balances approval attempts = Some s"
  shows "settled cfg True (sys_driver s)"
proof -
  from assms obtain d0 d where new: "driver_new cfg clients_synced new_l1 new_l2 balances approval = Done (Inr d0)"
    and start: "startup_sync attempts d0 = Done d" and s: "s = \<lparr>sys_driver = d, sys_actor = processor_new cfg\<rparr>"
    by (auto simp: started_system_def split: handled.splits sum.splits)
  from new have "settled cfg True d0"
    by (auto simp: driver_new_def settled_def flight_counted_def in_flight_new_def
        split: option.splits sum.splits outcome.splits)
  from settled_startup [OF this, of attempts] show ?thesis using start by (simp add: s)
qed

section \<open>Property\<close>

text \<open>
  C25. From the start of the program on, at most one block is in flight, from its trigger until the driver has taken
  its response, and when the builder says that it is idle there is none, so no two blocks are built on the same
  parent: whatever the nodes answer and in whatever order driver, actor and background tasks move, as long as no
  handler reposts a block while one is being finalized.
\<close>

theorem at_most_one_block_in_flight:
  fixes s :: "('b, 'r) system"
  assumes "started_system cfg clients_synced new_l1 new_l2 balances approval attempts = Some s"
    and "runs (limited (reposts_when_idle cfg) system_moves) s es t"
  shows "length (fl_running (d_builder (sys_driver t))) + length (fl_channel (d_builder (sys_driver t))) \<le> 1 \<and>
    (is_finalizing (fl_state (d_builder (sys_driver t))) = None \<longrightarrow>
      fl_running (d_builder (sys_driver t)) = [] \<and> fl_channel (d_builder (sys_driver t)) = [])"
proof -
  have "settled cfg False (sys_driver t)" by (rule flight.run_good [OF assms(2) settled_weaken [OF started_settled [OF assms(1)]]])
  then show ?thesis by (auto simp: settled_def flight_counted_def split: if_splits)
qed

theorem at_most_one_block_in_flight_witness:
  "\<exists>s t. example_start = Some s \<and>
     runs (limited (reposts_when_idle example_config) system_moves) s
       [Handled real_env (Batch_Proposed_Event :: unit driver_event) [] :: (unit, unit, unit) system_event] t \<and>
     length (fl_running (d_builder (sys_driver t))) + length (fl_channel (d_builder (sys_driver t))) \<le> 1"
proof -
  let ?e = "Handled real_env (Batch_Proposed_Event :: unit driver_event) [] :: (unit, unit, unit) system_event"
  obtain s where s: "example_start = Some s" using example_started by blast
  have move: "system_moves s ?e s"
    using system_moves.handled [of real_env "Batch_Proposed_Event :: unit driver_event" s "sys_driver s"]
    by (simp add: asks_for_size_def is_batch_error_def handle_event_def blocks_added_def)
  have "settled example_config True (sys_driver s)"
    by (rule started_settled [OF s [unfolded example_start_def]])
  then have "limited (reposts_when_idle example_config) system_moves s ?e s"
    using move by (simp add: limited_def settled_def)
  then have run: "runs (limited (reposts_when_idle example_config) system_moves) s [?e] s" by (rule runs_single)
  with at_most_one_block_in_flight [OF s [unfolded example_start_def] run] s show ?thesis by blast
qed

end
