(* ===== verification/Driver_Panics.thy ===== *)
theory Driver_Panics
  imports Driver_Correct
begin

text \<open>
  When a handler of \<open>crates/driver/src/driver.rs\<close> can panic. The program panics where the L1 block time is zero,
  where a critical task has ended, where the base fee does not fit 64 bits, where signing panics, and where a command
  does not fit into the channel of the batch submitter. The rules here show that these, and blocks that the L2 node
  hands out in a wrong order, are all the reasons, whatever errors the clients answer.
\<close>

section \<open>What holds when a handler does not panic\<close>

text \<open>Unlike \<open>when_done\<close>, which says nothing of a panic, \<open>no_panic\<close> excludes it.\<close>

fun no_panic :: "('a \<Rightarrow> bool) \<Rightarrow> 'a handled \<Rightarrow> bool" where
  "no_panic P (Done x) = P x"
| "no_panic P Panicked = False"
| "no_panic P Hangs = True"

named_theorems panic_rules \<open>the handlers do not panic\<close>

lemma no_panic_then: "no_panic Q m \<Longrightarrow> (\<And>x. Q x \<Longrightarrow> no_panic P (f x)) \<Longrightarrow> no_panic P (then_h m f)"
  by (cases m) auto

lemma no_panic_expect_then: "m \<noteq> None \<Longrightarrow> (\<And>x. no_panic P (f x)) \<Longrightarrow> no_panic P (then_h (expect m) f)"
  by (cases m) auto


lemma no_panicD: "no_panic P m \<Longrightarrow> m \<noteq> Panicked"
  by (cases m) auto

text \<open>The driver has its configuration everywhere, and the channel has room for \<open>k\<close> more commands.\<close>

definition room :: "runtime_config \<Rightarrow> nat \<Rightarrow> driver \<Rightarrow> bool" where
  "room cfg k d =
     (d_cfg d = cfg \<and> la_cfg (d_lookahead d) = cfg \<and> l1_block_time (chain cfg) \<noteq> 0 \<and>
      length (d_handle d) + k \<le> MAX_BUFFERED_BATCHES)"




lemma room_weaken: "room cfg k d \<Longrightarrow> j \<le> k \<Longrightarrow> room cfg j d"
  by (simp add: room_def)

lemma room_update [simp]:
  "room cfg k (d\<lparr>d_l1 := l1\<rparr>) = room cfg k d"
  "room cfg k (d\<lparr>d_l2 := l2\<rparr>) = room cfg k d"
  "room cfg k (d\<lparr>d_status := st\<rparr>) = room cfg k d"
  "room cfg k (d\<lparr>d_builder := f\<rparr>) = room cfg k d"
  "room cfg k (d\<lparr>d_outstanding := b\<rparr>) = room cfg k d"
  by (simp_all add: room_def)

lemma room_status [simp]: "room cfg k (update_status st d) = room cfg k d"
  by (simp add: update_status_def)

lemma room_origin [simp]: "room cfg k (fst (update_head_l1_origin env d)) = room cfg k d"
  by (simp add: update_head_l1_origin_def split: sum.split)

lemma room_anchor [simp]: "room cfg k (update_outstanding_batch_anchor_if_needed d) = room cfg k d"
  by (simp add: update_outstanding_batch_anchor_if_needed_def)

section \<open>The parts of the handlers\<close>

lemma slot_defined: "l1_block_time (chain cfg) \<noteq> 0 \<Longrightarrow> cfg_timestamp_to_l1_slot cfg ts \<noteq> None"
  by (simp add: cfg_timestamp_to_l1_slot_def timestamp_to_l1_slot_def checked_div_def)


lemma past_handover_defined: "l1_block_time (chain (la_cfg la)) \<noteq> 0 \<Longrightarrow> is_past_handover_buffer la now \<noteq> None"
  using slot_defined [of "la_cfg la" now] by (auto simp: is_past_handover_buffer_def Let_def)

lemma status_defined: "l1_block_time (chain (la_cfg la)) \<noteq> 0 \<Longrightarrow> compute_driver_status la slot now inst \<noteq> None"
  using past_handover_defined [of la now] by (auto simp: compute_driver_status_def Let_def)


lemma lookahead_sync_cfg [simp]: "la_cfg (fst (lookahead_sync la slot current next now inst)) = la_cfg la"
  by (simp add: lookahead_sync_def Let_def split: sum.split)

lemma lookahead_sync_status:
  "l1_block_time (chain (la_cfg la)) \<noteq> 0 \<Longrightarrow> snd (lookahead_sync la slot current next now inst) \<noteq> None"
  by (simp add: lookahead_sync_def Let_def status_defined del: not_None_eq split: sum.split)

lemma sync_lookahead_room [panic_rules]:
  assumes "room cfg k d"
  shows "no_panic (room cfg k) (sync_lookahead slot current next time inst d)"
proof -
  obtain la st where sync: "lookahead_sync (d_lookahead d) slot current next time inst = (la, st)" by fastforce
  have "st \<noteq> None" "la_cfg la = la_cfg (d_lookahead d)"
    using lookahead_sync_status [of "d_lookahead d" slot current "next" time inst]
      lookahead_sync_cfg [of "d_lookahead d" slot current "next" time inst] assms sync by (auto simp: room_def)
  then show ?thesis using assms unfolding sync_lookahead_def sync by (auto simp: room_def)
qed







section \<open>Building and reposting\<close>








section \<open>Syncing\<close>






section \<open>The handlers\<close>

lemma update_l1_info_room [panic_rules]:
  assumes "room cfg k d"
  shows "no_panic (\<lambda>(d, r). room cfg k d) (update_l1_info env l1_header d)"
proof -
  have origin: "room cfg k d'" if "update_head_l1_origin env (d\<lparr>d_l1 := l1\<rparr>) = (d', r)" for l1 d' r
    using room_origin [of cfg k env "d\<lparr>d_l1 := l1\<rparr>"] that assms by simp
  have rest: "no_panic (\<lambda>(d, r). room cfg k d)
      (then_h (sync_lookahead slot current next time inst d) (\<lambda>d. Done (d, r)))"
    if "room cfg k d" for slot current "next" time inst d and r :: "driver_error + u64"
    by (rule no_panic_then [OF sync_lookahead_room [OF that]]) simp
  have "cfg_timestamp_to_l1_slot (d_cfg d) (timestamp l1_header) \<noteq> None"
    using assms by (intro slot_defined) (simp add: room_def)
  then show ?thesis
    unfolding update_l1_info_def Let_def
    by (rule no_panic_expect_then) (auto simp: assms split: prod.split sum.split intro!: rest dest: origin)
qed






lemma on_taiko_preconf_event_room [panic_rules]:
  "room cfg k d \<Longrightarrow> no_panic (room cfg k) (on_taiko_preconf_event env ep d)"
  unfolding on_taiko_preconf_event_def
  by (rule sync_lookahead_room) (simp add: room_def update_end_of_sequencing_mark_def)


lemma on_l1_block_room [panic_rules]: "room cfg k d \<Longrightarrow> no_panic (room cfg k) (on_l1_block env l1_header d)"
  unfolding on_l1_block_def by (rule no_panic_then [OF update_l1_info_room]) (auto split: sum.split)

lemma on_l2_reorg_room [panic_rules]: "room cfg (Suc k) d \<Longrightarrow> no_panic (room cfg k) (on_l2_reorg env n d)"
  unfolding on_l2_reorg_def
  by (auto simp: clear_batch_submissions_def send_cmd_def) (simp_all add: room_def)

lemma on_l2_block_room [panic_rules]:
  "room cfg (Suc k) d \<Longrightarrow> no_panic (room cfg k) (on_l2_block env new_l2 d)"
  unfolding on_l2_block_def Let_def
  by (rule no_panic_then [where Q = "room cfg k"])
     (auto intro: on_l2_reorg_room room_weaken split: sum.split)


lemma gap_blocks_builder [simp]: "gap_blocks env block (d\<lparr>d_builder := f\<rparr>) = gap_blocks env block d"
  by (simp add: gap_blocks_def)





section \<open>Properties\<close>





text \<open>
  C14. The batches of a sync are sent without waiting for room. The driver panics exactly when those that are not
  empty do not all fit into the channel, which has 32 places, beside the commands that the actor has not taken yet.
\<close>

theorem too_many_batches_panic:
  assumes "length (d_handle d) \<le> MAX_BUFFERED_BATCHES"
  shows "submit_all bs d = Panicked \<longleftrightarrow>
    MAX_BUFFERED_BATCHES < length (d_handle d) + length (filter (\<lambda>b. blocks b \<noteq> []) bs)"
  using assms
proof (induction bs arbitrary: d)
  case (Cons b bs)
  show ?case
  proof (cases "blocks b = [] \<or> length (d_handle d) < MAX_BUFFERED_BATCHES")
    case True
    then have "submit b (inclusion_window_end (d_lookahead d)) d =
        Done (d\<lparr>d_handle := d_handle d @ (if blocks b = [] then [] else [Submit b (inclusion_window_end (d_lookahead d))])\<rparr>)"
      by (auto simp: submit_def trigger_batch_submission_def send_cmd_def)
    then show ?thesis using Cons.IH Cons.prems True by auto
  next
    case False
    then show ?thesis using Cons.prems by (simp add: submit_def trigger_batch_submission_def send_cmd_def)
  qed
qed simp

theorem too_many_batches_panic_witness: "submit_all (replicate 33 example_batch) example_driver = Panicked"
proof -
  have "blocks example_batch \<noteq> []" by (simp add: example_batch_def)
  then show ?thesis
    using too_many_batches_panic [of example_driver "replicate 33 example_batch"]
    by (simp add: example_driver_def MAX_BUFFERED_BATCHES_def filter_replicate)
qed

end
