(* ===== verification/Float64.thy ===== *)
theory Float64
  imports Mk1_Prelude "HOL-Library.Log_Nat"
begin

text \<open>
  The doubles that the program computes with: finite and not negative. A double is a mantissa of 53 bits
  and a binary exponent; every operation is the exact rational result rounded once to the nearest double,
  ties to the even mantissa, as IEEE 754 prescribes and Rust does. The range of the exponent has no bound
  here: the values of the program stay between \<open>2 ^ -70\<close> and \<open>2 ^ 200\<close>, far from the subnormal numbers and
  from infinity, and the callers divide by non-zero numbers only.
\<close>

section \<open>Representation and rounding\<close>

datatype f64 = F64 (mantissa: nat) (exponent: int)

text \<open>A double as a ratio of natural numbers, and its exact value.\<close>

definition ratio_num :: "f64 \<Rightarrow> nat" where "ratio_num x = mantissa x * 2 ^ nat (exponent x)"
definition ratio_den :: "f64 \<Rightarrow> nat" where "ratio_den x = 2 ^ nat (- exponent x)"
definition f64_value :: "f64 \<Rightarrow> rat" where "f64_value x = of_nat (ratio_num x) / of_nat (ratio_den x)"

definition round_half_even :: "nat \<Rightarrow> nat \<Rightarrow> nat" where
  "round_half_even p q =
     (let d = p div q; r = p mod q in if 2 * r < q \<or> (2 * r = q \<and> even d) then d else d + 1)"

text \<open>The double nearest to \<open>p / q\<close>: the exponent that leaves 53 bits of the quotient, and the rounding.\<close>

definition scaled_num :: "nat \<Rightarrow> int \<Rightarrow> nat" where "scaled_num p e = p * 2 ^ nat (- e)"
definition scaled_den :: "nat \<Rightarrow> int \<Rightarrow> nat" where "scaled_den q e = q * 2 ^ nat e"

definition round_exponent :: "nat \<Rightarrow> nat \<Rightarrow> int" where
  "round_exponent p q =
     (let e = int (floorlog 2 p) - int (floorlog 2 q) - 53
      in if scaled_num p e < 2 ^ 53 * scaled_den q e then e else e + 1)"

definition f64_of_ratio :: "nat \<Rightarrow> nat \<Rightarrow> f64" where
  "f64_of_ratio p q =
     (if p = 0 then F64 0 0
      else let e = round_exponent p q;
               m = round_half_even (scaled_num p e) (scaled_den q e)
           in if m = 2 ^ 53 then F64 (2 ^ 52) (e + 1) else F64 m e)"

section \<open>Operations\<close>

definition f64_of_nat :: "nat \<Rightarrow> f64" where "f64_of_nat n = f64_of_ratio n 1"

instantiation f64 :: "{times, plus, minus, divide}"
begin

definition times_f64 :: "f64 \<Rightarrow> f64 \<Rightarrow> f64" where
  "x * y = f64_of_ratio (ratio_num x * ratio_num y) (ratio_den x * ratio_den y)"

definition plus_f64 :: "f64 \<Rightarrow> f64 \<Rightarrow> f64" where
  "x + y = f64_of_ratio (ratio_num x * ratio_den y + ratio_num y * ratio_den x) (ratio_den x * ratio_den y)"

text \<open>For operands whose difference is not negative.\<close>

definition minus_f64 :: "f64 \<Rightarrow> f64 \<Rightarrow> f64" where
  "x - y = f64_of_ratio (ratio_num x * ratio_den y - ratio_num y * ratio_den x) (ratio_den x * ratio_den y)"

definition divide_f64 :: "f64 \<Rightarrow> f64 \<Rightarrow> f64" where
  "x div y = f64_of_ratio (ratio_num x * ratio_den y) (ratio_den x * ratio_num y)"

instance ..

end

text \<open>The fused operation rounds only once.\<close>

definition f64_mul_add :: "f64 \<Rightarrow> f64 \<Rightarrow> f64 \<Rightarrow> f64" where
  "f64_mul_add x a b =
     f64_of_ratio (ratio_num x * ratio_num a * ratio_den b + ratio_num b * (ratio_den x * ratio_den a))
       (ratio_den x * ratio_den a * ratio_den b)"

text \<open>\<open>round\<close> goes to the nearest integer, a half away from zero, and the cast to \<open>u64\<close> saturates.\<close>

definition f64_round :: "f64 \<Rightarrow> nat" where
  "f64_round x = (2 * ratio_num x + ratio_den x) div (2 * ratio_den x)"

definition f64_round_u64 :: "f64 \<Rightarrow> u64" where
  "f64_round_u64 x = (if f64_round x < 2 ^ 64 then of_nat (f64_round x) else - 1)"

text \<open>Doubles are ordered by their value.\<close>

instantiation f64 :: preorder
begin

definition less_eq_f64 :: "f64 \<Rightarrow> f64 \<Rightarrow> bool" where "x \<le> y \<longleftrightarrow> f64_value x \<le> f64_value y"
definition less_f64 :: "f64 \<Rightarrow> f64 \<Rightarrow> bool" where "x < y \<longleftrightarrow> f64_value x < f64_value y"

instance by standard (auto simp: less_eq_f64_def less_f64_def)

end

section \<open>The error of rounding\<close>

lemma ratio_den_pos [simp]: "0 < ratio_den x"
  by (simp add: ratio_den_def)

lemma round_half_even_error:
  assumes "0 < q"
  shows "2 * q * round_half_even p q \<le> 2 * p + q \<and> 2 * p \<le> 2 * q * round_half_even p q + q"
proof -
  let ?d = "p div q" and ?r = "p mod q"
  have p: "2 * q * ?d + 2 * ?r = 2 * p"
    by (metis add_mult_distrib2 mult.assoc mult_div_mod_eq)
  have r: "?r < q" using assms by simp
  show ?thesis
  proof (cases "2 * ?r < q \<or> (2 * ?r = q \<and> even ?d)")
    case True
    then have d: "round_half_even p q = ?d" by (auto simp: round_half_even_def Let_def)
    have "2 * ?r \<le> q" using True by auto
    then show ?thesis unfolding d using p by (intro conjI) linarith+
  next
    case False
    then have d: "round_half_even p q = ?d + 1" by (auto simp: round_half_even_def Let_def)
    have "q \<le> 2 * ?r" using False by auto
    moreover have "2 * q * (?d + 1) = 2 * q * ?d + 2 * q" by (simp add: algebra_simps)
    ultimately show ?thesis unfolding d using p r by (intro conjI) linarith+
  qed
qed

lemma round_half_even_exact: "0 < q \<Longrightarrow> round_half_even (n * q) q = n"
  by (simp add: round_half_even_def)

lemma scaled_num_Suc: "scaled_num p e * scaled_den q (e + 1) = 2 * (scaled_num p (e + 1) * scaled_den q e)"
proof (cases "0 \<le> e")
  case True
  then have "nat (- e) = 0" "nat (- (e + 1)) = 0" "nat (e + 1) = Suc (nat e)" by simp_all
  then show ?thesis by (simp add: scaled_num_def scaled_den_def)
next
  case False
  then have "nat e = 0" "nat (e + 1) = 0" "nat (- e) = Suc (nat (- (e + 1)))" by simp_all
  then show ?thesis by (simp add: scaled_num_def scaled_den_def)
qed

lemma scaled_den_pos: "0 < q \<Longrightarrow> 0 < scaled_den q e"
  by (simp add: scaled_den_def)

lemma scaled_bounds:
  assumes "0 < p" and "0 < q" and e: "e = int (floorlog 2 p) - int (floorlog 2 q) - 53"
  shows "2 ^ 52 * scaled_den q e \<le> scaled_num p e \<and> scaled_num p e < 2 ^ 54 * scaled_den q e"
proof -
  let ?lp = "floorlog 2 p" and ?lq = "floorlog 2 q"
  have p: "2 ^ (?lp - 1) \<le> p" "p < 2 ^ ?lp" and q: "2 ^ (?lq - 1) \<le> q" "q < 2 ^ ?lq"
    using floorlog_bounds [of p 2] floorlog_bounds [of q 2] assms by auto
  have pos: "0 < ?lp" "0 < ?lq" using assms by (auto simp: floorlog_eq_zero_iff intro!: gr0I)
  have exps: "52 + ?lq + nat e \<le> ?lp - 1 + nat (- e)" "?lp + nat (- e) \<le> 54 + (?lq - 1) + nat e"
    using e pos by linarith+
  have "2 ^ 52 * (q * 2 ^ nat e) \<le> 2 ^ 52 * (2 ^ ?lq * 2 ^ nat e)"
    using q(2) by (intro mult_le_mono) auto
  also have "\<dots> = (2::nat) ^ (52 + ?lq + nat e)" by (simp add: power_add)
  also have "\<dots> \<le> 2 ^ (?lp - 1 + nat (- e))" by (rule power_increasing [OF exps(1)]) simp
  also have "\<dots> = 2 ^ (?lp - 1) * 2 ^ nat (- e)" by (rule power_add)
  also have "\<dots> \<le> p * 2 ^ nat (- e)" using p(1) by (rule mult_le_mono1)
  finally have lower: "2 ^ 52 * (q * 2 ^ nat e) \<le> p * 2 ^ nat (- e)" .
  have "p * 2 ^ nat (- e) < 2 ^ ?lp * 2 ^ nat (- e)" using p(2) by simp
  also have "\<dots> = (2::nat) ^ (?lp + nat (- e))" by (simp add: power_add)
  also have "\<dots> \<le> 2 ^ (54 + (?lq - 1) + nat e)" by (rule power_increasing [OF exps(2)]) simp
  also have "\<dots> = 2 ^ 54 * (2 ^ (?lq - 1) * 2 ^ nat e)" by (simp add: power_add)
  also have "\<dots> \<le> 2 ^ 54 * (q * 2 ^ nat e)" using q(1) by (intro mult_le_mono) auto
  finally show ?thesis using lower by (simp add: scaled_num_def scaled_den_def)
qed

lemma round_exponent_bounds:
  assumes "0 < p" and "0 < q" and "e = round_exponent p q"
  shows "2 ^ 52 * scaled_den q e \<le> scaled_num p e \<and> scaled_num p e < 2 ^ 53 * scaled_den q e"
proof -
  let ?e = "int (floorlog 2 p) - int (floorlog 2 q) - 53"
  note b = scaled_bounds [OF assms(1,2) refl]
  show ?thesis
  proof (cases "scaled_num p ?e < 2 ^ 53 * scaled_den q ?e")
    case True
    then show ?thesis using b assms(3) by (simp add: round_exponent_def Let_def)
  next
    case False
    then have e: "e = ?e + 1" using assms(3) by (simp add: round_exponent_def Let_def)
    let ?n = "scaled_num p ?e" and ?d = "scaled_den q ?e" and ?n' = "scaled_num p e" and ?d' = "scaled_den q e"
    have step: "?n * ?d' = 2 * (?n' * ?d)" unfolding e by (rule scaled_num_Suc)
    have pos: "0 < ?d" "0 < ?d'" using scaled_den_pos assms(2) by blast+
    have "(2 ^ 53 * ?d) * ?d' \<le> ?n * ?d'" using False by (intro mult_le_mono1) simp
    then have lower: "(2 ^ 52 * ?d') * ?d \<le> ?n' * ?d" unfolding step by simp
    have "?n * ?d' < (2 ^ 54 * ?d) * ?d'" using b pos by (intro mult_strict_right_mono) auto
    then have upper: "?n' * ?d < (2 ^ 53 * ?d') * ?d" unfolding step by simp
    show ?thesis
      using lower upper pos(1) by (simp only: mult_le_cancel2 mult_less_cancel2)
  qed
qed

lemma f64_value_F64: "f64_value (F64 m e) = of_nat m * 2 powi e"
proof (cases "0 \<le> e")
  case True
  then have "nat (- e) = 0" by simp
  then show ?thesis using True by (simp add: f64_value_def ratio_num_def ratio_den_def power_int_def)
next
  case False
  then have "nat e = 0" by simp
  then show ?thesis
    using False by (simp add: f64_value_def ratio_num_def ratio_den_def power_int_def inverse_eq_divide power_one_over)
qed

lemma scaled_ratio:
  assumes "0 < q"
  shows "(of_nat p / of_nat q :: rat) = of_nat (scaled_num p e) / of_nat (scaled_den q e) * 2 powi e"
proof (cases "0 \<le> e")
  case True
  then have "nat (- e) = 0" by simp
  then show ?thesis using True by (simp add: scaled_num_def scaled_den_def power_int_def)
next
  case False
  then have "nat e = 0" by simp
  then show ?thesis
    using False by (simp add: scaled_num_def scaled_den_def power_int_def inverse_eq_divide power_one_over)
qed

text \<open>The exponent is the only one that leaves 53 bits, which evaluates the rounding of given numbers.\<close>

lemma round_exponent_unique:
  assumes "0 < q" and "2 ^ 52 * scaled_den q a \<le> scaled_num p a" and "scaled_num p b < 2 ^ 53 * scaled_den q b"
  shows "a \<le> b"
proof (rule ccontr)
  assume "\<not> a \<le> b"
  then have "(2 powi (b + 1) :: rat) \<le> 2 powi a" by (intro power_int_increasing) simp_all
  then have powi: "(2 ^ 53 * 2 powi b :: rat) \<le> 2 ^ 52 * 2 powi a" by (simp add: power_int_add)
  have pos: "(0 :: rat) < of_nat (scaled_den q a)" "(0 :: rat) < of_nat (scaled_den q b)"
    using scaled_den_pos [OF assms(1)] by (simp_all only: of_nat_0_less_iff)
  have "(of_nat (2 ^ 52 * scaled_den q a) :: rat) \<le> of_nat (scaled_num p a)"
    "(of_nat (scaled_num p b) :: rat) < of_nat (2 ^ 53 * scaled_den q b)"
    using assms by (simp_all only: of_nat_le_iff of_nat_less_iff)
  then have bounds: "(2 ^ 52 :: rat) \<le> of_nat (scaled_num p a) / of_nat (scaled_den q a)"
    "of_nat (scaled_num p b) / of_nat (scaled_den q b) < (2 ^ 53 :: rat)"
    using pos by (simp_all add: field_simps)
  have "(2 ^ 52 * 2 powi a :: rat) \<le> of_nat p / of_nat q"
    unfolding scaled_ratio [OF assms(1), of p a] by (rule mult_right_mono [OF bounds(1)]) simp
  also have "\<dots> < (2 ^ 53 * 2 powi b :: rat)"
    unfolding scaled_ratio [OF assms(1), of p b] by (rule mult_strict_right_mono [OF bounds(2)]) simp
  finally show False using powi by simp
qed

lemma f64_of_ratio_eval:
  assumes "0 < p" and "0 < q"
    and "2 ^ 52 * scaled_den q e \<le> scaled_num p e" and "scaled_num p e < 2 ^ 53 * scaled_den q e"
  shows "f64_of_ratio p q =
    (let m = round_half_even (scaled_num p e) (scaled_den q e)
     in if m = 2 ^ 53 then F64 (2 ^ 52) (e + 1) else F64 m e)"
proof -
  have "round_exponent p q = e"
    using round_exponent_bounds [OF assms(1,2) refl] assms
    by (intro antisym; intro round_exponent_unique [OF assms(2)]) blast+
  then show ?thesis using assms(1) by (simp add: f64_of_ratio_def)
qed

text \<open>A result differs from the exact one by at most its share \<open>2 ^ -53\<close>.\<close>

theorem rounding_error:
  assumes "0 < q"
  shows "\<bar>f64_value (f64_of_ratio p q) - of_nat p / of_nat q\<bar> \<le> of_nat p / of_nat q / 2 ^ 53"
proof (cases "p = 0")
  case True
  then show ?thesis by (simp add: f64_of_ratio_def f64_value_F64)
next
  case False
  define e where "e = round_exponent p q"
  define n d where "n = scaled_num p e" and "d = scaled_den q e"
  define m where "m = round_half_even n d"
  have d: "0 < d" using scaled_den_pos assms by (simp add: d_def)
  have lower: "2 ^ 52 * d \<le> n"
    using round_exponent_bounds [OF _ assms e_def] False by (simp add: n_def d_def)
  have val: "f64_value (f64_of_ratio p q) = of_nat m * 2 powi e"
  proof (cases "m = 2 ^ 53")
    case True
    have "(of_nat (2 ^ 52) * 2 powi (e + 1) :: rat) = of_nat (2 ^ 53) * 2 powi e"
      by (simp add: power_int_add)
    then show ?thesis using False True
      by (simp add: f64_of_ratio_def Let_def f64_value_F64 flip: e_def n_def d_def m_def)
  next
    case m: False
    then show ?thesis using False
      by (simp add: f64_of_ratio_def Let_def f64_value_F64 flip: e_def n_def d_def m_def)
  qed
  have exact: "(of_nat p / of_nat q :: rat) = of_nat n / of_nat d * 2 powi e"
    unfolding n_def d_def by (rule scaled_ratio [OF assms])
  have err: "2 * d * m \<le> 2 * n + d" "2 * n \<le> 2 * d * m + d"
    using round_half_even_error [OF d, of n] by (simp_all add: m_def)
  have "\<bar>of_nat m - of_nat n / of_nat d\<bar> \<le> (1 / 2 :: rat)"
  proof -
    have "(of_nat (2 * d * m) :: rat) \<le> of_nat (2 * n + d)" "(of_nat (2 * n) :: rat) \<le> of_nat (2 * d * m + d)"
      using err by (simp_all only: of_nat_le_iff)
    then have "of_nat m - of_nat n / of_nat d \<le> (1 / 2 :: rat)" "of_nat n / of_nat d - of_nat m \<le> (1 / 2 :: rat)"
      using d by (simp_all add: field_simps)
    then show ?thesis by linarith
  qed
  also have "\<dots> \<le> of_nat n / of_nat d / 2 ^ 53"
  proof -
    have "(of_nat (2 ^ 52 * d) :: rat) \<le> of_nat n" using lower by (simp only: of_nat_le_iff)
    then show ?thesis using d by (simp add: field_simps)
  qed
  finally have "\<bar>of_nat m - of_nat n / of_nat d\<bar> * (2 powi e :: rat) \<le> of_nat n / of_nat d / 2 ^ 53 * 2 powi e"
    by (rule mult_right_mono) simp
  moreover have "\<bar>of_nat m - of_nat n / of_nat d\<bar> * (2 powi e :: rat) =
      \<bar>of_nat m * 2 powi e - of_nat n / of_nat d * 2 powi e\<bar>"
    by (simp only: left_diff_distrib [symmetric] abs_mult) simp
  ultimately show ?thesis using val exact by simp
qed

lemma f64_value_nonneg [simp]: "0 \<le> f64_value x"
  by (simp add: f64_value_def)

text \<open>The exact results of the operations.\<close>

definition near :: "rat \<Rightarrow> rat \<Rightarrow> bool" where
  "near a x = (\<bar>a - x\<bar> \<le> x / 2 ^ 53)"

lemma near_ratio: "0 < q \<Longrightarrow> near (f64_value (f64_of_ratio p q)) (of_nat p / of_nat q)"
  unfolding near_def by (rule rounding_error)

lemma near_of_nat: "near (f64_value (f64_of_nat n)) (of_nat n)"
  using near_ratio [of 1 n] by (simp add: f64_of_nat_def)

lemma near_le: "near a x \<Longrightarrow> x \<le> b \<Longrightarrow> \<bar>a - x\<bar> \<le> b / 2 ^ 53"
  unfolding near_def by (erule order_trans) (simp add: divide_right_mono)

text \<open>Errors add up.\<close>

lemma abs_error_trans: "\<bar>z - w\<bar> \<le> e \<Longrightarrow> \<bar>w - v\<bar> \<le> d \<Longrightarrow> \<bar>z - v\<bar> \<le> e + (d :: rat)"
  by linarith

lemma abs_error_bound: "\<bar>z - w\<bar> \<le> e \<Longrightarrow> w \<le> b \<Longrightarrow> z \<le> b + (e :: rat)"
  by linarith

text \<open>Integers of at most 53 bits are doubles.\<close>

lemma f64_value_of_nat: "n < 2 ^ 53 \<Longrightarrow> f64_value (f64_of_nat n) = of_nat n"
proof (cases "n = 0")
  case True
  then show ?thesis by (simp add: f64_of_nat_def f64_of_ratio_def f64_value_F64)
next
  case False
  assume n: "n < 2 ^ 53"
  define e where "e = round_exponent n 1"
  note b = round_exponent_bounds [of n 1, OF _ _ e_def]
  have "e \<le> 0"
  proof (rule ccontr)
    assume "\<not> e \<le> 0"
    then have "2 ^ 52 * 2 ^ nat e \<le> n"
      using b False by (simp add: scaled_num_def scaled_den_def)
    moreover have "(2::nat) ^ 1 \<le> 2 ^ nat e" using \<open>\<not> e \<le> 0\<close> by (intro power_increasing) auto
    ultimately show False using n by simp
  qed
  then have den: "scaled_den 1 e = 1" and num: "scaled_num n e = n * 2 ^ nat (- e)"
    by (simp_all add: scaled_den_def scaled_num_def)
  have "round_half_even (scaled_num n e) 1 = scaled_num n e"
    by (simp add: round_half_even_def)
  moreover have "scaled_num n e \<noteq> 2 ^ 53" using b False den by auto
  ultimately have "f64_of_nat n = F64 (scaled_num n e) e"
    using False den unfolding f64_of_nat_def f64_of_ratio_def e_def [symmetric] Let_def by simp
  then show ?thesis using \<open>e \<le> 0\<close> num
    by (cases "e = 0") (simp_all add: f64_value_F64 power_int_def flip: power_mult_distrib)
qed

lemma near_times: "near (f64_value (x * y)) (f64_value x * f64_value y)"
  using near_ratio [of "ratio_den x * ratio_den y" "ratio_num x * ratio_num y"]
  by (simp add: times_f64_def f64_value_def)

lemma near_divide: "0 < ratio_num y \<Longrightarrow> near (f64_value (x div y)) (f64_value x / f64_value y)"
  using near_ratio [of "ratio_den x * ratio_num y" "ratio_num x * ratio_den y"]
  by (simp add: divide_f64_def f64_value_def)

lemma near_mul_add: "near (f64_value (f64_mul_add x a b)) (f64_value x * f64_value a + f64_value b)"
proof -
  have "f64_value x * f64_value a + f64_value b =
      of_nat (ratio_num x * ratio_num a * ratio_den b + ratio_num b * (ratio_den x * ratio_den a)) /
      of_nat (ratio_den x * ratio_den a * ratio_den b)"
    by (simp add: f64_value_def add_frac_eq)
  then show ?thesis by (simp only: f64_mul_add_def) (rule near_ratio, simp)
qed

lemma f64_value_pos: "0 < f64_value x \<longleftrightarrow> 0 < ratio_num x"
  by (simp add: f64_value_def zero_less_divide_iff)

text \<open>Rounding to an integer is off by at most one half.\<close>

lemma f64_round_error: "\<bar>of_nat (f64_round x) - f64_value x\<bar> \<le> 1 / 2"
proof -
  let ?n = "ratio_num x" and ?d = "ratio_den x" and ?r = "f64_round x"
  let ?m = "(2 * ?n + ?d) mod (2 * ?d)"
  have "2 * ?d * ?r + ?m = 2 * ?n + ?d" unfolding f64_round_def by (rule mult_div_mod_eq)
  moreover have "?m < 2 * ?d" by simp
  ultimately have "2 * ?d * ?r \<le> 2 * ?n + ?d" "2 * ?n \<le> 2 * ?d * ?r + ?d" by linarith+
  then have "(of_nat (2 * ?d * ?r) :: rat) \<le> of_nat (2 * ?n + ?d)"
    "(of_nat (2 * ?n) :: rat) \<le> of_nat (2 * ?d * ?r + ?d)" by (simp_all only: of_nat_le_iff)
  then have "of_nat ?r - f64_value x \<le> 1 / 2" "f64_value x - of_nat ?r \<le> 1 / 2"
    using ratio_den_pos [of x] by (simp_all add: f64_value_def field_simps)
  then show ?thesis by linarith
qed

lemma f64_round_unique:
  assumes "of_nat n - 1 / 2 < f64_value x" and "f64_value x < of_nat n + 1 / 2"
  shows "f64_round x = n"
proof -
  have "(of_nat (f64_round x) :: rat) < of_nat (n + 1)" "(of_nat n :: rat) < of_nat (f64_round x + 1)"
    using f64_round_error [of x] assms unfolding of_nat_add by linarith+
  then show ?thesis by (simp only: of_nat_less_iff)
qed

lemma unat_f64_round_u64: "unat (f64_round_u64 x) = min (f64_round x) (2 ^ 64 - 1)"
  by (auto simp: f64_round_u64_def unat_of_nat take_bit_nat_eq_self unat_minus_one_word)

end
