(* ===== verification/Compression.thy ===== *)
theory Compression
  imports Float64 Batch Transitions
begin

text \<open>
  Compression, \<open>crates/primitives/src/compression/\<close>: the running estimate of the compression ratio in
  \<open>estimate.rs\<close>, kept in basis points in a global atomic and updated with doubles, and the compression of
  \<open>mod.rs\<close>, where RLP and zlib are parameters. \<open>wei_to_eth\<close> of \<open>crates/primitives/src/lib.rs\<close> is here
  too, the other place where the program computes with doubles.
\<close>

section \<open>The estimate\<close>

definition INITIAL_RATIO_BPS :: u64 where "INITIAL_RATIO_BPS = 6800"

text \<open>The literals \<open>0.99\<close> and \<open>1.0 - DECAY\<close>, and \<open>10_000.0\<close>.\<close>

definition DECAY :: f64 where "DECAY = f64_of_ratio 99 100"
definition ALPHA :: f64 where "ALPHA = f64_of_nat 1 - DECAY"
definition BPS :: f64 where "BPS = f64_of_nat 10000"

definition estimate_get :: "u64 \<Rightarrow> usize \<Rightarrow> usize" where
  "estimate_get estimate_bps uncompressed =
     (let bps = f64_of_nat (unat estimate_bps)
      in unat (f64_round_u64 (f64_of_nat uncompressed * (bps div BPS))))"

definition sample_bps :: "usize \<Rightarrow> usize \<Rightarrow> f64" where
  "sample_bps uncompressed_size compressed_size =
     f64_of_nat compressed_size div f64_of_nat uncompressed_size * BPS"

text \<open>The closure of \<open>fetch_update\<close>.\<close>

definition ewma :: "f64 \<Rightarrow> u64 \<Rightarrow> u64" where
  "ewma new_bps_f old = f64_round_u64 (f64_mul_add DECAY (f64_of_nat (unat old)) (ALPHA * new_bps_f))"

definition estimate_update :: "usize \<Rightarrow> usize \<Rightarrow> u64 \<Rightarrow> u64" where
  "estimate_update uncompressed_size compressed_size estimate_bps =
     (if uncompressed_size = 0 then estimate_bps
      else
        let new_bps_f = sample_bps uncompressed_size compressed_size;
            new_bps = f64_round_u64 new_bps_f
        in if estimate_bps = INITIAL_RATIO_BPS then new_bps else ewma new_bps_f estimate_bps)"

definition current_average :: "u64 \<Rightarrow> f64" where
  "current_average estimate_bps = f64_of_nat (unat estimate_bps) div BPS"

definition estimate_clear :: "u64 \<Rightarrow> u64" where "estimate_clear estimate_bps = INITIAL_RATIO_BPS"

text \<open>
  Two threads can update at once: \<open>update\<close> loads the estimate, and stores or applies the average later, on
  the value of that moment.
\<close>

definition update_loaded :: "u64 \<Rightarrow> usize \<Rightarrow> usize \<Rightarrow> u64 \<Rightarrow> u64" where
  "update_loaded loaded uncompressed_size compressed_size estimate_bps =
     (let new_bps_f = sample_bps uncompressed_size compressed_size
      in if loaded = INITIAL_RATIO_BPS then f64_round_u64 new_bps_f else ewma new_bps_f estimate_bps)"

section \<open>Compressing\<close>

text \<open>\<open>rlp\<close> encodes, \<open>zlib\<close> compresses; compressing can fail.\<close>

definition zlib_compress :: "(bytes \<Rightarrow> 'e + bytes) \<Rightarrow> bytes \<Rightarrow> 'e + bytes" where
  "zlib_compress zlib input = zlib input"

definition rlp_encode_and_compress :: "('b \<Rightarrow> bytes) \<Rightarrow> (bytes \<Rightarrow> 'e + bytes) \<Rightarrow> 'b \<Rightarrow> 'e + bytes" where
  "rlp_encode_and_compress rlp zlib b = zlib_compress zlib (rlp b)"

text \<open>What the background task sends: the size, and 0 when compressing fails.\<close>

definition rlp_encode_and_compress_in_background ::
  "('b \<Rightarrow> bytes) \<Rightarrow> (bytes \<Rightarrow> 'e + bytes) \<Rightarrow> 'b \<Rightarrow> usize" where
  "rlp_encode_and_compress_in_background rlp zlib b =
     (case zlib_compress zlib (rlp b) of Inr compressed \<Rightarrow> length compressed | Inl e \<Rightarrow> 0)"

text \<open>\<open>Batch::trigger_compression\<close>, of the transaction lists of the blocks.\<close>

definition trigger_compression :: "(tx_envelope list list \<Rightarrow> bytes) \<Rightarrow> (bytes \<Rightarrow> 'e + bytes) \<Rightarrow> batch \<Rightarrow> usize" where
  "trigger_compression rlp zlib b = rlp_encode_and_compress_in_background rlp zlib (map tx_list (blocks b))"

section \<open>Balances\<close>

definition GWEI_TO_WEI :: u256 where "GWEI_TO_WEI = 1000000000"
definition GWEI_IN_ETH :: f64 where "GWEI_IN_ETH = f64_of_ratio 1 1000000000"
definition F64_REPRESENTATION_THRESHOLD :: u64 where "F64_REPRESENTATION_THRESHOLD = push_bit 53 1"

definition wei_to_eth :: "u256 \<Rightarrow> f64" where
  "wei_to_eth balance =
     (let balance_in_gwei = balance div GWEI_TO_WEI
      in if balance_in_gwei = 0 then f64_of_nat 0
         else if balance_in_gwei > ucast F64_REPRESENTATION_THRESHOLD then f64_of_ratio 9007199254740992 1000000000
         else f64_of_nat (unat (ucast balance_in_gwei :: u64)) * GWEI_IN_ETH)"

text \<open>The balances of the operator that a background task shows, when both requests succeed.\<close>

definition update_token_balances :: "'e + u256 \<Rightarrow> 'c + u256 \<Rightarrow> (f64 \<times> f64) option" where
  "update_token_balances eth tko =
     (case (eth, tko) of
        (Inr eth_wei, Inr tko_wei) \<Rightarrow> Some (wei_to_eth eth_wei, wei_to_eth tko_wei)
      | _ \<Rightarrow> None)"

section \<open>Lemmas\<close>

text \<open>The constants as the compiler rounds them. Their sum is exactly one.\<close>

lemma DECAY_eq: "DECAY = F64 8917127262193582 (- 53)"
  unfolding DECAY_def
  by (subst f64_of_ratio_eval [of _ _ "- 53"]) (simp_all add: scaled_num_def scaled_den_def round_half_even_def)

lemma one_eq: "f64_of_nat 1 = F64 (2 ^ 52) (- 52)"
  unfolding f64_of_nat_def
  by (subst f64_of_ratio_eval [of _ _ "- 52"]) (simp_all add: scaled_num_def scaled_den_def round_half_even_def)

lemma BPS_eq: "BPS = F64 5497558138880000 (- 39)"
  unfolding BPS_def f64_of_nat_def
  by (subst f64_of_ratio_eval [of _ _ "- 39"]) (simp_all add: scaled_num_def scaled_den_def round_half_even_def)

lemma ALPHA_eq: "ALPHA = F64 5764607523034240 (- 59)"
  unfolding ALPHA_def one_eq DECAY_eq minus_f64_def ratio_num_def ratio_den_def
  by (subst f64_of_ratio_eval [of _ _ "- 59"]) (simp_all add: scaled_num_def scaled_den_def round_half_even_def)

lemma constant_values:
  "f64_value DECAY + f64_value ALPHA = 1" "99 / 100 - 1 / 1000000 < f64_value DECAY"
  "f64_value DECAY < 99 / 100 + 1 / 1000000" "f64_value BPS = 10000"
  by (simp_all add: DECAY_eq ALPHA_eq BPS_eq f64_value_def ratio_num_def ratio_den_def)

text \<open>The sample as the program computes it, against the exact ratio.\<close>

lemma sample_error:
  assumes "0 < u" and "u < 2 ^ 53" and "c < 2 ^ 53" and "10000 * c \<le> 2 ^ 40 * u"
  shows "\<bar>f64_value (sample_bps u c) - 10000 * of_nat c / of_nat u\<bar> \<le> 1 / 1000"
proof -
  let ?d = "f64_of_nat c div f64_of_nat u" and ?X = "10000 * of_nat c / of_nat u :: rat"
  have pos: "(0 :: rat) < of_nat u" using assms(1) by simp
  have "(of_nat (10000 * c) :: rat) \<le> of_nat (2 ^ 40 * u)" using assms(4) by (simp only: of_nat_le_iff)
  then have X: "?X \<le> 2 ^ 40" using pos by (simp add: field_simps)
  have u: "f64_value (f64_of_nat u) = of_nat u" and c: "f64_value (f64_of_nat c) = of_nat c"
    using assms by (simp_all add: f64_value_of_nat)
  then have "0 < ratio_num (f64_of_nat u)" using pos by (simp flip: f64_value_pos)
  from near_divide [OF this, of "f64_of_nat c"] have "near (f64_value ?d) (of_nat c / of_nat u)" by (simp add: u c)
  from near_le [OF this, of "2 ^ 40 / 10000"] X
  have d: "\<bar>f64_value ?d - of_nat c / of_nat u\<bar> \<le> 2 ^ 40 / 10000 / 2 ^ 53" by simp
  have "near (f64_value (sample_bps u c)) (f64_value ?d * 10000)"
    using near_times [of ?d BPS] by (simp add: sample_bps_def constant_values)
  moreover have scaled: "\<bar>f64_value ?d * 10000 - ?X\<bar> \<le> 2 ^ 40 / 2 ^ 53"
  proof -
    have "f64_value ?d * 10000 - ?X = (f64_value ?d - of_nat c / of_nat u) * 10000" by (simp add: field_simps)
    then have "\<bar>f64_value ?d * 10000 - ?X\<bar> = \<bar>f64_value ?d - of_nat c / of_nat u\<bar> * 10000" by (simp only: abs_mult abs_numeral)
    then show ?thesis using d by simp
  qed
  ultimately have "\<bar>f64_value (sample_bps u c) - f64_value ?d * 10000\<bar> \<le> (2 ^ 40 + 2 ^ 40 / 2 ^ 53) / 2 ^ 53"
    using near_le abs_error_bound [OF scaled X] by blast
  from abs_error_trans [OF this scaled] show ?thesis by simp
qed

text \<open>The average as the program computes it, against the exact one.\<close>

lemma ewma_error:
  assumes "k \<le> 2 ^ 40" and "f64_value x \<le> 2 ^ 41"
  shows "\<bar>f64_value (f64_mul_add DECAY (f64_of_nat k) (ALPHA * x)) -
    (f64_value DECAY * of_nat k + f64_value ALPHA * f64_value x)\<bar> \<le> 1 / 400"
proof -
  let ?a = "of_nat k :: rat" and ?y = "f64_value (ALPHA * x)"
  have "(of_nat k :: rat) \<le> of_nat (2 ^ 40)" using assms(1) by (simp only: of_nat_le_iff)
  then have a: "?a \<le> 2 ^ 40" "f64_value (f64_of_nat k) = ?a"
    using assms(1) by (simp_all add: f64_value_of_nat)
  have D: "0 \<le> f64_value DECAY" "f64_value DECAY \<le> 1" and A: "0 \<le> f64_value ALPHA" "f64_value ALPHA \<le> 1"
    using constant_values by auto
  have Ax: "f64_value ALPHA * f64_value x \<le> 2 ^ 41"
    using mult_mono [OF A(2) assms(2)] by simp
  have Da: "f64_value DECAY * ?a \<le> 2 ^ 40"
    using mult_left_le_one_le [OF _ D, of ?a] a(1) by simp
  have y: "\<bar>?y - f64_value ALPHA * f64_value x\<bar> \<le> 2 ^ 41 / 2 ^ 53"
    by (rule near_le [OF near_times Ax])
  have "?y \<le> 2 ^ 41 + 2 ^ 41 / 2 ^ 53" by (rule abs_error_bound [OF y Ax])
  then have upper: "f64_value DECAY * ?a + ?y \<le> 2 ^ 43" using Da by simp
  have "near (f64_value (f64_mul_add DECAY (f64_of_nat k) (ALPHA * x))) (f64_value DECAY * ?a + ?y)"
    using near_mul_add [of DECAY "f64_of_nat k" "ALPHA * x"] by (simp only: a(2))
  then have "\<bar>f64_value (f64_mul_add DECAY (f64_of_nat k) (ALPHA * x)) - (f64_value DECAY * ?a + ?y)\<bar> \<le> 2 ^ 43 / 2 ^ 53"
    using upper by (rule near_le)
  moreover have "\<bar>f64_value DECAY * ?a + ?y - (f64_value DECAY * ?a + f64_value ALPHA * f64_value x)\<bar> \<le> 2 ^ 41 / 2 ^ 53"
    using y by simp
  ultimately show ?thesis by (rule order_trans [OF abs_error_trans]) simp
qed

lemma ewma_value:
  assumes "\<bar>f64_value (f64_mul_add DECAY (f64_of_nat (unat old)) (ALPHA * x)) - of_nat n\<bar> < 1 / 2"
  shows "unat (ewma x old) = min n (2 ^ 64 - 1)"
proof -
  have "f64_round (f64_mul_add DECAY (f64_of_nat (unat old)) (ALPHA * x)) = n"
    using assms by (intro f64_round_unique) linarith+
  then show ?thesis by (simp add: ewma_def unat_f64_round_u64)
qed

text \<open>A sample within 49 basis points of the estimate does not move it.\<close>

lemma ewma_sticks:
  assumes "unat old \<le> 2 ^ 40" and "\<bar>f64_value x - of_nat (unat old)\<bar> \<le> 49"
  shows "ewma x old = old"
proof -
  define k where "k = unat old"
  let ?a = "of_nat k :: rat" and ?A = "f64_value ALPHA"
  have k: "k \<le> 2 ^ 40" and dist: "\<bar>f64_value x - ?a\<bar> \<le> 49" using assms by (simp_all add: k_def del: of_nat_unat)
  have "(of_nat k :: rat) \<le> of_nat (2 ^ 40)" using k by (simp only: of_nat_le_iff)
  then have "f64_value x \<le> 2 ^ 41" using dist by (simp add: abs_le_iff)
  note err = ewma_error [OF k this]
  have A: "0 \<le> ?A" "?A \<le> 101 / 10000" using constant_values by auto
  have "f64_value DECAY * ?a + ?A * f64_value x = (f64_value DECAY + ?A) * ?a + ?A * (f64_value x - ?a)"
    by (simp add: algebra_simps)
  then have avg: "f64_value DECAY * ?a + ?A * f64_value x = ?a + ?A * (f64_value x - ?a)"
    by (simp add: constant_values(1))
  have "\<bar>?A * (f64_value x - ?a)\<bar> \<le> 101 / 10000 * 49"
    unfolding abs_mult using A dist by (intro mult_mono) auto
  then have "\<bar>(f64_value DECAY * ?a + ?A * f64_value x) - ?a\<bar> \<le> 101 / 10000 * 49" by (simp add: avg)
  from abs_error_trans [OF err this] have "unat (ewma x old) = min k (2 ^ 64 - 1)"
    unfolding k_def by (intro ewma_value) (erule order_le_less_trans, simp)
  moreover have "unat old < 2 ^ 64" using unat_lt_power [of old] by simp
  ultimately show ?thesis by (intro unat_inj) (simp add: k_def)
qed

text \<open>The average lies between the estimate and the rounded sample.\<close>

lemma ewma_between:
  assumes "unat old \<le> 2 ^ 40" and "f64_value x \<le> 2 ^ 41"
  shows "min old (f64_round_u64 x) \<le> ewma x old \<and> ewma x old \<le> max old (f64_round_u64 x)"
proof -
  define k where "k = unat old"
  let ?D = "f64_value DECAY" and ?A = "f64_value ALPHA"
  let ?n = "f64_round x" and ?z = "f64_mul_add DECAY (f64_of_nat k) (ALPHA * x)"
  let ?avg = "?D * of_nat k + ?A * f64_value x"
  have k: "k \<le> 2 ^ 40" "k < 2 ^ 64" using assms unat_lt_power [of old] by (simp_all add: k_def)
  have D: "0 \<le> ?D" "?D = 1 - ?A" and A: "0 \<le> ?A" "?A \<le> 1 / 50" using constant_values by auto
  have n: "of_nat ?n - 1 / 2 \<le> f64_value x" "f64_value x \<le> of_nat ?n + 1 / 2"
    using f64_round_error [of x] by linarith+
  have err: "\<bar>f64_value ?z - ?avg\<bar> \<le> 1 / 400" by (rule ewma_error [OF k(1) assms(2)])
  have r: "\<bar>of_nat (f64_round ?z) - f64_value ?z\<bar> \<le> 1 / 2" by (rule f64_round_error)
  have lower: "m \<le> f64_round ?z" if m: "m \<le> k" "m \<le> ?n" for m
  proof -
    have q: "(of_nat m :: rat) \<le> of_nat k" "(of_nat m :: rat) \<le> of_nat ?n" using m by simp_all
    then have "?D * of_nat m \<le> ?D * of_nat k" "?A * (of_nat m - 1 / 2) \<le> ?A * f64_value x"
      using D(1) A(1) n(1) by (auto intro: mult_left_mono)
    moreover have "?D * of_nat m + ?A * (of_nat m - 1 / 2) = of_nat m - ?A / 2"
      unfolding D(2) by (simp add: algebra_simps)
    ultimately have "of_nat m - 1 / 100 \<le> ?avg" using A(2) by linarith
    then have "(of_nat m :: rat) < of_nat (f64_round ?z + 1)" using err r unfolding of_nat_add by linarith
    then show ?thesis by (simp only: of_nat_less_iff)
  qed
  have upper: "f64_round ?z \<le> m" if m: "k \<le> m" "?n \<le> m" for m
  proof -
    have q: "(of_nat k :: rat) \<le> of_nat m" "(of_nat ?n :: rat) \<le> of_nat m" using m by simp_all
    then have "?D * of_nat k \<le> ?D * of_nat m" "?A * f64_value x \<le> ?A * (of_nat m + 1 / 2)"
      using D(1) A(1) n(2) by (auto intro: mult_left_mono)
    moreover have "?D * of_nat m + ?A * (of_nat m + 1 / 2) = of_nat m + ?A / 2"
      unfolding D(2) by (simp add: algebra_simps)
    ultimately have "?avg \<le> of_nat m + 1 / 100" using A(2) by linarith
    then have "(of_nat (f64_round ?z) :: rat) < of_nat (m + 1)" using err r unfolding of_nat_add by linarith
    then show ?thesis by (simp only: of_nat_less_iff)
  qed
  have w: "unat (ewma x old) = min (f64_round ?z) (2 ^ 64 - 1)"
    by (simp add: ewma_def unat_f64_round_u64 k_def)
  have s: "unat (f64_round_u64 x) = min ?n (2 ^ 64 - 1)" by (rule unat_f64_round_u64)
  have "min k ?n \<le> f64_round ?z" "f64_round ?z \<le> max k ?n" by (auto intro: lower upper)
  then have "min (unat old) (unat (f64_round_u64 x)) \<le> unat (ewma x old) \<and>
      unat (ewma x old) \<le> max (unat old) (unat (f64_round_u64 x))"
    unfolding w s k_def [symmetric] using k(2) by (auto simp: min_def max_def)
  then show ?thesis by (auto simp: min_def max_def word_le_nat_alt split: if_splits)
qed

text \<open>Sizes of samples for which the doubles are precise enough.\<close>

definition sample_ok :: "usize \<Rightarrow> usize \<Rightarrow> bool" where
  "sample_ok u c = (0 < u \<and> u < 2 ^ 53 \<and> c < 2 ^ 53 \<and> c \<le> 2 ^ 20 * u)"

lemma sample_value_le: "sample_ok u c \<Longrightarrow> f64_value (sample_bps u c) \<le> 2 ^ 41"
proof -
  assume ok: "sample_ok u c"
  then have "(of_nat c :: rat) \<le> of_nat (2 ^ 20 * u)" "(0 :: rat) < of_nat u"
    by (simp_all only: sample_ok_def of_nat_le_iff of_nat_0_less_iff)
  then have X: "10000 * of_nat c / of_nat u \<le> (2 ^ 40 :: rat)" by (simp add: field_simps)
  have "\<bar>f64_value (sample_bps u c) - 10000 * of_nat c / of_nat u\<bar> \<le> 1 / 1000"
    using ok by (intro sample_error) (auto simp: sample_ok_def)
  from abs_error_bound [OF this X] show ?thesis by simp
qed

lemma sample_round:
  assumes "0 < u" and "u < 2 ^ 53" and "c < 2 ^ 53" and "n \<le> 2 ^ 39" and "10000 * c = n * u"
  shows "f64_round_u64 (sample_bps u c) = of_nat n"
proof -
  have "10000 * c \<le> 2 ^ 40 * u" using assms(4,5) by simp
  note err = sample_error [OF assms(1-3) this]
  have "(of_nat (10000 * c) :: rat) = of_nat (n * u)" using assms(5) by (simp only: of_nat_eq_iff)
  then have "10000 * of_nat c / of_nat u = (of_nat n :: rat)" using assms(1) by (simp add: field_simps)
  with err have "f64_round (sample_bps u c) = n" by (intro f64_round_unique) linarith+
  then show ?thesis using assms(4) by (simp add: f64_round_u64_def)
qed

section \<open>Updates by several threads\<close>

text \<open>
  A thread loads the estimate and applies its update later; between the two, other threads may do the same.
\<close>

record estimate_state =
  bps :: u64
  loaded :: "(u64 \<times> usize \<times> usize) list"

datatype estimate_event = Load usize usize | Apply nat

inductive estimate_step :: "estimate_state \<Rightarrow> estimate_event \<Rightarrow> estimate_state \<Rightarrow> bool" where
  load: "u \<noteq> 0 \<Longrightarrow> estimate_step s (Load u c) (s\<lparr>loaded := loaded s @ [(bps s, u, c)]\<rparr>)"
| applied: "i < length (loaded s) \<Longrightarrow> loaded s ! i = (l, u, c) \<Longrightarrow>
    estimate_step s (Apply i)
      (s\<lparr>bps := update_loaded l u c (bps s), loaded := take i (loaded s) @ drop (Suc i) (loaded s)\<rparr>)"

inductive_cases estimate_stepE: "estimate_step s e t"

definition sample_within :: "u64 \<Rightarrow> u64 \<Rightarrow> usize \<Rightarrow> usize \<Rightarrow> bool" where
  "sample_within l h u c = (sample_ok u c \<and> f64_round_u64 (sample_bps u c) \<in> {l..h})"

definition estimate_within :: "u64 \<Rightarrow> u64 \<Rightarrow> estimate_state \<Rightarrow> bool" where
  "estimate_within l h s = (unat h \<le> 2 ^ 40 \<and> bps s \<in> {l..h} \<and> (\<forall>(b, u, c) \<in> set (loaded s). sample_within l h u c))"

fun event_within :: "u64 \<Rightarrow> u64 \<Rightarrow> estimate_event \<Rightarrow> bool" where
  "event_within l h (Load u c) = sample_within l h u c"
| "event_within l h (Apply i) = True"

lemma update_loaded_within:
  assumes "b \<in> {l..h}" and "unat h \<le> 2 ^ 40" and "sample_within l h u c"
  shows "update_loaded k u c b \<in> {l..h}"
proof (cases "k = INITIAL_RATIO_BPS")
  case True
  then show ?thesis using assms by (simp add: update_loaded_def sample_within_def)
next
  case False
  have "unat b \<le> 2 ^ 40" using assms(1,2) by (auto simp: word_le_nat_alt)
  moreover have "f64_value (sample_bps u c) \<le> 2 ^ 41"
    using assms(3) sample_value_le unfolding sample_within_def by blast
  ultimately have "min b (f64_round_u64 (sample_bps u c)) \<le> ewma (sample_bps u c) b \<and>
      ewma (sample_bps u c) b \<le> max b (f64_round_u64 (sample_bps u c))" by (rule ewma_between)
  then show ?thesis
    using assms False unfolding update_loaded_def sample_within_def Let_def
    by (auto simp: min_def max_def split: if_splits)
qed

interpretation estimate: invariant_part "limited (\<lambda>_. event_within l h) estimate_step" "estimate_within l h"
proof
  fix s e t
  assume ok: "estimate_within l h s" and "limited (\<lambda>_. event_within l h) estimate_step s e t"
  then have allowed: "event_within l h e" and step: "estimate_step s e t" by (simp_all add: limited_def)
  from step show "estimate_within l h t"
  proof (cases rule: estimate_step.cases)
    case (load u c)
    then show ?thesis using ok allowed by (auto simp: estimate_within_def)
  next
    case (applied i b u c)
    then have "(b, u, c) \<in> set (loaded s)" by (metis nth_mem)
    then have "sample_within l h u c" using ok by (auto simp: estimate_within_def)
    then have "update_loaded b u c (bps s) \<in> {l..h}"
      using ok by (intro update_loaded_within) (auto simp: estimate_within_def)
    moreover have "set (take i (loaded s) @ drop (Suc i) (loaded s)) \<subseteq> set (loaded s)"
      using set_take_subset set_drop_subset by fastforce
    ultimately show ?thesis using ok applied unfolding estimate_within_def by auto
  qed
qed

section \<open>Properties\<close>

definition example_samples :: "estimate_event list" where
  "example_samples = [Load 1000 500, Load 1000 680, Apply 0, Apply 0]"

definition example_estimate :: estimate_state where
  "example_estimate = \<lparr>bps = update_loaded 6800 1000 680 (update_loaded 6800 1000 500 6800), loaded = []\<rparr>"

lemma example_samples_run:
  "runs estimate_step \<lparr>bps = INITIAL_RATIO_BPS, loaded = []\<rparr> example_samples example_estimate"
proof -
  let ?s0 = "\<lparr>bps = INITIAL_RATIO_BPS, loaded = []\<rparr>"
  let ?s1 = "\<lparr>bps = INITIAL_RATIO_BPS, loaded = [(6800, 1000, 500)]\<rparr>"
  let ?s2 = "\<lparr>bps = INITIAL_RATIO_BPS, loaded = [(6800, 1000, 500), (6800, 1000, 680)]\<rparr>"
  let ?s3 = "\<lparr>bps = update_loaded 6800 1000 500 6800, loaded = [(6800, 1000, 680)]\<rparr>"
  have "estimate_step ?s0 (Load 1000 500) ?s1" "estimate_step ?s1 (Load 1000 680) ?s2"
    using estimate_step.load [of 1000 ?s0 500] estimate_step.load [of 1000 ?s1 680]
    by (simp_all add: INITIAL_RATIO_BPS_def)
  moreover have "estimate_step ?s2 (Apply 0) ?s3" "estimate_step ?s3 (Apply 0) example_estimate"
    using estimate_step.applied [of 0 ?s2] estimate_step.applied [of 0 ?s3]
    by (simp_all add: INITIAL_RATIO_BPS_def example_estimate_def)
  ultimately show ?thesis unfolding example_samples_def by (blast intro: runs_Cons runs_single)
qed

text \<open>
  C38. However the updates of several threads interleave, the estimate never leaves the range of the initial value
  and of the samples, although it is computed with doubles and rounded to basis points.
\<close>

theorem estimate_stays_in_range:
  assumes "runs estimate_step \<lparr>bps = INITIAL_RATIO_BPS, loaded = []\<rparr> es s"
    and "\<forall>e \<in> set es. event_within l h e"
    and "INITIAL_RATIO_BPS \<in> {l..h}" and "unat h \<le> 2 ^ 40"
  shows "bps s \<in> {l..h}"
proof -
  have "runs (limited (\<lambda>_. event_within l h) estimate_step) \<lparr>bps = INITIAL_RATIO_BPS, loaded = []\<rparr> es s"
    using assms(1,2) by (intro runs_limited) auto
  from estimate.run_good [OF this] show ?thesis using assms(3,4) by (simp add: estimate_within_def)
qed

text \<open>
  The rounding to whole basis points stops the average: a sample within 48 basis points of the estimate never
  moves it, however often it comes, so the estimate does not converge to the ratio that it is meant to follow.
\<close>

theorem estimate_has_a_dead_zone:
  assumes "sample_ok u c" and "unat old \<le> 2 ^ 40" and "old \<noteq> INITIAL_RATIO_BPS"
    and "10000 * c \<le> (unat old + 48) * u" and "unat old * u \<le> 10000 * c + 48 * u"
  shows "(estimate_update u c ^^ n) old = old"
proof -
  define k where "k = unat old"
  have pos: "(0 :: rat) < of_nat u" using assms(1) by (simp add: sample_ok_def)
  have "(of_nat (10000 * c) :: rat) \<le> of_nat ((k + 48) * u)" "(of_nat (k * u) :: rat) \<le> of_nat (10000 * c + 48 * u)"
    using assms(4,5) by (simp_all only: of_nat_le_iff k_def)
  then have "10000 * of_nat c / of_nat u \<le> (of_nat k + 48 :: rat)" "of_nat k - 48 \<le> (10000 * of_nat c / of_nat u :: rat)"
    using pos by (simp_all add: field_simps)
  then have near: "\<bar>10000 * of_nat c / of_nat u - of_nat k\<bar> \<le> (48 :: rat)" by linarith
  have "\<bar>f64_value (sample_bps u c) - 10000 * of_nat c / of_nat u\<bar> \<le> 1 / 1000"
    using assms(1) by (intro sample_error) (auto simp: sample_ok_def)
  from abs_error_trans [OF this near] have "\<bar>f64_value (sample_bps u c) - of_nat k\<bar> \<le> 49" by simp
  then have "ewma (sample_bps u c) old = old"
    unfolding k_def by (rule ewma_sticks [OF assms(2)])
  then have "estimate_update u c old = old"
    using assms(1,3) by (simp add: estimate_update_def sample_ok_def)
  then show ?thesis by (induction n) simp_all
qed

text \<open>The estimate of a size is the product with the ratio, rounded to a byte.\<close>

lemma estimate_get_error:
  assumes "u \<le> 2 ^ 32" and "unat b \<le> 2 ^ 20"
  shows "\<bar>of_nat (estimate_get b u) - of_nat (u * unat b) / 10000\<bar> \<le> (51 / 100 :: rat)"
proof -
  define k where "k = unat b"
  let ?r = "f64_of_nat k div BPS" and ?R = "of_nat k / 10000 :: rat"
  let ?z = "f64_of_nat u * ?r"
  have "(of_nat u :: rat) \<le> of_nat (2 ^ 32)" "(of_nat k :: rat) \<le> of_nat (2 ^ 20)"
    using assms by (simp_all only: of_nat_le_iff k_def)
  then have u: "(of_nat u :: rat) \<le> 2 ^ 32" and R: "?R \<le> 2 ^ 7" by simp_all
  have vals: "f64_value (f64_of_nat u) = of_nat u" "f64_value (f64_of_nat k) = of_nat k"
    using assms by (simp_all add: f64_value_of_nat k_def)
  have "0 < ratio_num BPS" by (simp add: BPS_eq ratio_num_def)
  from near_divide [OF this, of "f64_of_nat k"] have "near (f64_value ?r) ?R"
    by (simp add: vals constant_values)
  from near_le [OF this R] have r: "\<bar>f64_value ?r - ?R\<bar> \<le> 2 ^ 7 / 2 ^ 53" .
  have scaled: "\<bar>of_nat u * f64_value ?r - of_nat u * ?R\<bar> \<le> 2 ^ 32 * (2 ^ 7 / 2 ^ 53)"
    unfolding right_diff_distrib [symmetric] abs_mult using u r by (intro mult_mono) auto
  have prod: "of_nat u * ?R \<le> 2 ^ 32 * 2 ^ 7" using u R by (intro mult_mono) auto
  have "near (f64_value ?z) (of_nat u * f64_value ?r)"
    using near_times [of "f64_of_nat u" ?r] by (simp only: vals)
  note z = abs_error_trans [OF near_le [OF this abs_error_bound [OF scaled prod]] scaled]
  have zr: "\<bar>of_nat (f64_round ?z) - f64_value ?z\<bar> \<le> 1 / 2" by (rule f64_round_error)
  have err: "\<bar>of_nat (f64_round ?z) - of_nat u * ?R\<bar> \<le> 51 / 100"
    by (rule order_trans [OF abs_error_trans [OF zr z]]) simp
  have "of_nat (f64_round ?z) \<le> (2 ^ 32 * 2 ^ 7 + 51 / 100 :: rat)" by (rule abs_error_bound [OF err prod])
  then have "(of_nat (f64_round ?z) :: rat) \<le> of_nat (2 ^ 63)" by simp
  then have "f64_round ?z \<le> 2 ^ 63" by (simp only: of_nat_le_iff)
  then have "estimate_get b u = f64_round ?z"
    by (simp add: estimate_get_def unat_f64_round_u64 k_def)
  then show ?thesis using err by (simp add: k_def)
qed

text \<open>
  What the batch expects of an estimate: while the ratio is at most one, nothing is estimated larger than it is.
  Then a block that fits without compression is never turned away for its size.
\<close>

locale size_estimator =
  fixes est :: "'s \<Rightarrow> usize \<Rightarrow> usize" and shrinking :: "'s \<Rightarrow> bool"
  assumes est_le: "shrinking s \<Longrightarrow> u \<le> 2 ^ 32 \<Longrightarrow> est s u \<le> u"
begin

lemma small_block_fits:
  assumes "shrinking s" and "length (blocks b) < capacity (settings b)"
    and "raw_size b + sum_list (map eip2718_encoded_length txs) \<le> target_compressed_size (settings b)"
    and "target_compressed_size (settings b) \<le> 2 ^ 32"
  shows "doesnt_fit (est s) b txs = None"
  using est_le [OF assms(1), of "raw_size b + sum_list (map eip2718_encoded_length txs)"] assms(2-)
  by (simp add: doesnt_fit_def Let_def)

end

interpretation zlib_estimate: size_estimator estimate_get "\<lambda>b. unat b \<le> 10000"
proof
  fix b :: u64 and u :: usize
  assume b: "unat b \<le> 10000" and u: "u \<le> 2 ^ 32"
  have "(of_nat (u * unat b) :: rat) \<le> of_nat (u * 10000)" using b by (simp only: of_nat_le_iff mult_le_mono)
  then have "of_nat (u * unat b) / 10000 \<le> (of_nat u :: rat)" by simp
  moreover have "\<bar>of_nat (estimate_get b u) - of_nat (u * unat b) / 10000\<bar> \<le> (51 / 100 :: rat)"
    using u b by (intro estimate_get_error) auto
  ultimately have "of_nat (estimate_get b u) \<le> (of_nat u + 51 / 100 :: rat)" using abs_error_bound by blast
  then have "(of_nat (estimate_get b u) :: rat) < of_nat (u + 1)" by simp
  then show "estimate_get b u \<le> u" by (simp only: of_nat_less_iff)
qed

text \<open>Balances are shown with a relative error of at most \<open>2 ^ -51\<close>, and capped.\<close>

lemma GWEI_IN_ETH_error: "\<bar>f64_value GWEI_IN_ETH - 1 / 1000000000\<bar> \<le> 1 / 1000000000 / 2 ^ 53"
  using near_ratio [of 1000000000 1] by (simp add: GWEI_IN_ETH_def near_def)

theorem wei_to_eth_correct:
  "let gwei = unat balance div 1000000000
   in (gwei < 2 ^ 53 \<longrightarrow> \<bar>f64_value (wei_to_eth balance) - of_nat gwei / 10 ^ 9\<bar> \<le> of_nat gwei / 10 ^ 9 / 2 ^ 51) \<and>
      f64_value (wei_to_eth balance) \<le> 9007200"
proof -
  let ?b = "balance div GWEI_TO_WEI"
  define g where "g = unat ?b"
  have g: "unat balance div 1000000000 = g" by (simp add: g_def GWEI_TO_WEI_def unat_div)
  have thr: "unat (ucast F64_REPRESENTATION_THRESHOLD :: u256) = 2 ^ 53"
    by (simp add: F64_REPRESENTATION_THRESHOLD_def)
  consider (zero) "g = 0" | (small) "0 < g" "g \<le> 2 ^ 53" | (cap) "2 ^ 53 < g" by linarith
  then show ?thesis
  proof cases
    case zero
    then have "?b = 0" by (simp add: g_def unat_eq_zero)
    then have "f64_value (wei_to_eth balance) = 0" by (simp add: wei_to_eth_def f64_value_of_nat)
    then show ?thesis using zero by (simp add: g Let_def)
  next
    case cap
    then have "?b \<noteq> 0" "?b > ucast F64_REPRESENTATION_THRESHOLD"
      unfolding word_less_nat_alt thr by (auto simp: g_def)
    then have "wei_to_eth balance = f64_of_ratio 9007199254740992 1000000000" by (simp add: wei_to_eth_def)
    moreover have "near (f64_value (f64_of_ratio 9007199254740992 1000000000)) (9007199254740992 / 1000000000)"
      using near_ratio [of 1000000000 9007199254740992] by simp
    ultimately have "\<bar>f64_value (wei_to_eth balance) - 9007199254740992 / 1000000000\<bar> \<le> 1 / 2"
      by (simp add: near_def)
    then have "f64_value (wei_to_eth balance) \<le> 9007200" by linarith
    then show ?thesis using cap by (simp add: g Let_def)
  next
    case small
    let ?y = "f64_of_nat g * GWEI_IN_ETH" and ?G = "f64_value (f64_of_nat g)"
    have "?b \<noteq> 0" "\<not> ?b > ucast F64_REPRESENTATION_THRESHOLD"
      using small unfolding word_less_nat_alt thr by (auto simp: g_def)
    moreover have "unat (ucast ?b :: u64) = g"
      using small by (simp add: g_def unsigned_ucast_eq take_bit_nat_eq_self)
    ultimately have eq: "wei_to_eth balance = ?y" by (simp add: wei_to_eth_def Let_def)
    have "(of_nat g :: rat) \<le> of_nat (2 ^ 53)" using small by (simp only: of_nat_le_iff)
    then have gr: "(of_nat g :: rat) \<le> 2 ^ 53" by simp
    have G: "\<bar>?G - of_nat g\<bar> \<le> 1" using near_le [OF near_of_nat gr] by simp
    let ?W = "f64_value GWEI_IN_ETH" and ?w = "1 / 1000000000 :: rat"
    have W: "\<bar>?W - ?w\<bar> \<le> ?w / 2 ^ 53" by (rule GWEI_IN_ETH_error)
    have Wle: "?W \<le> ?w + ?w / 2 ^ 53" by (rule abs_error_bound [OF W order.refl])
    have y: "near (f64_value ?y) (?G * ?W)" by (rule near_times)
    have "?G \<le> 2 ^ 53 + 1" by (rule abs_error_bound [OF G gr])
    then have GW: "?G * ?W \<le> (2 ^ 53 + 1) * (?w + ?w / 2 ^ 53)" using Wle by (intro mult_mono) auto
    from abs_error_bound [OF near_le [OF y GW] GW] have cap: "f64_value ?y \<le> 9007200" by simp
    have "\<bar>f64_value ?y - of_nat g * ?w\<bar> \<le> of_nat g * ?w / 2 ^ 51" if lt: "g < 2 ^ 53"
    proof -
      have eqG: "?G = of_nat g" by (rule f64_value_of_nat [OF lt])
      have gW: "\<bar>of_nat g * ?W - of_nat g * ?w\<bar> \<le> of_nat g * (?w / 2 ^ 53)"
        unfolding right_diff_distrib [symmetric] abs_mult using W by (intro mult_mono) auto
      have "of_nat g * ?W \<le> of_nat g * (?w + ?w / 2 ^ 53)" using Wle by (intro mult_left_mono) auto
      from near_le [OF y [unfolded eqG] this]
      have "\<bar>f64_value ?y - of_nat g * ?W\<bar> \<le> of_nat g * (?w + ?w / 2 ^ 53) / 2 ^ 53" .
      from abs_error_trans [OF this gW] show ?thesis by (rule order_trans) simp
    qed
    then show ?thesis using cap by (simp add: eq g Let_def)
  qed
qed

theorem estimate_stays_in_range_witness: "bps example_estimate \<in> {5000..6800}"
proof -
  have "event_within 5000 6800 (Load 1000 500)" "event_within 5000 6800 (Load 1000 680)"
    using sample_round [of 1000 500 5000] sample_round [of 1000 680 6800]
    by (simp_all add: sample_within_def sample_ok_def)
  then have "\<forall>e \<in> set example_samples. event_within 5000 6800 e" by (auto simp: example_samples_def)
  then show ?thesis
    by (rule estimate_stays_in_range [OF example_samples_run]) (simp_all add: INITIAL_RATIO_BPS_def)
qed

theorem estimate_has_a_dead_zone_witness: "(estimate_update 1000 400 ^^ 1000) 4030 = 4030"
  by (rule estimate_has_a_dead_zone) (simp_all add: sample_ok_def INITIAL_RATIO_BPS_def)

text \<open>
  The value that marks that there was no sample yet is a possible ratio: an estimate that samples brought to 6800
  is dropped for the next sample alone, also after many samples.
\<close>

theorem estimate_forgets_at_the_initial_value:
  "estimate_update 1000 680 INITIAL_RATIO_BPS = INITIAL_RATIO_BPS \<and>
   estimate_update 1000 100 ((estimate_update 1000 680 ^^ n) INITIAL_RATIO_BPS) = 1000"
proof -
  have same: "estimate_update 1000 680 INITIAL_RATIO_BPS = INITIAL_RATIO_BPS"
    using sample_round [of 1000 680 6800] by (simp add: estimate_update_def INITIAL_RATIO_BPS_def Let_def)
  then have "(estimate_update 1000 680 ^^ n) INITIAL_RATIO_BPS = INITIAL_RATIO_BPS" by (induction n) simp_all
  then show ?thesis
    using same sample_round [of 1000 100 1000] by (simp add: estimate_update_def Let_def)
qed

text \<open>A block that fits without compression is not turned away while the estimated ratio is at most one.\<close>

theorem small_blocks_fit:
  assumes "unat estimate_bps \<le> 10000" and "length (blocks b) < capacity (settings b)"
    and "raw_size b + sum_list (map eip2718_encoded_length txs) \<le> target_compressed_size (settings b)"
    and "target_compressed_size (settings b) \<le> 2 ^ 32"
  shows "doesnt_fit (estimate_get estimate_bps) b txs = None"
  using assms by (rule zlib_estimate.small_block_fits)

theorem small_blocks_fit_witness:
  "doesnt_fit (estimate_get 9000) (batch_new (example_header 21 900) \<lparr>capacity = 5, target_compressed_size = 1000, max_raw_size = 2000,
     default_coinbase = 0, max_anchor_height_offset = 64, anchor_max_height_buffer = 6\<rparr>) [] = None"
  by (rule small_blocks_fit) (simp_all add: batch_new_def raw_size_def)

end
