(* ===== verification/Metrics.thy ===== *)
theory Metrics
  imports Lookahead Float64
begin

text \<open>
  The metrics of \<open>crates/driver/src/metrics.rs\<close> that compute something: the cost of a batch, the gap
  between two blocks, and the gauges of the driver status. A gauge is an entry of a map that the metrics library
  keeps; the other functions of the file only pass a value on to it. With them, the shutdown of
  \<open>crates/primitives/src/shutdown.rs\<close>.
\<close>

section \<open>Costs and gaps\<close>

record transaction_receipt =
  rc_gas_used :: u64
  rc_effective_gas_price :: u128
  rc_blob_gas_price :: "u128 option"
  rc_blob_gas_used :: "u64 option"

text \<open>The value of the gauge, before its conversion to a double.\<close>

definition set_batch_gas_cost_in_wei :: "transaction_receipt \<Rightarrow> u64" where
  "set_batch_gas_cost_in_wei receipt =
     (let gas_cost = rc_gas_used receipt + ucast (rc_effective_gas_price receipt);
          blob_cost = ucast (case rc_blob_gas_price receipt of Some p \<Rightarrow> p | None \<Rightarrow> 0) +
            (case rc_blob_gas_used receipt of Some g \<Rightarrow> g | None \<Rightarrow> 0)
      in gas_cost + blob_cost)"

text \<open>The depth of a gap, as \<open>on_produced_block\<close> of \<open>driver.rs\<close> computes it when it has found one.\<close>

definition batch_block_gap_depth :: "u64 \<Rightarrow> u64 \<Rightarrow> u64" where
  "batch_block_gap_depth expected got = sat_sub expected got"

text \<open>The cost is the sum of gas and price where it should be the product.\<close>

lemma gas_cost_is_a_sum:
  "set_batch_gas_cost_in_wei
     \<lparr>rc_gas_used = 21000, rc_effective_gas_price = 1000000000, rc_blob_gas_price = None, rc_blob_gas_used = None\<rparr> =
     1000021000"
  by (simp add: set_batch_gas_cost_in_wei_def)

text \<open>A gap always has depth 0, since the block that is missing is below the one that came.\<close>

lemma gap_depth_is_zero: "expected \<le> sat_sub got 1 \<Longrightarrow> batch_block_gap_depth expected got = 0"
  using order_trans [OF _ sat_sub_le] by (fastforce simp: batch_block_gap_depth_def sat_sub_def)

section \<open>The gauges of the status\<close>

definition variant_names :: "string list" where
  "variant_names = [''Inactive'', ''HandoverWait'', ''SequencingOnly'', ''InclusionOnly'', ''Active'']"

fun display_status :: "driver_status \<Rightarrow> string" where
  "display_status Inactive = ''Inactive''"
| "display_status SequencingOnly = ''SequencingOnly''"
| "display_status InclusionOnly = ''InclusionOnly''"
| "display_status Active = ''Active''"
| "display_status (HandoverWait start) = ''HandoverWait''"

type_synonym gauges = "string \<rightharpoonup> nat"

text \<open>The gauges after each write, the last ones first in time order.\<close>

fun status_writes :: "string \<Rightarrow> string list \<Rightarrow> gauges \<Rightarrow> gauges list" where
  "status_writes displayed [] g = [g(displayed \<mapsto> 1)]"
| "status_writes displayed (other # others) g =
     (if other = displayed then status_writes displayed others g
      else g(other \<mapsto> 0) # status_writes displayed others (g(other \<mapsto> 0)))"

definition set_driver_status :: "driver_status \<Rightarrow> gauges \<Rightarrow> gauges list" where
  "set_driver_status status g = status_writes (display_status status) variant_names g"

lemma status_writes_nonempty [simp]: "status_writes d names g \<noteq> []"
  by (induction names arbitrary: g) auto

lemma status_writes_last:
  "last (status_writes d names g) n = (if n = d then Some 1 else if n \<in> set names then Some 0 else g n)"
  by (induction names arbitrary: g) auto

lemma status_writes_keep:
  "g' \<in> set (status_writes d names g) \<Longrightarrow> g d = Some 1 \<Longrightarrow> g' d = Some 1"
  by (induction names arbitrary: g) (auto split: if_splits)

lemma status_writes_one:
  assumes "g' \<in> set (status_writes d names g)" and "g' \<noteq> last (status_writes d names g)" and "g' n = Some 1"
  shows "g n = Some 1"
  using assms
proof (induction names arbitrary: g)
  case (Cons other others)
  have below: "g n = Some 1" if "(g(other \<mapsto> 0)) n = Some 1" using that by (simp split: if_splits)
  show ?case
  proof (cases "other = d")
    case True
    then show ?thesis using Cons by simp
  next
    case False
    with Cons.prems(1) consider "g' = g(other \<mapsto> 0)" | "g' \<in> set (status_writes d others (g(other \<mapsto> 0)))" by auto
    then show ?thesis
    proof cases
      case 1
      then show ?thesis using below Cons.prems(3) by simp
    next
      case 2
      moreover have "g' \<noteq> last (status_writes d others (g(other \<mapsto> 0)))" using Cons.prems(2) False by simp
      ultimately show ?thesis using Cons.IH Cons.prems(3) below by blast
    qed
  qed
qed simp

text \<open>
  The gauges show exactly the status of the driver: after an update the gauge of the status is 1 and all others
  are 0; while it is made no second gauge is 1, and that of an unchanged status never drops.
\<close>

theorem status_gauges_are_exclusive:
  assumes "\<And>n. g n = Some 1 \<Longrightarrow> n = old"
  shows "(\<forall>n \<in> set variant_names. last (set_driver_status status g) n = Some (if n = display_status status then 1 else 0)) \<and>
    (\<forall>g' \<in> set (set_driver_status status g). (\<forall>m n. g' m = Some 1 \<and> g' n = Some 1 \<and>
        m \<in> set variant_names \<and> n \<in> set variant_names \<longrightarrow> m = n) \<and>
      (g (display_status status) = Some 1 \<longrightarrow> g' (display_status status) = Some 1))"
proof -
  have last: "last (set_driver_status status g) n = Some (if n = display_status status then 1 else 0)"
    if "n \<in> set variant_names" for n
    using that unfolding set_driver_status_def status_writes_last by simp
  have shown: "n = display_status status"
    if "last (set_driver_status status g) n = Some 1" and "n \<in> set variant_names" for n
    using that(1) unfolding last [OF that(2)] by (simp split: if_splits)
  have one: "m = n"
    if w: "g' \<in> set (set_driver_status status g)" and m: "g' m = Some 1" and n: "g' n = Some 1"
      and names: "m \<in> set variant_names" "n \<in> set variant_names" for g' m n
  proof (cases "g' = last (set_driver_status status g)")
    case True
    then show ?thesis using shown [of m] shown [of n] m n names by simp
  next
    case False
    note before = status_writes_one [OF w [unfolded set_driver_status_def] False [unfolded set_driver_status_def]]
    show ?thesis using assms [OF before [OF m]] assms [OF before [OF n]] by simp
  qed
  have keep: "g' (display_status status) = Some 1"
    if "g' \<in> set (set_driver_status status g)" "g (display_status status) = Some 1" for g'
    using that unfolding set_driver_status_def by (rule status_writes_keep)
  show ?thesis
  proof (intro conjI ballI allI impI)
    fix g' m n
    assume "g' \<in> set (set_driver_status status g)"
      and "g' m = Some 1 \<and> g' n = Some 1 \<and> m \<in> set variant_names \<and> n \<in> set variant_names"
    then show "m = n" by (elim conjE) (rule one)
  qed (rule last keep; assumption)+
qed

theorem status_gauges_are_exclusive_witness:
  "last (set_driver_status Active [''Inactive'' \<mapsto> 1]) ''Inactive'' = Some 0"
proof -
  have "\<forall>n \<in> set variant_names. last (set_driver_status Active [''Inactive'' \<mapsto> 1]) n =
      Some (if n = display_status Active then 1 else 0)"
    by (rule conjunct1 [OF status_gauges_are_exclusive [of _ "''Inactive''"]]) (simp split: if_splits)
  from bspec [OF this, of "''Inactive''"] show ?thesis by (simp add: variant_names_def)
qed

section \<open>Shutdown\<close>

text \<open>A poll of the signals of the process, and of the select of the program against them.\<close>

definition poll_shutdown :: "bool \<Rightarrow> bool \<Rightarrow> bool" where
  "poll_shutdown ctrl_c_ready term_ready = (if ctrl_c_ready then True else if term_ready then True else False)"

datatype 'o run_outcome = Returned 'o | Exited

text \<open>
  \<open>select!\<close> polls its branches in a random order, which is an argument of each round: \<open>True\<close> for the future first.
\<close>

fun run_until_shutdown :: "('o option \<times> bool \<times> bool \<times> bool) list \<Rightarrow> 'o run_outcome option" where
  "run_until_shutdown [] = None"
| "run_until_shutdown ((fut, ctrl_c, term, future_first) # rounds) =
     (let stop = poll_shutdown ctrl_c term
      in case fut of
           Some result \<Rightarrow> Some (if future_first \<or> \<not> stop then Returned result else Exited)
         | None \<Rightarrow> if stop then Some Exited else run_until_shutdown rounds)"

end
