(* ===== verification/Metric_Writes.thy ===== *)
theory Metric_Writes
  imports Metrics Driver Batch_Errors
begin

text \<open>
  The functions of \<open>crates/driver/src/metrics.rs\<close> as what they give to the metrics library: the kind of the metric,
  its name and labels, and the value. The library keeps a registry; how a counter takes a value is an argument.
  Then the metrics that the handler of L2 blocks writes, next to the head that the driver keeps.
\<close>

section \<open>Metrics and the registry\<close>

record metric_key =
  metric_name :: string
  metric_labels :: "(string \<times> string) list"

datatype metric_write =
    Counter_Absolute metric_key u64
  | Counter_Increment metric_key u64
  | Gauge_Set metric_key f64
  | Gauge_Not_Finite metric_key
  | Histogram_Record metric_key f64

definition labelled :: "string \<Rightarrow> (string \<times> string) list \<Rightarrow> metric_key" where
  "labelled name labels = \<lparr>metric_name = name, metric_labels = labels\<rparr>"

abbreviation plain :: "string \<Rightarrow> metric_key" where "plain name \<equiv> labelled name []"

definition show_u64 :: "u64 \<Rightarrow> string" where "show_u64 v = decimal (unat v)"
definition show_bool :: "bool \<Rightarrow> string" where "show_bool b = (if b then ''true'' else ''false'')"
definition f64_of_u64 :: "u64 \<Rightarrow> f64" where "f64_of_u64 v = f64_of_nat (unat v)"

text \<open>A duration has whole seconds and nanoseconds.\<close>

type_synonym duration = "u64 \<times> u32"

definition as_secs_f64 :: "duration \<Rightarrow> f64" where
  "as_secs_f64 d = f64_of_u64 (fst d) + f64_of_nat (unat (snd d)) div f64_of_nat 1000000000"

text \<open>A ratio is infinite or not a number when the divisor is 0: a batch can consist of blocks without transactions.\<close>

definition ratio_gauge :: "metric_key \<Rightarrow> u32 \<Rightarrow> usize \<Rightarrow> metric_write" where
  "ratio_gauge k compressed raw =
     (if raw = 0 then Gauge_Not_Finite k else Gauge_Set k (f64_of_nat (unat compressed) div f64_of_nat raw))"

text \<open>What the library does with the value of a counter, and the registry that it keeps.\<close>

record counter_ops =
  co_absolute :: "u64 \<Rightarrow> u64 \<Rightarrow> u64"
  co_increment :: "u64 \<Rightarrow> u64 \<Rightarrow> u64"

record registry =
  counters :: "metric_key \<Rightarrow> u64"
  gauge_values :: "metric_key \<rightharpoonup> f64 option"
  histograms :: "metric_key \<Rightarrow> f64 list"

fun apply_write :: "counter_ops \<Rightarrow> metric_write \<Rightarrow> registry \<Rightarrow> registry" where
  "apply_write ops (Counter_Absolute k v) r = r\<lparr>counters := (counters r)(k := co_absolute ops (counters r k) v)\<rparr>"
| "apply_write ops (Counter_Increment k v) r = r\<lparr>counters := (counters r)(k := co_increment ops (counters r k) v)\<rparr>"
| "apply_write ops (Gauge_Set k v) r = r\<lparr>gauge_values := (gauge_values r)(k \<mapsto> Some v)\<rparr>"
| "apply_write ops (Gauge_Not_Finite k) r = r\<lparr>gauge_values := (gauge_values r)(k \<mapsto> None)\<rparr>"
| "apply_write ops (Histogram_Record k v) r = r\<lparr>histograms := (histograms r)(k := histograms r k @ [v])\<rparr>"

definition apply_writes :: "counter_ops \<Rightarrow> metric_write list \<Rightarrow> registry \<Rightarrow> registry" where
  "apply_writes ops ws r = fold (apply_write ops) ws r"

section \<open>Counters\<close>

definition set_l1_head_slot :: "u64 \<Rightarrow> metric_write" where
  "set_l1_head_slot v = Counter_Absolute (plain ''driver_l1_head_slot'') v"

definition set_l1_head_number :: "u64 \<Rightarrow> metric_write" where
  "set_l1_head_number v = Counter_Absolute (plain ''driver_l1_head_number'') v"

definition set_l1_anchor_block :: "u64 \<Rightarrow> metric_write" where
  "set_l1_anchor_block v = Counter_Absolute (plain ''driver_l1_anchor_block'') v"

definition set_l2_el_head :: "u64 \<Rightarrow> metric_write" where
  "set_l2_el_head v = Counter_Absolute (plain ''driver_l2_el_head'') v"

definition set_head_l1_origin :: "u64 \<Rightarrow> metric_write" where
  "set_head_l1_origin v = Counter_Absolute (plain ''driver_head_l1_origin'') v"

definition set_node_head_l1_origin :: "u64 \<Rightarrow> metric_write" where
  "set_node_head_l1_origin v = Counter_Absolute (plain ''driver_node_head_l1_origin'') v"

definition increment_l2_reorgs :: "u64 \<Rightarrow> u64 \<Rightarrow> metric_write" where
  "increment_l2_reorgs new_head old_head = Counter_Increment
     (labelled ''driver_l2_reorgs'' [(''old_head'', show_u64 old_head), (''new_head'', show_u64 new_head)]) 1"

definition increment_batches_reanchored :: "u64 \<Rightarrow> u64 \<Rightarrow> u64 \<Rightarrow> metric_write" where
  "increment_batches_reanchored n old_anchor new_anchor = Counter_Increment
     (labelled ''driver_batches_reanchored'' [(''old_anchor'', show_u64 old_anchor), (''new_anchor'', show_u64 new_anchor)]) n"

definition increment_batches_retimestamped :: "u64 \<Rightarrow> metric_write" where
  "increment_batches_retimestamped new_ts = Counter_Increment
     (labelled ''driver_batches_retimestamped'' [(''new_timestamp'', show_u64 new_ts)]) 1"

definition increment_total_l1_batches_submitted :: "metric_write" where
  "increment_total_l1_batches_submitted = Counter_Increment (plain ''driver_total_l1_batches_submitted'') 1"

definition increment_l1_batches_included :: "metric_write" where
  "increment_l1_batches_included = Counter_Increment (plain ''driver_l1_batches_included'') 1"

definition increment_l1_batches_reverted :: "string \<Rightarrow> metric_write" where
  "increment_l1_batches_reverted reason =
     Counter_Increment (labelled ''driver_l1_batches_reverted'' [(''reason'', reason)]) 1"

definition increment_batch_creation_failures :: "string \<Rightarrow> metric_write" where
  "increment_batch_creation_failures reason =
     Counter_Increment (labelled ''driver_batch_creation_failures'' [(''reason'', reason)]) 1"

definition increment_batch_submission_failures :: "string \<Rightarrow> metric_write" where
  "increment_batch_submission_failures reason =
     Counter_Increment (labelled ''driver_batch_submission_failures'' [(''reason'', reason)]) 1"

definition increment_batch_submissions_dropped :: "string \<Rightarrow> usize \<Rightarrow> metric_write" where
  "increment_batch_submissions_dropped reason value =
     Counter_Increment (labelled ''driver_batch_submissions_dropped'' [(''reason'', reason)]) (of_nat value)"

definition increment_unsafe_batches_submitted :: "string \<Rightarrow> metric_write" where
  "increment_unsafe_batches_submitted info =
     Counter_Increment (labelled ''driver_unsafe_batches_submitted'' [(''info'', info)]) 1"

definition increment_l2_blocks_built :: "metric_write" where
  "increment_l2_blocks_built = Counter_Increment (plain ''driver_l2_blocks_built'') 1"

definition increment_block_production_failures :: "string \<Rightarrow> metric_write" where
  "increment_block_production_failures reason =
     Counter_Increment (labelled ''driver_block_production_failures'' [(''reason'', reason)]) 1"

definition increment_skipped_blocks_due_to_finalization_lag :: "u64 \<Rightarrow> metric_write" where
  "increment_skipped_blocks_due_to_finalization_lag num = Counter_Increment
     (labelled ''driver_skipped_blocks_due_to_finalization_lag'' [(''block_number'', show_u64 num)]) 1"

definition increment_skipped_blocks_due_to_parent_block_too_low :: "u64 \<Rightarrow> u64 \<Rightarrow> metric_write" where
  "increment_skipped_blocks_due_to_parent_block_too_low parent_block_number highest_unsafe_block = Counter_Increment
     (labelled ''driver_skipped_blocks_due_to_parent_block_too_low''
        [(''parent_block_number'', show_u64 parent_block_number), (''highest_unsafe_block'', show_u64 highest_unsafe_block)]) 1"

definition increment_batch_block_gaps :: "u64 \<Rightarrow> metric_write" where
  "increment_batch_block_gaps depth =
     Counter_Increment (labelled ''driver_batch_block_gaps'' [(''depth'', show_u64 depth)]) 1"

definition increment_batch_block_gaps_fill_failures :: "string \<Rightarrow> metric_write" where
  "increment_batch_block_gaps_fill_failures reason =
     Counter_Increment (labelled ''driver_batch_block_gaps_fill_failures'' [(''reason'', reason)]) 1"

definition set_mk1_version :: "string \<Rightarrow> metric_write" where
  "set_mk1_version tag = Gauge_Set (labelled ''driver_mk1_version'' [(''tag'', tag)]) (f64_of_nat 1)"

section \<open>Gauges\<close>

definition set_soft_blocks_count :: "u64 \<Rightarrow> metric_write" where
  "set_soft_blocks_count v = Gauge_Set (plain ''driver_soft_blocks_count'') (f64_of_u64 v)"

definition set_batch_blob_count :: "usize \<Rightarrow> metric_write" where
  "set_batch_blob_count v = Gauge_Set (plain ''driver_batch_blob_count'') (f64_of_nat v)"

definition set_batch_size :: "usize \<Rightarrow> u32 \<Rightarrow> metric_write list" where
  "set_batch_size raw compressed =
     [Gauge_Set (plain ''driver_batch_raw_size_bytes'') (f64_of_nat raw),
      Gauge_Set (plain ''driver_batch_compressed_size_bytes'') (f64_of_nat (unat compressed)),
      ratio_gauge (plain ''driver_batch_compression_ratio'') compressed raw]"

definition set_batch_blobspace_wasted :: "usize \<Rightarrow> metric_write" where
  "set_batch_blobspace_wasted v = Gauge_Set (plain ''driver_batch_blobspace_wasted'') (f64_of_nat v)"

definition set_proposed_batch_size :: "usize \<Rightarrow> u32 \<Rightarrow> metric_write list" where
  "set_proposed_batch_size raw compressed =
     [Gauge_Set (plain ''driver_proposed_batch_raw_size_bytes'') (f64_of_nat raw),
      Gauge_Set (plain ''driver_proposed_batch_compressed_size_bytes'') (f64_of_nat (unat compressed)),
      ratio_gauge (plain ''driver_proposed_batch_compression_ratio'') compressed raw]"

definition set_batch_attempts :: "u64 \<Rightarrow> metric_write" where
  "set_batch_attempts v = Gauge_Set (plain ''driver_batch_attempts'') (f64_of_u64 v)"

definition set_slots_left_in_epoch :: "u64 \<Rightarrow> metric_write" where
  "set_slots_left_in_epoch v = Gauge_Set (plain ''driver_slots_left_in_epoch'') (f64_of_u64 v)"

definition set_l2_anchor_block_age :: "u64 \<Rightarrow> metric_write" where
  "set_l2_anchor_block_age v = Gauge_Set (plain ''driver_l2_anchor_block_age'') (f64_of_u64 v)"

definition set_sequencing_slots_left_in_window :: "u64 \<Rightarrow> metric_write" where
  "set_sequencing_slots_left_in_window v = Gauge_Set (plain ''driver_sequencing_slots_left_in_window'') (f64_of_u64 v)"

definition set_handover_wait_duration :: "duration \<Rightarrow> metric_write" where
  "set_handover_wait_duration d = Gauge_Set (plain ''driver_handover_wait_duration'') (as_secs_f64 d)"

definition set_current_operator :: "(address \<Rightarrow> string) \<Rightarrow> address \<Rightarrow> u64 \<Rightarrow> metric_write" where
  "set_current_operator show address slot =
     Gauge_Set (labelled ''driver_current_operator'' [(''address'', show address)]) (f64_of_u64 slot)"

definition set_operator_at_epoch :: "(address \<Rightarrow> string) \<Rightarrow> address \<Rightarrow> u64 \<Rightarrow> metric_write" where
  "set_operator_at_epoch show address ep =
     Gauge_Set (labelled ''driver_operator_at_epoch'' [(''operator'', show address)]) (f64_of_u64 ep)"

definition set_next_operator :: "(address \<Rightarrow> string) \<Rightarrow> address \<Rightarrow> u64 \<Rightarrow> metric_write" where
  "set_next_operator show address slot =
     Gauge_Set (labelled ''driver_next_operator'' [(''address'', show address)]) (f64_of_u64 slot)"

definition set_block_tx_count :: "u64 \<Rightarrow> bool \<Rightarrow> metric_write" where
  "set_block_tx_count v internal =
     Gauge_Set (labelled ''driver_block_tx_count_gauge'' [(''internal'', show_bool internal)]) (f64_of_u64 v)"

definition set_block_gas_used :: "u64 \<Rightarrow> bool \<Rightarrow> metric_write" where
  "set_block_gas_used v internal =
     Gauge_Set (labelled ''driver_block_gas_used_gauge'' [(''internal'', show_bool internal)]) (f64_of_u64 v)"

definition set_suggested_max_block_size :: "u64 \<Rightarrow> metric_write" where
  "set_suggested_max_block_size v = Gauge_Set (plain ''driver_suggested_max_block_size'') (f64_of_u64 v)"

definition set_batch_submission_queue_size :: "usize \<Rightarrow> metric_write" where
  "set_batch_submission_queue_size v = Gauge_Set (plain ''driver_batch_submission_queue_size'') (f64_of_nat v)"

definition set_outstanding_batch_blocks_count :: "usize \<Rightarrow> metric_write" where
  "set_outstanding_batch_blocks_count v = Gauge_Set (plain ''driver_outstanding_batch_blocks_count'') (f64_of_nat v)"

definition set_batch_submitter_balance :: "f64 \<Rightarrow> metric_write" where
  "set_batch_submitter_balance v = Gauge_Set (plain ''driver_batch_submitter_balance_eth'') v"

definition set_batch_submitter_tko_balance :: "f64 \<Rightarrow> metric_write" where
  "set_batch_submitter_tko_balance v = Gauge_Set (plain ''driver_batch_submitter_balance_tko'') v"

section \<open>Histograms\<close>

definition record_build_preconf_block_time :: "duration \<Rightarrow> metric_write" where
  "record_build_preconf_block_time time_elapsed =
     Histogram_Record (plain ''driver_build_preconf_block_time'') (as_secs_f64 time_elapsed)"

definition record_total_block_building_time :: "duration \<Rightarrow> metric_write" where
  "record_total_block_building_time time_elapsed =
     Histogram_Record (plain ''driver_total_block_building_time'') (as_secs_f64 time_elapsed)"

definition record_soft_blocks_download_time :: "duration \<Rightarrow> metric_write" where
  "record_soft_blocks_download_time time_elapsed =
     Histogram_Record (plain ''driver_soft_blocks_download_time'') (as_secs_f64 time_elapsed)"

definition record_batch_tx_inclusion_time :: "duration \<Rightarrow> metric_write" where
  "record_batch_tx_inclusion_time time_elapsed =
     Histogram_Record (plain ''driver_batch_tx_inclusion_time'') (as_secs_f64 time_elapsed)"

definition record_batch_building_time :: "duration \<Rightarrow> metric_write" where
  "record_batch_building_time time_elapsed =
     Histogram_Record (plain ''driver_batch_building_time'') (as_secs_f64 time_elapsed)"

definition record_batch_compression_time :: "duration \<Rightarrow> metric_write" where
  "record_batch_compression_time time_elapsed =
     Histogram_Record (plain ''driver_batch_compression_time'') (as_secs_f64 time_elapsed)"

definition record_fetch_txs_time :: "duration \<Rightarrow> metric_write" where
  "record_fetch_txs_time time_elapsed =
     Histogram_Record (plain ''driver_fetch_txs_time'') (as_secs_f64 time_elapsed)"

section \<open>Metrics that compute something\<close>

definition batch_gas_cost_write :: "transaction_receipt \<Rightarrow> metric_write" where
  "batch_gas_cost_write receipt =
     Gauge_Set (plain ''driver_batch_gas_cost_in_wei'') (f64_of_u64 (set_batch_gas_cost_in_wei receipt))"

definition driver_status_writes :: "driver_status \<Rightarrow> metric_write list" where
  "driver_status_writes status =
     (let displayed = display_status status;
          write = (\<lambda>name v. Gauge_Set (labelled ''driver_status'' [(''status'', name)]) (f64_of_nat v))
      in map (\<lambda>other. write other 0) (filter (\<lambda>other. other \<noteq> displayed) variant_names) @ [write displayed 1])"

text \<open>The background task of \<open>helpers.rs\<close>; the channel of the compression may have been closed.\<close>

definition compute_batch_size_metrics :: "usize \<Rightarrow> usize option \<Rightarrow> metric_write list" where
  "compute_batch_size_metrics raw received =
     (case received of None \<Rightarrow> [] | Some compressed_size \<Rightarrow> set_batch_size raw (of_nat compressed_size))"

text \<open>After these writes the gauges of the status are those that \<open>set_driver_status\<close> ends with.\<close>

lemma gauge_writes_last:
  "gauge_values (fold (apply_write ops) (map (\<lambda>n. Gauge_Set (labelled name [(l, n)]) v) ns) r) (labelled name [(l, n)]) =
     (if n \<in> set ns then Some (Some v) else gauge_values r (labelled name [(l, n)]))"
  by (induction ns arbitrary: r) (auto simp: labelled_def)

lemma driver_status_writes_refine:
  assumes "n \<in> set variant_names"
  shows "gauge_values (apply_writes ops (driver_status_writes status) r) (labelled ''driver_status'' [(''status'', n)]) =
    map_option (\<lambda>v. Some (f64_of_nat v)) (last (set_driver_status status g) n)"
  using assms gauge_writes_last [of ops "''driver_status''" "''status''" "f64_of_nat 0" "filter (\<lambda>x. x \<noteq> display_status status) variant_names" r n]
  by (auto simp: driver_status_writes_def apply_writes_def Let_def set_driver_status_def status_writes_last labelled_def)

section \<open>The head of L2\<close>

fun transactions_len :: "block_transactions \<Rightarrow> nat" where
  "transactions_len (Full_Txs txs) = length txs"
| "transactions_len (Hashes_Only hs) = length hs"
| "transactions_len Uncle_Block = 0"

text \<open>What \<open>on_l2_block\<close> writes itself.\<close>

definition l2_block_writes :: "driver \<Rightarrow> rpc_block \<Rightarrow> metric_write list" where
  "l2_block_writes d b =
     (let h = block_header b; built_by_us = (beneficiary h = operator_address (d_cfg d))
      in [set_l2_el_head (number h), set_block_tx_count (of_nat (transactions_len (transactions b))) built_by_us,
          set_block_gas_used (gas_used h) built_by_us] @
         (if number h < head_block (d_l2 d) then [increment_l2_reorgs (number h) (head_block (d_l2 d))] else []))"

fun receive_l2_blocks :: "counter_ops \<Rightarrow> ('sig driver_env \<times> rpc_block) list \<Rightarrow> driver \<times> registry \<Rightarrow> (driver \<times> registry) handled" where
  "receive_l2_blocks ops [] (d, r) = Done (d, r)"
| "receive_l2_blocks ops ((env, b) # bs) (d, r) =
     then_h (on_l2_block env b d) (\<lambda>d'. receive_l2_blocks ops bs (d', apply_writes ops (l2_block_writes d b) r))"

abbreviation shown_head :: "registry \<Rightarrow> u64" where
  "shown_head r \<equiv> counters r (plain ''driver_l2_el_head'')"

lemma l2_block_head: "on_l2_block env b d = Done d' \<Longrightarrow> head_block (d_l2 d') = number (block_header b)"
  by (cases "number (block_header b) < head_block (d_l2 d)"; cases "on_l2_reorg env (number (block_header b)) d")
     (auto simp: on_l2_block_def Let_def split: if_splits sum.splits)

lemma l2_block_counter:
  "shown_head (apply_writes ops (l2_block_writes d b) r) = co_absolute ops (shown_head r) (number (block_header b))"
  by (simp add: apply_writes_def l2_block_writes_def Let_def set_l2_el_head_def set_block_tx_count_def
      set_block_gas_used_def increment_l2_reorgs_def labelled_def)

text \<open>
  A counter does not fall: \<open>absolute\<close> sets it to at least the given value. So the metric that is meant to show the
  head of L2 shows the highest block that was ever seen, and agrees with the head of the driver exactly when no
  earlier block was above it: never after a reorg, until the chain has caught up.
\<close>

lemma shown_head_is_the_highest:
  assumes "receive_l2_blocks ops bs (d, r) = Done (d', r')" and "\<And>old v. co_absolute ops old v = max old v"
  shows "shown_head r' = fold max (map (number \<circ> block_header \<circ> snd) bs) (shown_head r) \<and>
    (bs \<noteq> [] \<longrightarrow> head_block (d_l2 d') = number (block_header (snd (last bs))))"
  using assms(1)
proof (induction bs arbitrary: d r)
  case (Cons x bs)
  obtain env b where x: "x = (env, b)" by fastforce
  with Cons.prems obtain d1 where d1: "on_l2_block env b d = Done d1"
    "receive_l2_blocks ops bs (d1, apply_writes ops (l2_block_writes d b) r) = Done (d', r')"
    by (cases "on_l2_block env b d") auto
  show ?case
    using Cons.IH [OF d1(2)] l2_block_head [OF d1(1)] d1(2)
    by (cases "bs = []") (simp_all add: x l2_block_counter assms(2) max.commute)
qed simp

lemma fold_max_ge: "h \<le> fold max xs h \<and> (\<forall>x \<in> set xs. x \<le> fold max xs h)" for h :: "'a::linorder"
proof (induction xs arbitrary: h)
  case (Cons x xs)
  have "max x h \<le> fold max xs (max x h)" using Cons.IH by blast
  then show ?case using Cons.IH [of "max x h"] by simp
qed simp

lemma shown_head_misses_reorgs:
  assumes "receive_l2_blocks ops bs (d, r) = Done (d', r')" and "\<And>old v. co_absolute ops old v = max old v"
    and "(env, b) \<in> set bs" and "number (block_header (snd (last bs))) < number (block_header b)"
  shows "head_block (d_l2 d') < shown_head r'"
proof -
  have "number (block_header b) \<in> set (map (number \<circ> block_header \<circ> snd) bs)" using assms(3) by force
  then have "number (block_header b) \<le> shown_head r'"
    using shown_head_is_the_highest [OF assms(1,2)] fold_max_ge by metis
  moreover have "head_block (d_l2 d') = number (block_header (snd (last bs)))"
    using shown_head_is_the_highest [OF assms(1,2)] assms(3) by auto
  ultimately show ?thesis using assms(4) by simp
qed

end
