(* ===== verification/Process.thy ===== *)
theory Process
  imports Metrics Clients Chain_State
begin

text \<open>
  The process around the driver: the environment file, the set-up of the telemetry, and \<open>main\<close>, of
  \<open>bin/mk1/src/main.rs\<close> and \<open>crates/config/src/telemetry.rs\<close>; then the calls of the clients that pass an answer on, and the
  stack of fillers of the wallet provider. The tracing and metrics libraries, the parser of the command line and dotenv
  are arguments.
\<close>

section \<open>Environment and telemetry\<close>

type_synonym environment = "string \<rightharpoonup> string"

text \<open>
  A named file must load, the default one need not. Loading gives the new environment, and the error if it stopped.
\<close>

definition load_env_file ::
  "(string \<Rightarrow> environment \<Rightarrow> environment \<times> 'e option) \<Rightarrow> (environment \<Rightarrow> environment \<times> 'e option) \<Rightarrow> environment \<Rightarrow> 'e + environment" where
  "load_env_file from_filename dotenv env =
     (case env ''ENV_FILE'' of
        Some custom_env_file \<Rightarrow>
          (case from_filename custom_env_file env of (env, Some e) \<Rightarrow> Inl e | (env, None) \<Rightarrow> Inr env)
      | None \<Rightarrow> Inr (fst (dotenv env)))"

record telemetry_opts =
  use_ansi :: bool
  metrics_port :: u16
  disable_metrics :: bool

definition default_telemetry_opts :: telemetry_opts where
  "default_telemetry_opts = \<lparr>use_ansi = True, metrics_port = 9090, disable_metrics = False\<rparr>"

definition AXIOM_LOGS_API :: string where "AXIOM_LOGS_API = ''https://api.axiom.co/v1/logs''"

text \<open>\<open>build\<close> is the builder of the exporter, with endpoint and headers; the provider carries the name.\<close>

definition build_axiom_provider ::
  "(string \<Rightarrow> (string \<times> string) list \<Rightarrow> 'x option) \<Rightarrow> environment \<Rightarrow> string \<Rightarrow> ('e, ('x \<times> string) option) outcome" where
  "build_axiom_provider build env name =
     (case env ''AXIOM_TOKEN'' of
        None \<Rightarrow> Ok None
      | Some token \<Rightarrow>
          (case env ''AXIOM_DATASET'' of
             None \<Rightarrow> Ok None
           | Some dataset \<Rightarrow>
               (case build AXIOM_LOGS_API [(''Authorization'', ''Bearer '' @ token), (''X-Axiom-Dataset'', dataset)] of
                  None \<Rightarrow> Panic
                | Some exporter \<Rightarrow> Ok (Some (exporter, name)))))"

text \<open>The result is the log provider; \<open>install\<close> opens the port of the metrics.\<close>

definition telemetry_setup ::
  "(string \<Rightarrow> (string \<times> string) list \<Rightarrow> 'x option) \<Rightarrow> (u16 \<Rightarrow> string \<Rightarrow> 'e + unit) \<Rightarrow> environment \<Rightarrow> telemetry_opts \<Rightarrow> string \<Rightarrow>
   ('e, ('x \<times> string) option) outcome" where
  "telemetry_setup build install env opts instance_name =
     (case build_axiom_provider build env instance_name of
        Panic \<Rightarrow> Panic
      | Err e \<Rightarrow> Err e
      | Ok provider \<Rightarrow>
          if disable_metrics opts then Ok provider
          else (case install (metrics_port opts) instance_name of Inl e \<Rightarrow> Err e | Inr _ \<Rightarrow> Ok provider))"

text \<open>Without the Axiom variables only the port of the metrics can stop the program, and it can be disabled.\<close>

lemma telemetry_needs_only_its_port:
  assumes "env ''AXIOM_TOKEN'' = None \<or> env ''AXIOM_DATASET'' = None"
  shows "telemetry_setup build install env opts name =
    (if disable_metrics opts then Ok None else case install (metrics_port opts) name of Inl e \<Rightarrow> Err e | Inr _ \<Rightarrow> Ok None)"
  using assms by (auto simp: telemetry_setup_def build_axiom_provider_def split: option.split)

section \<open>The main function\<close>

datatype ('e, 'o) process_end =
    Env_File_Error 'e
  | Usage_Error
  | Telemetry_Error 'e
  | Setup_Panicked
  | Driver_Ended 'o
  | Shut_Down "bool"

text \<open>
  The command line is parsed with the environment of the file; \<open>rounds\<close> are the polls of the driver and of the signals,
  whose handler may fail to install. A shutdown flushes the log provider if there is one, which the flag of \<open>Shut_Down\<close> says. \<open>None\<close>: still running.
\<close>

definition mk1_main ::
  "(string \<Rightarrow> environment \<Rightarrow> environment \<times> 'e option) \<Rightarrow> (environment \<Rightarrow> environment \<times> 'e option) \<Rightarrow>
   (environment \<Rightarrow> (telemetry_opts \<times> string) option) \<Rightarrow> (string \<Rightarrow> (string \<times> string) list \<Rightarrow> 'x option) \<Rightarrow>
   (u16 \<Rightarrow> string \<Rightarrow> 'e + unit) \<Rightarrow> bool \<Rightarrow> ('o option \<times> bool \<times> bool \<times> bool) list \<Rightarrow> environment \<Rightarrow> ('e, 'o) process_end option" where
  "mk1_main from_filename dotenv parse build install sigterm_installed rounds env =
     (case load_env_file from_filename dotenv env of
        Inl e \<Rightarrow> Some (Env_File_Error e)
      | Inr env \<Rightarrow>
          (case parse env of
             None \<Rightarrow> Some Usage_Error
           | Some (telemetry, instance_name) \<Rightarrow>
               (case telemetry_setup build install env telemetry instance_name of
                  Panic \<Rightarrow> Some Setup_Panicked
                | Err e \<Rightarrow> Some (Telemetry_Error e)
                | Ok tracer_provider \<Rightarrow>
                    if \<not> sigterm_installed then Some Setup_Panicked
                    else
                      (case run_until_shutdown rounds of
                         None \<Rightarrow> None
                       | Some (Returned result) \<Rightarrow> Some (Driver_Ended result)
                       | Some Exited \<Rightarrow> Some (Shut_Down (tracer_provider \<noteq> None))))))"

text \<open>A signal ends the program in the round in which it comes, whatever the driver does before.\<close>

lemma signal_ends_the_run:
  assumes "\<forall>round \<in> set rounds. fst round = None" and "poll_shutdown ctrl_c term"
  shows "run_until_shutdown (rounds @ (None, ctrl_c, term, first) # rest) = Some Exited"
  using assms(1)
proof (induction rounds)
  case (Cons round rounds)
  obtain c t f where "round = (None, c, t, f)" using Cons.prems by (cases round) auto
  then show ?case using Cons by simp
qed (simp add: assms(2))

lemma main_ends_on_a_signal:
  assumes "\<forall>round \<in> set rounds. fst round = None" and "poll_shutdown ctrl_c term"
  shows "mk1_main from_filename dotenv parse build install sigterm (rounds @ (None, ctrl_c, term, first) # rest) env \<noteq> None"
  unfolding mk1_main_def signal_ends_the_run [OF assms] by (auto split: sum.split option.split outcome.split)

section \<open>Calls that pass an answer on\<close>

definition send_raw_tx :: "(bytes \<Rightarrow> 'e + b256) \<Rightarrow> bytes \<Rightarrow> 'e + b256" where
  "send_raw_tx request raw = request raw"

definition is_synced :: "'e + sync_status \<Rightarrow> 'e + bool" where
  "is_synced syncing = (case syncing of Inl e \<Rightarrow> Inl e | Inr status \<Rightarrow> Inr (status = Not_Syncing))"

definition health_check :: "'e + 'h \<Rightarrow> 'e + unit" where
  "health_check get_health = (case get_health of Inl e \<Rightarrow> Inl e | Inr _ \<Rightarrow> Inr ())"

text \<open>The fillers of the wallet provider, from the first to the last; only the nonces differ from the default stack.\<close>

datatype 'w filler = Gas_Filler | Blob_Gas_Filler | Nonce_Filler_Simple | Chain_Id_Filler | Wallet_Filler 'w

definition new_wallet_provider_with_simple_nonce_management :: "'w \<Rightarrow> 'w filler list" where
  "new_wallet_provider_with_simple_nonce_management wallet =
     [Gas_Filler, Blob_Gas_Filler, Nonce_Filler_Simple, Chain_Id_Filler] @ [Wallet_Filler wallet]"

end
