(* ===== verification/Spec2Isabelle.thy ===== *)
theory Spec2Isabelle
  imports Batch_Map Lookahead Poster Sync Preconf_Client Chain_State System_Order System_Live System_Flight Driver_Panics Compression Metric_Writes Process
begin

text \<open>
  The verification library of mk1, a sequencer for Taiko rollups. In its turn the sequencer builds an L2 block every
  two seconds, gives it to the preconfirmation server, which spreads it, and collects it in the outstanding batch;
  full or old batches are compressed into blobs and proposed to the inbox contract on L1. Paths below are those
  under \<open>src/\<close>.

  The parts and how they interact. The driver (\<open>crates/driver/src/driver.rs\<close>) is an event loop: slot ticks, new L1
  and L2 blocks, produced blocks, results of proposals. It asks the \<open>Lookahead\<close> for its status, the syncer for what
  is not proposed yet, the block builder for new blocks, and sends batches over a channel to the batch submitter, an
  actor that queues them and posts them one at a time through the poster. Blocks that were preconfirmed but not
  proposed are downloaded with their anchors, grouped into batches, and given a new anchor or new timestamps when
  the old ones are too old for the inbox.

  Conventions. A Rust integer is a word of its width, so arithmetic wraps where it is not saturating or checked;
  \<open>usize\<close> lengths are natural numbers. A \<open>Result\<close> is a sum with the error on the left; a panic is \<open>None\<close>, or
  \<open>Panicked\<close> of a handler; a wait that does not end is \<open>Hangs\<close>. Collections are lists, a \<open>BTreeMap\<close> is the list of
  its entries. What the program does not contain is an argument: the answers of the nodes, the ABI coder, RLP, zlib,
  KZG, the curve, the clock. Where a property relies on one of them, its documented behaviour is an assumption of
  the property, and the witness instantiates it.
\<close>

section \<open>Theories and sources\<close>

text \<open>
  Foundations.
  \<^item> \<open>Mk1_Prelude\<close>: the integers of Rust with their saturating and rounding operations, the collection
    \<open>word_nat\<close>, and lemmas on lists and words that several theories use.
  \<^item> \<open>Btree\<close>: the ordered map of the standard library. Locale \<open>ordered_map\<close>, extended by \<open>mappable_map\<close>, is the
    interface of the batch map, interpreted on the list of entries.
  \<^item> \<open>Transitions\<close>: runs of a step relation, and the locales \<open>invariant_part\<close> (a part of the state with an
    invariant), \<open>lossy_fifo\<close> and \<open>lossless_fifo\<close> (what comes out is, in order, some or all of what went in),
    \<open>draining\<close> (the work ends when the part is served often enough) and \<open>served_queue\<close> (a queue that takes up its channel
    hands on all that waited in order, whatever is sent to the channel later). The actor, the driver with the actor, the
    subscriptions and the compression estimate are interpretations, so that induction over runs is done once.
  \<^item> \<open>Float64\<close>: the doubles of the program with the rounding of each operation, and its error.

  Time, chain data and batches.
  \<^item> \<open>Chain_Time\<close>: slots, epochs, timestamps and \<open>SlotClock\<close> (\<open>crates/primitives/src/time.rs\<close>, \<open>lib.rs\<close>).
  \<^item> \<open>Chain_Types\<close>: headers, blocks and preconfirmed blocks (\<open>crates/primitives/src/taiko/\<close>).
  \<^item> \<open>Batch\<close>: \<open>Batch\<close> with all its methods (\<open>taiko/batch.rs\<close>); adding a block keeps order, capacity and blocks.
  \<^item> \<open>Anchored_Blocks\<close>: contiguous blocks with their anchors (\<open>taiko/block.rs\<close>).
  \<^item> \<open>Batch_Map\<close>: the pipeline from blocks to proposable batches (\<open>taiko/batch_map.rs\<close>); it conserves the blocks
    and their order.
  \<^item> \<open>Blob\<close>, \<open>Fees\<close>: the blob codec and the fee hints (\<open>blob.rs\<close>); the codec makes the round trip, accepts exactly
    what it encodes up to two bits, data of any size makes the round trip, and nothing indexes out of bounds.
  \<^item> \<open>Compression\<close>: the estimate of the compression ratio under concurrent updates, and balances in ETH
    (\<open>compression/\<close>, \<open>wei_to_eth\<close>). Locale \<open>size_estimator\<close> is what the batch relies on.
  \<^item> \<open>Config\<close>: options and \<open>RuntimeConfig\<close> (\<open>crates/config/src/\<close>, \<open>crates/driver/src/config.rs\<close>).

  Contracts and clients.
  \<^item> \<open>Inbox\<close>, \<open>Anchor\<close>, \<open>Signer\<close>: the bindings of inbox and anchor contract with the parsing of errors, the anchor
    transaction and its deterministic signature (\<open>crates/chainio/src/\<close>, \<open>taiko/deterministic_signer.rs\<close>).
  \<^item> \<open>Preconf_Client\<close>: the preconfirmation server with its retries and websocket, the retry policy of the RPC
    clients and the critical tasks (\<open>crates/clients/src/taiko_preconf.rs\<close>, \<open>retries.rs\<close>, \<open>task.rs\<close>).
  \<^item> \<open>Clients\<close>: the execution and engine clients, contract calls and the backoff (\<open>crates/clients/src/\<close>,
    \<open>crates/chainio/src/\<close>). The two subscriptions are step relations: the one for events loses nothing, the one for
    blocks keeps only the newest.

  The driver crate.
  \<^item> \<open>Lookahead\<close>: the windows of slots, the status of the driver, and why two sequencers do not overlap,
    whatever they have read when (\<open>informed\<close>: the histories of a lookahead).
  \<^item> \<open>Batch_Errors\<close>, \<open>Submission\<close>, \<open>Poster\<close>: classification of errors, the actor as a transition system over rounds
    of \<open>poll\<close>, and posting a batch with retries (\<open>batch_submitter/\<close>).
  \<^item> \<open>Submission_Live\<close>: the actor posts everything in its queue as long as nothing fails.
  \<^item> \<open>Soft_Blocks\<close>, \<open>Sync\<close>: the concurrent download, refined to downloading one block after the other, and the syncer
    (\<open>sync/\<close>). Locale \<open>block_source\<close> is what the syncer relies on, interpreted on the download.
  \<^item> \<open>Builder\<close>: building and finalizing blocks, the watch channel of the state (\<open>block_builder/\<close>).
  \<^item> \<open>Chain_State\<close>: the L1 and L2 state, balances and the allowance (\<open>state.rs\<close>).
  \<^item> \<open>Driver\<close>, \<open>Driver_Correct\<close>: the state of the driver, every handler with its early returns, startup; then the
    invariant that every handler keeps (collection \<open>driver_rules\<close>) and what each handler guarantees.
  \<^item> \<open>Driver_Panics\<close>: every reason for which a handler can panic (collection \<open>panic_rules\<close>), with the room in the command
    channel that each one needs, and the one that sends without bound.
  \<^item> \<open>Metrics\<close>, \<open>Metric_Writes\<close>: the metrics that compute something, and what every function of \<open>metrics.rs\<close> gives to the
    metrics library; the shutdown signal.
  \<^item> \<open>Process\<close>: \<open>main\<close> with the environment file and the telemetry (\<open>bin/mk1/src/main.rs\<close>, \<open>crates/config/src/telemetry.rs\<close>),
    and the calls of the clients that only pass an answer on.

  The composition.
  \<^item> \<open>System\<close>: driver and actor with the two channels between them and the background tasks, as one step relation.
    From the start of the program on, every posted batch is well-formed, in every run.
  \<^item> \<open>System_Order\<close>: in a run without failures the system is a lossless queue from the block builder to L1
    (collection \<open>pass_rules\<close>: what each handler passes on). Also here: how the size that a tick asks for depends on the
    queue, and the reorg that the conflated stream of blocks hides.
  \<^item> \<open>System_Live\<close>: unless a proposal fails or L2 reorgs, what the driver has submitted is posted, in order, when the
    actor is polled often enough (collection \<open>append_rules\<close>: a handler only appends to the channel).
  \<^item> \<open>System_Flight\<close>: at most one block is built at a time, from the start of the program on, unless blocks are reposted
    meanwhile (collection \<open>flight_rules\<close>: what each handler does to the builder).
\<close>

section \<open>Concurrency, loops and bounds\<close>

text \<open>
  A handler of the driver runs to its end before the next event, as in the code; what other tasks do while it waits
  is an argument. The actor is polled between handlers, and within the one handler that waits for its answer. The
  order of \<open>select!\<close>, the readiness of futures and the interleaving of tasks are arguments or steps, so properties
  hold for all of them.

  There is no fuel. A loop whose number of rounds the code bounds recurses on that bound: 4096 field elements of a
  blob, the attempts of \<open>retry\<close>, the blocks waited for after a proposal. A loop that can go on forever (posting until
  the deadline, downloading, startup, syncing) recurses on the list of what the outside answers in each round and has
  a value of its own when the list ends first; the download and \<open>retry\<close> are proved to return once the outside has
  answered often enough, and posting a batch once the deadline has passed and the fees suffice. Splitting data into chunks is the only recursion with a measure of its own.

  Properties about behaviour that is not meant are stated as what the code does: a submission during a finalization
  mixes anchors, a second one deadlocks the driver, reanchoring takes an L2 header for an L1 anchor, the minimal gas
  limit is used as a cap of resubmissions, the estimate of the compression ratio stops before it has converged, and a reorg can be
  missed, a sync with more than 32 batches panics, as does a base fee above 64 bits.
\<close>

section \<open>Not modelled\<close>

text \<open>
  \<^item> The constructors of library clients: providers, transports, JWT, TLS.
  \<^item> The generated contract bindings, beyond the structures and errors that the program reads.
  \<^item> The parser of the command line, URLs, keys, contract addresses and the allocator.
  \<^item> Log lines, summaries and \<open>Debug\<close> output, and where in a handler a metric is written, but for the L2 head.
  \<^item> The tokio runtime: intervals, channels and task spawning appear through their documented behaviour only.
  \<^item> The L1 and L2 chains and the contracts themselves.
\<close>

end
